(* ===== verification/Geata_Prelude.thy ===== *)
theory Geata_Prelude
  imports "HOL-Library.Finite_Map" "HOL-Library.Word" "HOL-Library.Signed_Division"
    "HOL-Library.Char_ord" "HOL-Library.List_Lexorder"
begin

text \<open>
  What every component of the development shares: the collections of simplification rules,
  Rust's integer arithmetic at its width (wrapping, checked and saturating forms), results
  as sums, and the few facts on finite maps and lists that the library theories leave out.

  A Rust \<^verbatim>\<open>u8\<close>..\<^verbatim>\<open>u128\<close> is a \<open>nat\<close> below \<open>2 ^ w\<close>, an \<^verbatim>\<open>i64\<close> an \<open>int\<close> between
  \<open>- 2 ^ 63\<close> and \<open>2 ^ 63 - 1\<close>; the operations below write the wrap-around of the release
  build, the \<open>None\<close> of \<^verbatim>\<open>checked_\<close> and the clamp of \<^verbatim>\<open>saturating_\<close> operations out.
  A \<^verbatim>\<open>HashMap\<close> or \<^verbatim>\<open>BTreeMap\<close> is an \<open>fmap\<close>; a \<^verbatim>\<open>Result\<close> is a sum with \<open>Inl\<close> the error.
\<close>

named_theorems rust_arith "definitions of Rust's integer operations"

section \<open>Unsigned integers\<close>

definition wrapping_add :: "nat \<Rightarrow> nat \<Rightarrow> nat \<Rightarrow> nat" where
  [rust_arith]: "wrapping_add w a b = (a + b) mod 2 ^ w"

definition wrapping_sub :: "nat \<Rightarrow> nat \<Rightarrow> nat \<Rightarrow> nat" where
  [rust_arith]: "wrapping_sub w a b = (a + 2 ^ w - b) mod 2 ^ w"

definition wrapping_mul :: "nat \<Rightarrow> nat \<Rightarrow> nat \<Rightarrow> nat" where
  [rust_arith]: "wrapping_mul w a b = (a * b) mod 2 ^ w"

definition checked_add :: "nat \<Rightarrow> nat \<Rightarrow> nat \<Rightarrow> nat option" where
  [rust_arith]: "checked_add w a b = (if a + b < 2 ^ w then Some (a + b) else None)"

definition checked_sub :: "nat \<Rightarrow> nat \<Rightarrow> nat option" where
  [rust_arith]: "checked_sub a b = (if b \<le> a then Some (a - b) else None)"

definition checked_mul :: "nat \<Rightarrow> nat \<Rightarrow> nat \<Rightarrow> nat option" where
  [rust_arith]: "checked_mul w a b = (if a * b < 2 ^ w then Some (a * b) else None)"

definition saturating_add :: "nat \<Rightarrow> nat \<Rightarrow> nat \<Rightarrow> nat" where
  [rust_arith]: "saturating_add w a b = min (a + b) (2 ^ w - 1)"

definition truncate_to :: "nat \<Rightarrow> nat \<Rightarrow> nat" where
  [rust_arith]: "truncate_to w a = a mod 2 ^ w"

definition div_ceil :: "nat \<Rightarrow> nat \<Rightarrow> nat" where
  "div_ceil a b = (a + b - 1) div b"

lemma wrapping_add_exact: "a + b < 2 ^ w \<Longrightarrow> wrapping_add w a b = a + b"
  by (simp add: wrapping_add_def)

lemma wrapping_mul_exact: "a * b < 2 ^ w \<Longrightarrow> wrapping_mul w a b = a * b"
  by (simp add: wrapping_mul_def)

lemma saturating_add_mono: "a \<le> a' \<Longrightarrow> saturating_add w a b \<le> saturating_add w a' b"
  by (simp add: saturating_add_def)

text \<open>\<open>div_ceil a b\<close> is the least \<open>n\<close> with \<open>a \<le> n * b\<close>.\<close>

lemma div_ceil_le_iff:
  assumes "0 < b"
  shows "div_ceil a b \<le> n \<longleftrightarrow> a \<le> n * b"
proof -
  have "div_ceil a b \<le> n \<longleftrightarrow> (a + b - 1) div b < Suc n"
    by (simp add: div_ceil_def less_Suc_eq_le)
  also have "\<dots> \<longleftrightarrow> a + b - 1 < Suc n * b"
    using assms by (rule div_less_iff_less_mult)
  also have "\<dots> \<longleftrightarrow> a \<le> n * b"
    using assms by auto
  finally show ?thesis .
qed

lemma div_ceil_pos: "0 < b \<Longrightarrow> 0 < a \<Longrightarrow> 0 < div_ceil a b"
  using div_ceil_le_iff [of b a 0] by simp

section \<open>Signed 64-bit integers\<close>

definition i64_min :: int where "i64_min = - (2 ^ 63)"
definition i64_max :: int where "i64_max = 2 ^ 63 - 1"

definition i64_ok :: "int \<Rightarrow> bool" where
  "i64_ok a \<longleftrightarrow> i64_min \<le> a \<and> a \<le> i64_max"

definition i64_sat :: "int \<Rightarrow> int" where
  "i64_sat a = max i64_min (min i64_max a)"

definition i64_saturating_add :: "int \<Rightarrow> int \<Rightarrow> int" where
  [rust_arith]: "i64_saturating_add a b = i64_sat (a + b)"

definition i64_saturating_sub :: "int \<Rightarrow> int \<Rightarrow> int" where
  [rust_arith]: "i64_saturating_sub a b = i64_sat (a - b)"

definition i64_wrap :: "int \<Rightarrow> int" where
  "i64_wrap a = (a + 2 ^ 63) mod 2 ^ 64 - 2 ^ 63"

lemmas i64_bounds = i64_min_def i64_max_def i64_ok_def i64_sat_def

lemma i64_sat_ok [simp]: "i64_ok (i64_sat a)"
  by (simp add: i64_bounds)

lemma i64_sat_id: "i64_ok a \<Longrightarrow> i64_sat a = a"
  by (simp add: i64_bounds)

lemma i64_sat_mono: "a \<le> b \<Longrightarrow> i64_sat a \<le> i64_sat b"
  by (simp add: i64_bounds)

lemma i64_wrap_id: "i64_ok a \<Longrightarrow> i64_wrap a = a"
  by (simp add: i64_bounds i64_wrap_def)

section \<open>Options, results and maps\<close>

definition filter_option :: "('a \<Rightarrow> bool) \<Rightarrow> 'a option \<Rightarrow> 'a option" where
  "filter_option p x = (case x of Some a \<Rightarrow> if p a then Some a else None | None \<Rightarrow> None)"

lemma filter_option_simps [simp]:
  "filter_option p None = None"
  "filter_option p (Some a) = (if p a then Some a else None)"
  by (simp_all add: filter_option_def)

lemma filter_option_eq_Some: "filter_option p x = Some a \<longleftrightarrow> x = Some a \<and> p a"
  by (cases x) auto

definition bind_result :: "'e + 'a \<Rightarrow> ('a \<Rightarrow> 'e + 'b) \<Rightarrow> 'e + 'b" where
  "bind_result r f = (case r of Inl e \<Rightarrow> Inl e | Inr a \<Rightarrow> f a)"

definition ok_or :: "'e \<Rightarrow> 'a option \<Rightarrow> 'e + 'a" where
  "ok_or e x = (case x of None \<Rightarrow> Inl e | Some a \<Rightarrow> Inr a)"

definition ensure :: "bool \<Rightarrow> 'e \<Rightarrow> 'e + unit" where
  "ensure b e = (if b then Inr () else Inl e)"

lemma result_simps [simp]:
  "bind_result (Inl e) f = Inl e"
  "bind_result (Inr a) f = f a"
  "ok_or e None = Inl e"
  "ok_or e (Some a) = Inr a"
  "ensure True e = Inr ()"
  "ensure False e = Inl e"
  by (simp_all add: bind_result_def ok_or_def ensure_def)

lemma bind_result_eq_Inr [simp]:
  "bind_result r f = Inr b \<longleftrightarrow> (\<exists>a. r = Inr a \<and> f a = Inr b)"
  by (cases r) auto

lemma ensure_eq_Inr [simp]: "ensure b e = Inr u \<longleftrightarrow> b"
  by (simp add: ensure_def)

lemma ok_or_eq_Inr [simp]: "ok_or e x = Inr a \<longleftrightarrow> x = Some a"
  by (cases x) auto

definition fmlen :: "('k, 'v) fmap \<Rightarrow> nat" where
  "fmlen m = fcard (fmdom m)"

lemma fmlen_empty [simp]: "fmlen fmempty = 0"
  by (simp add: fmlen_def)

lemma fmlen_upd: "fmlen (fmupd k v m) = (if fmlookup m k = None then Suc (fmlen m) else fmlen m)"
  by (auto simp: fmlen_def fcard_finsert_if fmdom_notI dest: fmdom_notD)

lemma fmlen_filter_le: "fmlen (fmfilter p m) \<le> fmlen m"
  by (auto simp: fmlen_def intro!: fcard_mono)

lemma fmlen_drop: "fmlen (fmdrop k m) = (if fmlookup m k = None then fmlen m else fmlen m - 1)"
  by (auto simp: fmlen_def fcard_fminus_fsingleton_if fmdomI dest: fmdom_notI fmdom_notD)

lemma fmlen_pos:
  assumes "fmlookup m k \<noteq> None"
  shows "0 < fmlen m"
proof (rule ccontr)
  assume "\<not> 0 < fmlen m"
  then have "fmdom m = {||}" by (simp add: fmlen_def)
  with assms show False by (auto dest: fmdomI)
qed

section \<open>Runs\<close>

text \<open>A run performs a list of operations one after the other and collects their results. An
  interleaving of concurrent clients is such a list, since every operation below is one
  transaction or one critical section.\<close>

fun run_ops :: "('s \<Rightarrow> 'op \<Rightarrow> 'r \<times> 's) \<Rightarrow> 's \<Rightarrow> 'op list \<Rightarrow> 'r list \<times> 's" where
  "run_ops step s [] = ([], s)"
| "run_ops step s (x # xs) =
     (let (r, s') = step s x; (rs, s'') = run_ops step s' xs in (r # rs, s''))"

lemma length_run_ops: "length (fst (run_ops step s xs)) = length xs"
  by (induction xs arbitrary: s) (auto simp: Let_def split: prod.splits, metis fst_conv)

text \<open>An invariant of single steps holds along every path of a step relation.\<close>

locale step_invariant =
  fixes step :: "'s \<Rightarrow> 's \<Rightarrow> bool" and inv :: "'s \<Rightarrow> bool"
  assumes step_inv: "step s t \<Longrightarrow> inv s \<Longrightarrow> inv t"
begin

lemma reach_inv: "step\<^sup>*\<^sup>* s t \<Longrightarrow> inv s \<Longrightarrow> inv t"
  by (induction rule: rtranclp_induct) (auto intro: step_inv)

end

text \<open>
  Single-use admission: an operation may grant a key; a granted key was free before and is
  taken after, and a taken key stays taken while the operations are legal and the state's
  invariant holds. Then no key is granted twice, in whatever order the operations run.
\<close>

locale single_use =
  fixes step :: "'s \<Rightarrow> 'op \<Rightarrow> 'r \<times> 's"
    and grants :: "'op \<Rightarrow> 'r \<Rightarrow> 'k \<Rightarrow> bool"
    and taken :: "'s \<Rightarrow> 'k \<Rightarrow> bool"
    and legal :: "'op \<Rightarrow> 'k \<Rightarrow> bool"
    and inv :: "'s \<Rightarrow> 'k \<Rightarrow> bool"
  assumes inv_stays: "\<lbrakk>step s x = (r, s'); legal x k; inv s k\<rbrakk> \<Longrightarrow> inv s' k"
    and grant_free: "\<lbrakk>step s x = (r, s'); legal x k; inv s k; grants x r k\<rbrakk> \<Longrightarrow> \<not> taken s k"
    and grant_taken: "\<lbrakk>step s x = (r, s'); legal x k; inv s k; grants x r k\<rbrakk> \<Longrightarrow> taken s' k"
    and taken_stays: "\<lbrakk>step s x = (r, s'); legal x k; inv s k; taken s k\<rbrakk> \<Longrightarrow> taken s' k"
begin

lemma run_taken:
  "\<lbrakk>run_ops step s xs = (rs, s'); \<forall>x \<in> set xs. legal x k; inv s k; taken s k\<rbrakk> \<Longrightarrow>
    taken s' k \<and> filter (\<lambda>(x, r). grants x r k) (zip xs rs) = []"
proof (induction xs arbitrary: s rs)
  case Nil
  then show ?case by simp
next
  case (Cons x xs)
  obtain r s1 where x: "step s x = (r, s1)" by (cases "step s x")
  obtain rs1 s2 where xs: "run_ops step s1 xs = (rs1, s2)" by (cases "run_ops step s1 xs")
  have rs: "rs = r # rs1" "s' = s2" using Cons.prems(1) x xs by auto
  have "inv s1 k" "taken s1 k" using inv_stays [OF x] taken_stays [OF x] Cons.prems by simp_all
  then have IH: "taken s2 k \<and> filter (\<lambda>(x, r). grants x r k) (zip xs rs1) = []"
    using Cons.IH [of s1 rs1] xs rs Cons.prems by simp
  moreover have "\<not> grants x r k" using grant_free [OF x] Cons.prems by auto
  ultimately show ?case by (simp add: rs)
qed

lemma granted_once:
  "\<lbrakk>run_ops step s xs = (rs, s'); \<forall>x \<in> set xs. legal x k; inv s k\<rbrakk> \<Longrightarrow>
    length (filter (\<lambda>(x, r). grants x r k) (zip xs rs)) \<le> 1"
proof (induction xs arbitrary: s rs)
  case Nil
  then show ?case by simp
next
  case (Cons x xs)
  obtain r s1 where x: "step s x = (r, s1)" by (cases "step s x")
  obtain rs1 s2 where xs: "run_ops step s1 xs = (rs1, s2)" by (cases "run_ops step s1 xs")
  have rs: "rs = r # rs1" "s' = s2" using Cons.prems(1) x xs by auto
  have i: "inv s1 k" using inv_stays [OF x] Cons.prems by simp
  show ?case
  proof (cases "grants x r k")
    case True
    then have "taken s1 k" using grant_taken [OF x] Cons.prems by simp
    then show ?thesis using run_taken [OF xs] i Cons.prems by (simp add: rs)
  next
    case False
    then show ?thesis using Cons.IH [of s1 rs1] xs rs i Cons.prems by simp
  qed
qed

end

end
