(* ===== verification/Rust_Text.thy ===== *)
theory Rust_Text
  imports Geata_Prelude "HOL-Library.Sublist"
begin

text \<open>
  The part of Rust's standard library on text that the sources use. A \<^verbatim>\<open>str\<close> is its UTF-8
  bytes, a list of \<open>char\<close> (8 bits each), so \<open>length\<close> is \<^verbatim>\<open>len()\<close> and byte slices are
  list operations; the characters of a text, where the sources iterate over them, are the
  byte groups \<open>chars\<close> splits it into. The hexadecimal helpers of the Lightning module are here
  too, because several components share them.
\<close>

section \<open>ASCII\<close>

definition is_ascii_digit :: "char \<Rightarrow> bool" where
  "is_ascii_digit c \<longleftrightarrow> 48 \<le> (of_char c :: nat) \<and> (of_char c :: nat) \<le> 57"

definition is_ascii_lower :: "char \<Rightarrow> bool" where
  "is_ascii_lower c \<longleftrightarrow> 97 \<le> (of_char c :: nat) \<and> (of_char c :: nat) \<le> 122"

definition is_ascii_upper :: "char \<Rightarrow> bool" where
  "is_ascii_upper c \<longleftrightarrow> 65 \<le> (of_char c :: nat) \<and> (of_char c :: nat) \<le> 90"

definition is_ascii_alphanumeric :: "char \<Rightarrow> bool" where
  "is_ascii_alphanumeric c \<longleftrightarrow> is_ascii_digit c \<or> is_ascii_lower c \<or> is_ascii_upper c"

definition is_ascii :: "char \<Rightarrow> bool" where
  "is_ascii c \<longleftrightarrow> (of_char c :: nat) < 128"

definition ascii_lower :: "char \<Rightarrow> char" where
  "ascii_lower c = (if is_ascii_upper c then char_of ((of_char c :: nat) + 32) else c)"

definition to_ascii_lowercase :: "string \<Rightarrow> string" where
  "to_ascii_lowercase s = map ascii_lower s"

definition eq_ignore_ascii_case :: "string \<Rightarrow> string \<Rightarrow> bool" where
  "eq_ignore_ascii_case s t \<longleftrightarrow> to_ascii_lowercase s = to_ascii_lowercase t"

lemma ascii_lower_idem [simp]: "ascii_lower (ascii_lower c) = ascii_lower c"
  by (simp add: ascii_lower_def is_ascii_upper_def)

lemma ascii_lower_Char:
  "ascii_lower (Char b0 b1 b2 b3 b4 b5 b6 b7) =
     (if is_ascii_upper (Char b0 b1 b2 b3 b4 b5 b6 b7) then Char b0 b1 b2 b3 b4 True b6 b7
      else Char b0 b1 b2 b3 b4 b5 b6 b7)"
proof (cases "is_ascii_upper (Char b0 b1 b2 b3 b4 b5 b6 b7)")
  case True
  have one: "of_bool b \<le> (1 :: nat)" for b by simp
  have "\<not> b5"
    using True one [of b0] one [of b1] one [of b2] one [of b3] one [of b4]
    by (cases b5; cases b6; cases b7; simp add: is_ascii_upper_def of_char_def)
  then have e: "(of_char (Char b0 b1 b2 b3 b4 True b6 b7) :: nat) = of_char (Char b0 b1 b2 b3 b4 b5 b6 b7) + 32"
    by (simp add: of_char_def)
  have "char_of ((of_char (Char b0 b1 b2 b3 b4 b5 b6 b7) :: nat) + 32) = Char b0 b1 b2 b3 b4 True b6 b7"
    unfolding e [symmetric] by (rule char_of_char)
  then show ?thesis using True by (simp add: ascii_lower_def)
qed (simp add: ascii_lower_def)

lemma to_ascii_lowercase_idem [simp]: "to_ascii_lowercase (to_ascii_lowercase s) = to_ascii_lowercase s"
  by (simp add: to_ascii_lowercase_def comp_def)

section \<open>Searching and splitting\<close>

definition strip_prefix :: "string \<Rightarrow> string \<Rightarrow> string option" where
  "strip_prefix p s = (if prefix p s then Some (drop (length p) s) else None)"

definition strip_suffix :: "string \<Rightarrow> string \<Rightarrow> string option" where
  "strip_suffix p s = (if suffix p s then Some (take (length s - length p) s) else None)"

definition contains_str :: "string \<Rightarrow> string \<Rightarrow> bool" where
  "contains_str p s \<longleftrightarrow> sublist p s"

fun split_on :: "char \<Rightarrow> string \<Rightarrow> string list" where
  "split_on d [] = [[]]"
| "split_on d (c # cs) =
     (if c = d then [] # split_on d cs
      else (case split_on d cs of [] \<Rightarrow> [[c]] | p # ps \<Rightarrow> (c # p) # ps))"

fun split_once :: "char \<Rightarrow> string \<Rightarrow> (string \<times> string) option" where
  "split_once d [] = None"
| "split_once d (c # cs) =
     (if c = d then Some ([], cs) else map_option (\<lambda>(a, b). (c # a, b)) (split_once d cs))"

definition trim_start_matches :: "char set \<Rightarrow> string \<Rightarrow> string" where
  "trim_start_matches cs s = dropWhile (\<lambda>c. c \<in> cs) s"

definition trim_end_matches :: "char set \<Rightarrow> string \<Rightarrow> string" where
  "trim_end_matches cs s = rev (dropWhile (\<lambda>c. c \<in> cs) (rev s))"

definition trim_matches :: "char set \<Rightarrow> string \<Rightarrow> string" where
  "trim_matches cs s = trim_end_matches cs (trim_start_matches cs s)"

lemma strip_prefix_eq_Some: "strip_prefix p s = Some t \<longleftrightarrow> s = p @ t"
  by (auto simp: strip_prefix_def prefix_def)

lemma split_once_eq_Some: "split_once d s = Some (a, b) \<longleftrightarrow> s = a @ d # b \<and> d \<notin> set a"
proof (induction s arbitrary: a)
  case Nil
  then show ?case by simp
next
  case (Cons c cs)
  then show ?case by (cases a) auto
qed

section \<open>Numbers\<close>

definition digit_char :: "nat \<Rightarrow> char" where
  "digit_char n = char_of (48 + n)"

fun show_nat :: "nat \<Rightarrow> string" where
  "show_nat n = (if n < 10 then [digit_char n] else show_nat (n div 10) @ [digit_char (n mod 10)])"

declare show_nat.simps [simp del]

fun digits_val :: "string \<Rightarrow> nat \<Rightarrow> nat option" where
  "digits_val [] acc = Some acc"
| "digits_val (c # cs) acc =
     (if is_ascii_digit c then digits_val cs (10 * acc + ((of_char c :: nat) - 48)) else None)"

text \<open>\<^verbatim>\<open>str::parse\<close> for an unsigned type of \<open>w\<close> bits: an optional plus sign, at least one digit, no
  overflow.\<close>

definition parse_uint :: "nat \<Rightarrow> string \<Rightarrow> nat option" where
  "parse_uint w s =
     (let ds = (case s of c # cs \<Rightarrow> if c = CHR ''+'' then cs else s | [] \<Rightarrow> [])
      in if ds = [] then None else filter_option (\<lambda>n. n < 2 ^ w) (digits_val ds 0))"

definition parse_i64 :: "string \<Rightarrow> int option" where
  "parse_i64 s =
     (case s of
        c # cs \<Rightarrow>
          if c = CHR ''-'' then
            (if cs = [] then None
             else filter_option i64_ok (map_option (\<lambda>n. - int n) (digits_val cs 0)))
          else if c = CHR ''+'' then
            (if cs = [] then None
             else filter_option i64_ok (map_option int (digits_val cs 0)))
          else filter_option i64_ok (map_option int (digits_val s 0))
      | [] \<Rightarrow> None)"

lemma is_ascii_digit_digit_char [simp]: "n < 10 \<Longrightarrow> is_ascii_digit (digit_char n)"
  by (simp add: is_ascii_digit_def digit_char_def)

lemma of_char_digit_char [simp]: "n < 10 \<Longrightarrow> (of_char (digit_char n) :: nat) = 48 + n"
  by (simp add: digit_char_def)

lemma digits_val_append:
  "digits_val (s @ t) acc = Option.bind (digits_val s acc) (digits_val t)"
  by (induction s arbitrary: acc) auto

lemma digits_val_show_nat: "digits_val (show_nat n) 0 = Some n"
proof (induction n rule: show_nat.induct)
  case (1 n)
  then show ?case by (cases "n < 10") (simp_all add: show_nat.simps [of n] digits_val_append)
qed

lemma digits_val_digits: "digits_val s acc \<noteq> None \<longleftrightarrow> list_all is_ascii_digit s"
  by (induction s arbitrary: acc) auto

lemma show_nat_digits: "list_all is_ascii_digit (show_nat n)"
  using digits_val_show_nat [of n] digits_val_digits [of "show_nat n" 0] by simp

lemma show_nat_nonempty [simp]: "show_nat n \<noteq> []"
  by (simp add: show_nat.simps [of n])

lemma parse_uint_show_nat:
  assumes "n < 2 ^ w"
  shows "parse_uint w (show_nat n) = Some n"
proof -
  obtain c cs where s: "show_nat n = c # cs" by (cases "show_nat n") auto
  have "is_ascii_digit c" using show_nat_digits [of n] s by simp
  then have "c \<noteq> CHR ''+''" by (auto simp: is_ascii_digit_def)
  then show ?thesis
    using assms digits_val_show_nat [of n] by (simp add: parse_uint_def s del: digits_val.simps)
qed

lemma parse_uint_less: "parse_uint w s = Some n \<Longrightarrow> n < 2 ^ w"
  by (auto simp: parse_uint_def Let_def filter_option_eq_Some split: if_splits)

section \<open>Hexadecimal\<close>

definition hex_digit :: "nat \<Rightarrow> char" where
  "hex_digit n = (if n < 10 then char_of (48 + n) else char_of (87 + n))"

definition hex_val :: "char \<Rightarrow> nat option" where
  "hex_val c =
     (let n = (of_char c :: nat)
      in if 48 \<le> n \<and> n \<le> 57 then Some (n - 48)
         else if 97 \<le> n \<and> n \<le> 102 then Some (n - 87)
         else if 65 \<le> n \<and> n \<le> 70 then Some (n - 55) else None)"

definition hex :: "string \<Rightarrow> string" where
  "hex bytes = concat (map (\<lambda>b. [hex_digit ((of_char b :: nat) div 16), hex_digit ((of_char b :: nat) mod 16)]) bytes)"

definition lowercase_hex :: "string \<Rightarrow> bool" where
  "lowercase_hex s \<longleftrightarrow>
     list_all (\<lambda>b. is_ascii_digit b \<or> 97 \<le> (of_char b :: nat) \<and> (of_char b :: nat) \<le> 102) s"

fun decode_pairs :: "string \<Rightarrow> string option" where
  "decode_pairs [] = Some []"
| "decode_pairs [c] = None"
| "decode_pairs (a # b # cs) =
     (case (hex_val a, hex_val b, decode_pairs cs) of
        (Some x, Some y, Some bs) \<Rightarrow> Some (char_of (16 * x + y) # bs)
      | _ \<Rightarrow> None)"

definition decode_hash :: "string \<Rightarrow> string option" where
  "decode_hash s = (if length s = 64 \<and> lowercase_hex s then decode_pairs s else None)"

lemma length_hex [simp]: "length (hex bs) = 2 * length bs"
  by (induction bs) (simp_all add: hex_def)

lemma hex_val_hex_digit [simp]: "n < 16 \<Longrightarrow> hex_val (hex_digit n) = Some n"
  by (auto simp: hex_val_def hex_digit_def Let_def)

lemma of_char_less [simp]: "(of_char c :: nat) < 256"
  by (rule of_char_mod_256 [THEN mod_eq_self_iff_div_eq_0 [THEN iffD1], THEN div_eq_0_iff [THEN iffD1], THEN disjE]) auto

lemma decode_pairs_hex: "decode_pairs (hex bs) = Some bs"
proof (induction bs)
  case Nil
  then show ?case by (simp add: hex_def)
next
  case (Cons b bs)
  have "(of_char b :: nat) div 16 < 16" by (simp add: div_less_iff_less_mult)
  then show ?case using Cons by (simp add: hex_def)
qed

lemma hex_inj: "hex a = hex b \<Longrightarrow> a = b"
  by (metis decode_pairs_hex option.inject)

lemma lowercase_hex_hex: "lowercase_hex (hex bs)"
proof -
  have "is_ascii_digit (hex_digit n) \<or> 97 \<le> (of_char (hex_digit n) :: nat) \<and> (of_char (hex_digit n) :: nat) \<le> 102"
    if "n < 16" for n
    using that by (auto simp: hex_digit_def is_ascii_digit_def)
  moreover have "(of_char b :: nat) div 16 < 16" for b by (simp add: div_less_iff_less_mult)
  ultimately show ?thesis
    by (induction bs) (simp_all add: hex_def lowercase_hex_def)
qed

section \<open>UTF-8\<close>

definition byte_in :: "nat \<Rightarrow> nat \<Rightarrow> char \<Rightarrow> bool" where
  "byte_in lo hi c \<longleftrightarrow> lo \<le> (of_char c :: nat) \<and> (of_char c :: nat) \<le> hi"

text \<open>\<^verbatim>\<open>str::from_utf8\<close>: the rest behind one well-formed character.\<close>

definition utf8_next :: "string \<Rightarrow> string option" where
  "utf8_next s =
     (case s of
        a # r \<Rightarrow>
          if is_ascii a then Some r
          else (case r of
                  b # r1 \<Rightarrow>
                    if byte_in 194 223 a \<and> byte_in 128 191 b then Some r1
                    else (case r1 of
                            c # r2 \<Rightarrow>
                              if byte_in 128 191 c \<and>
                                 (byte_in 224 224 a \<and> byte_in 160 191 b \<or> byte_in 225 236 a \<and> byte_in 128 191 b
                                  \<or> byte_in 237 237 a \<and> byte_in 128 159 b \<or> byte_in 238 239 a \<and> byte_in 128 191 b)
                              then Some r2
                              else (case r2 of
                                      d # r3 \<Rightarrow>
                                        if byte_in 128 191 c \<and> byte_in 128 191 d \<and>
                                           (byte_in 240 240 a \<and> byte_in 144 191 b \<or> byte_in 241 243 a \<and> byte_in 128 191 b
                                            \<or> byte_in 244 244 a \<and> byte_in 128 143 b)
                                        then Some r3 else None
                                    | [] \<Rightarrow> None)
                          | [] \<Rightarrow> None)
                | [] \<Rightarrow> None)
      | [] \<Rightarrow> None)"

lemma utf8_next_shorter: "utf8_next s = Some r \<Longrightarrow> length r < length s"
  by (auto simp: utf8_next_def split: list.splits if_splits)

function utf8_valid :: "string \<Rightarrow> bool" where
  "utf8_valid s = (s = [] \<or> (case utf8_next s of None \<Rightarrow> False | Some r \<Rightarrow> utf8_valid r))"
  by pat_completeness auto
termination
  by (relation "measure length") (auto dest: utf8_next_shorter)

declare utf8_valid.simps [simp del]

lemma utf8_valid_ascii: "list_all is_ascii s \<Longrightarrow> utf8_valid s"
  by (induction s) (simp_all add: utf8_valid.simps utf8_next_def)

end
