(* ===== verification/Rate_Limit.thy ===== *)
theory Rate_Limit
  imports Geata_Prelude
begin

text \<open>
  The per-client token buckets of \<^verbatim>\<open>src/crates/geata/src/rate_limit.rs\<close>: addresses and their
  bucket key, a bucket, a shard with its sweep and its capacity limit, and the sharded limiter.
  An \<^verbatim>\<open>Instant\<close> is a number of nanoseconds since a fixed origin and a \<^verbatim>\<open>Duration\<close> a number of
  nanoseconds; \<^verbatim>\<open>duration_since\<close> saturates at zero, as subtraction on \<open>nat\<close> does.

  The contract a client relies on is the locale \<open>token_bucket\<close>: a level per key that grows
  at the configured rate up to the burst, is debited by one token per admission and is not
  moved by other keys. It is interpreted on one shard and on the whole limiter.
\<close>

unbundle bit_operations_syntax

section \<open>Addresses\<close>

datatype ip_addr = V4 "32 word" | V6 "128 word"

definition to_canonical :: "ip_addr \<Rightarrow> ip_addr" where
  "to_canonical ip =
     (case ip of
        V4 a \<Rightarrow> V4 a
      | V6 a \<Rightarrow> if drop_bit 32 a = 0xFFFF then V4 (ucast a) else V6 a)"

definition is_loopback :: "ip_addr \<Rightarrow> bool" where
  "is_loopback ip =
     (case ip of
        V4 a \<Rightarrow> drop_bit 24 a = 127
      | V6 a \<Rightarrow> a = 1)"

definition checked_shl_u128 :: "128 word \<Rightarrow> nat \<Rightarrow> 128 word option" where
  "checked_shl_u128 a n = (if n < 128 then Some (push_bit n a) else None)"

definition client_key :: "ip_addr \<Rightarrow> nat \<Rightarrow> ip_addr" where
  "client_key client ipv6_prefix =
     (case to_canonical client of
        V6 ip \<Rightarrow>
          (let mask = (case checked_shl_u128 (- 1) (wrapping_sub 8 128 ipv6_prefix) of
                         Some m \<Rightarrow> m | None \<Rightarrow> 0)
           in V6 (ip AND mask))
      | V4 ip \<Rightarrow> V4 ip)"

section \<open>Buckets, shards and the limiter\<close>

definition SHARDS :: nat where "SHARDS = 16"
definition CLIENTS_PER_SHARD :: nat where "CLIENTS_PER_SHARD = 1024"
definition TOKEN :: nat where "TOKEN = 1000000000"
definition IDLE :: nat where "IDLE = 60 * 1000000000"

record limit =
  per_second :: nat
  burst :: nat

record bucket =
  credit :: nat
  updated :: nat

record shard =
  clients :: "(ip_addr, bucket) fmap"
  swept :: nat

record rate_limiter =
  rl_limit :: limit
  rl_ipv6_prefix :: nat
  rl_hash :: "ip_addr \<Rightarrow> nat"
  rl_shards :: "shard list"

text \<open>\<open>Admitted\<close> is \<^verbatim>\<open>Ok(())\<close>, \<open>Wait d\<close> is \<^verbatim>\<open>Err(d)\<close>, and \<open>Check_panic\<close> is the division
  by a zero rate, which \<^verbatim>\<open>u128::div_ceil\<close> answers with a panic.\<close>

datatype check_result = Admitted | Wait nat | Check_panic

definition bucket_capacity :: "limit \<Rightarrow> nat" where
  "bucket_capacity l = wrapping_mul 128 (burst l) TOKEN"

definition refilled :: "bucket \<Rightarrow> limit \<Rightarrow> nat \<Rightarrow> nat" where
  "refilled b l now =
     min (wrapping_add 128 (credit b) (wrapping_mul 128 (now - updated b) (per_second l)))
         (wrapping_mul 128 (burst l) TOKEN)"

definition shard_sweep :: "shard \<Rightarrow> limit \<Rightarrow> nat \<Rightarrow> shard" where
  "shard_sweep s l now =
     (if IDLE \<le> now - swept s
      then s\<lparr>clients := fmfilter (\<lambda>k. case fmlookup (clients s) k of
                 None \<Rightarrow> False
               | Some b \<Rightarrow> now - updated b < IDLE \<or> refilled b l now < bucket_capacity l)
               (clients s),
             swept := now\<rparr>
      else s)"

definition shard_check :: "shard \<Rightarrow> ip_addr \<Rightarrow> limit \<Rightarrow> nat \<Rightarrow> check_result \<times> shard" where
  "shard_check s0 client l now =
     (let s = shard_sweep s0 l now in
      if fmlookup (clients s) client = None \<and> CLIENTS_PER_SHARD \<le> fmlen (clients s)
      then (Wait IDLE, s)
      else
        (let b = (case fmlookup (clients s) client of
                    Some b \<Rightarrow> b
                  | None \<Rightarrow> \<lparr>credit = bucket_capacity l, updated = now\<rparr>);
             c = refilled b l now
         in if TOKEN \<le> c
            then (Admitted, s\<lparr>clients := fmupd client \<lparr>credit = c - TOKEN, updated = now\<rparr> (clients s)\<rparr>)
            else
              (let s' = s\<lparr>clients := fmupd client \<lparr>credit = c, updated = now\<rparr> (clients s)\<rparr>
               in if per_second l = 0 then (Check_panic, s')
                  else (Wait (truncate_to 64 (div_ceil (TOKEN - c) (per_second l))), s'))))"

definition shard_new :: "nat \<Rightarrow> shard" where
  "shard_new now = \<lparr>clients = fmempty, swept = now\<rparr>"

text \<open>\<open>None\<close> is the failed \<^verbatim>\<open>assert!\<close>. The clock is read once per shard.\<close>

definition with_prefix ::
    "limit \<Rightarrow> nat \<Rightarrow> (ip_addr \<Rightarrow> nat) \<Rightarrow> (nat \<Rightarrow> nat) \<Rightarrow> rate_limiter option" where
  "with_prefix l ipv6_prefix hash now =
     (if ipv6_prefix \<le> 128
      then Some \<lparr>rl_limit = l, rl_ipv6_prefix = ipv6_prefix, rl_hash = hash,
                 rl_shards = map (\<lambda>i. shard_new (now i)) [0..<SHARDS]\<rparr>
      else None)"

definition shard_index :: "rate_limiter \<Rightarrow> ip_addr \<Rightarrow> nat" where
  "shard_index rl key = rl_hash rl key mod SHARDS"

definition limiter_check :: "rate_limiter \<Rightarrow> ip_addr \<Rightarrow> nat \<Rightarrow> check_result \<times> rate_limiter" where
  "limiter_check rl client now =
     (let key = client_key client (rl_ipv6_prefix rl);
          index = shard_index rl key;
          (r, s) = shard_check (rl_shards rl ! index) key (rl_limit rl) now
      in (r, rl\<lparr>rl_shards := (rl_shards rl)[index := s]\<rparr>))"

section \<open>The contract of a rate limiter\<close>

text \<open>Instants are within \<open>2 ^ 94\<close> nanoseconds, the range of a \<^verbatim>\<open>Duration\<close>; limits fit \<^verbatim>\<open>u32\<close>
  and the rate is positive, which the configuration parser ensures.\<close>

definition instant_ok :: "nat \<Rightarrow> bool" where
  "instant_ok t \<longleftrightarrow> t < 2 ^ 94"

definition limit_ok :: "limit \<Rightarrow> bool" where
  "limit_ok l \<longleftrightarrow> 0 < per_second l \<and> per_second l < 2 ^ 32 \<and> 0 < burst l \<and> burst l < 2 ^ 32"

definition run_checks :: "('s \<Rightarrow> 'c \<Rightarrow> nat \<Rightarrow> check_result \<times> 's) \<Rightarrow> 's \<Rightarrow> ('c \<times> nat) list \<Rightarrow>
    check_result list \<times> 's" where
  "run_checks check = run_ops (\<lambda>s (c, t). check s c t)"

lemma run_checks_simps [simp]:
  "run_checks check s [] = ([], s)"
  "run_checks check s ((c, t) # es) =
     (let (r, s') = check s c t; (rs, s'') = run_checks check s' es in (r # rs, s''))"
  by (simp_all add: run_checks_def)

fun ordered_from :: "nat \<Rightarrow> ('c \<times> nat) list \<Rightarrow> bool" where
  "ordered_from t [] = True"
| "ordered_from t ((c, t') # es) = (t \<le> t' \<and> instant_ok t' \<and> ordered_from t' es)"

fun end_time :: "nat \<Rightarrow> ('c \<times> nat) list \<Rightarrow> nat" where
  "end_time t [] = t"
| "end_time t ((c, t') # es) = end_time t' es"

definition admissions :: "('c \<Rightarrow> 'k) \<Rightarrow> 'k \<Rightarrow> ('c \<times> nat) list \<Rightarrow> check_result list \<Rightarrow> nat" where
  "admissions key k es rs = length (filter (\<lambda>(e, r). key (fst e) = k \<and> r = Admitted) (zip es rs))"

lemma end_time_ge: "ordered_from t es \<Longrightarrow> t \<le> end_time t es"
  by (induction t es rule: ordered_from.induct) auto

locale token_bucket =
  fixes key :: "'c \<Rightarrow> 'k"
    and level :: "'s \<Rightarrow> 'k \<Rightarrow> nat \<Rightarrow> nat"
    and ok :: "nat \<Rightarrow> 's \<Rightarrow> bool"
    and check :: "'s \<Rightarrow> 'c \<Rightarrow> nat \<Rightarrow> check_result \<times> 's"
    and rate :: nat
    and cap :: nat
  assumes level_cap: "ok t s \<Longrightarrow> level s k t \<le> cap"
    and level_grows: "\<lbrakk>ok t s; t \<le> t'; instant_ok t'\<rbrakk> \<Longrightarrow>
      level s k t' = min cap (level s k t + (t' - t) * rate)"
    and check_ok: "\<lbrakk>ok t s; t \<le> t'; instant_ok t'; check s c t' = (r, s')\<rbrakk> \<Longrightarrow> ok t' s'"
    and check_admitted: "\<lbrakk>ok t s; t \<le> t'; instant_ok t'; check s c t' = (Admitted, s')\<rbrakk> \<Longrightarrow>
      level s (key c) t' = level s' (key c) t' + TOKEN"
    and check_refused: "\<lbrakk>ok t s; t \<le> t'; instant_ok t'; check s c t' = (r, s'); r \<noteq> Admitted\<rbrakk> \<Longrightarrow>
      level s' (key c) t' = level s (key c) t'"
    and check_other: "\<lbrakk>ok t s; t \<le> t'; instant_ok t'; check s c t' = (r, s'); k \<noteq> key c\<rbrakk> \<Longrightarrow>
      level s' k t' = level s k t'"
begin

lemma check_level:
  assumes "ok t s" "t \<le> t'" "instant_ok t'" "check s c t' = (r, s')"
  shows "level s k t' = level s' k t' + (if key c = k \<and> r = Admitted then TOKEN else 0)"
  using check_admitted [of t s t' c s'] check_refused [of t s t' c r s']
    check_other [of t s t' c r s' k] assms by (cases "key c = k") auto

lemma run_checks_ok:
  assumes "ok t s" "ordered_from t es" "run_checks check s es = (rs, s')"
  shows "ok (end_time t es) s'"
  using assms
proof (induction es arbitrary: s t rs)
  case Nil
  then show ?case by simp
next
  case (Cons e es)
  obtain c t' where e: "e = (c, t')" by (cases e)
  obtain r s1 where c: "check s c t' = (r, s1)" by (cases "check s c t'")
  have "ok t' s1" using Cons.prems e c by (auto intro: check_ok [of t s t' c r s1])
  then show ?case using Cons.prems e c by (auto intro!: Cons.IH split: prod.splits)
qed

text \<open>Over any run, what a key was granted plus what it has left is at most what it had plus
  what the elapsed time refilled.\<close>

lemma admissions_le:
  assumes "ok t s" "ordered_from t es" "run_checks check s es = (rs, s')"
  shows "admissions key k es rs * TOKEN + level s' k (end_time t es)
    \<le> level s k t + (end_time t es - t) * rate"
  using assms
proof (induction es arbitrary: s t rs s')
  case Nil
  then show ?case by (simp add: admissions_def)
next
  case (Cons e es)
  obtain c t' where e: "e = (c, t')" by (cases e)
  obtain r s1 where c: "check s c t' = (r, s1)" by (cases "check s c t'")
  obtain rs1 s2 where rest: "run_checks check s1 es = (rs1, s2)" by (cases "run_checks check s1 es")
  from Cons.prems e have t: "t \<le> t'" "instant_ok t'" "ordered_from t' es" by auto
  have ok1: "ok t' s1" using Cons.prems(1) t c by (auto intro: check_ok)
  have rs: "rs = r # rs1" "s' = s2" using Cons.prems(3) e c rest by auto
  have IH: "admissions key k es rs1 * TOKEN + level s2 k (end_time t' es)
      \<le> level s1 k t' + (end_time t' es - t') * rate"
    using Cons.IH [OF ok1 t(3) rest] .
  have lev: "level s k t' = level s1 k t' + (if key c = k \<and> r = Admitted then TOKEN else 0)"
    using check_level [OF Cons.prems(1) t(1,2) c] .
  have grow: "level s k t' \<le> level s k t + (t' - t) * rate"
    using level_grows [OF Cons.prems(1) t(1,2)] by simp
  have split: "(end_time t' es - t) * rate = (end_time t' es - t') * rate + (t' - t) * rate"
    using end_time_ge [OF t(3)] t(1) by (simp flip: add_mult_distrib)
  have "admissions key k (e # es) rs * TOKEN = admissions key k es rs1 * TOKEN
      + (if key c = k \<and> r = Admitted then TOKEN else 0)"
    by (simp add: admissions_def e rs)
  then show ?case using IH lev grow split e rs by simp
qed

end

section \<open>A shard keeps the contract\<close>

definition shard_level :: "limit \<Rightarrow> shard \<Rightarrow> ip_addr \<Rightarrow> nat \<Rightarrow> nat" where
  "shard_level l s c t =
     (case fmlookup (clients s) c of None \<Rightarrow> bucket_capacity l | Some b \<Rightarrow> refilled b l t)"

definition shard_ok :: "limit \<Rightarrow> nat \<Rightarrow> shard \<Rightarrow> bool" where
  "shard_ok l t s \<longleftrightarrow> limit_ok l \<and> instant_ok t \<and> swept s \<le> t \<and>
     fmlen (clients s) \<le> CLIENTS_PER_SHARD \<and>
     (\<forall>c b. fmlookup (clients s) c = Some b \<longrightarrow> updated b \<le> t \<and> credit b \<le> bucket_capacity l)"

lemma bucket_capacity_eq: "limit_ok l \<Longrightarrow> bucket_capacity l = burst l * TOKEN"
  by (simp add: bucket_capacity_def limit_ok_def TOKEN_def wrapping_mul_exact)

lemma refill_fits:
  assumes "limit_ok l" "c \<le> bucket_capacity l" "instant_ok now"
  shows "(now - u) * per_second l < 2 ^ 128" "c + (now - u) * per_second l < 2 ^ 128"
proof -
  have "(now - u) * per_second l \<le> 2 ^ 94 * 2 ^ 32"
    using assms by (intro mult_le_mono) (auto simp: limit_ok_def instant_ok_def)
  moreover have "c \<le> 2 ^ 32 * TOKEN"
    using assms bucket_capacity_eq [of l]
    by (auto simp: limit_ok_def intro: order_trans mult_le_mono1)
  ultimately show "(now - u) * per_second l < 2 ^ 128" "c + (now - u) * per_second l < 2 ^ 128"
    by (simp_all add: TOKEN_def)
qed

lemma refilled_exact:
  assumes "limit_ok l" "credit b \<le> bucket_capacity l" "instant_ok now"
  shows "refilled b l now = min (credit b + (now - updated b) * per_second l) (bucket_capacity l)"
  using refill_fits [OF assms, of "updated b"]
  by (simp add: refilled_def wrapping_mul_exact wrapping_add_exact bucket_capacity_def)

lemma refilled_later:
  assumes "limit_ok l" "credit b \<le> bucket_capacity l" "updated b \<le> t" "t \<le> t'" "instant_ok t'"
  shows "refilled b l t' = min (bucket_capacity l) (refilled b l t + (t' - t) * per_second l)"
proof -
  have "(t' - updated b) * per_second l = (t - updated b) * per_second l + (t' - t) * per_second l"
    using assms(3,4) by (simp flip: add_mult_distrib)
  moreover have "instant_ok t" using assms by (simp add: instant_ok_def)
  ultimately show ?thesis using assms by (simp add: refilled_exact min_def)
qed

lemma shard_okD:
  assumes "shard_ok l t s"
  shows "limit_ok l" "instant_ok t" "swept s \<le> t" "fmlen (clients s) \<le> CLIENTS_PER_SHARD"
    "fmlookup (clients s) c = Some b \<Longrightarrow> updated b \<le> t"
    "fmlookup (clients s) c = Some b \<Longrightarrow> credit b \<le> bucket_capacity l"
  using assms by (auto simp: shard_ok_def)

lemma shard_level_cap: "shard_level l s c t \<le> bucket_capacity l"
  by (auto simp: shard_level_def refilled_def bucket_capacity_def split: option.splits)

lemma shard_level_grows:
  "\<lbrakk>shard_ok l t s; t \<le> t'; instant_ok t'\<rbrakk> \<Longrightarrow>
    shard_level l s k t' = min (bucket_capacity l) (shard_level l s k t + (t' - t) * per_second l)"
  by (auto simp: shard_level_def shard_okD refilled_later split: option.splits)

text \<open>The sweep drops only buckets that are full: no level changes, now or later.\<close>

lemma shard_sweep_ok: "\<lbrakk>shard_ok l t s; t \<le> now; instant_ok now\<rbrakk> \<Longrightarrow> shard_ok l now (shard_sweep s l now)"
  using fmlen_filter_le order_trans
  by (fastforce simp: shard_ok_def shard_sweep_def split: if_splits)

lemma shard_sweep_level:
  assumes ok: "shard_ok l t s" and t: "t \<le> now" "now \<le> t'" and "instant_ok t'"
  shows "shard_level l (shard_sweep s l now) c t' = shard_level l s c t'"
proof (cases "fmlookup (clients s) c")
  case None
  then show ?thesis by (simp add: shard_level_def shard_sweep_def)
next
  case (Some b)
  show ?thesis
  proof (cases "fmlookup (clients (shard_sweep s l now)) c")
    case None
    then have full: "bucket_capacity l \<le> refilled b l now"
      using Some by (auto simp: shard_sweep_def split: if_splits)
    have "refilled b l t' = min (bucket_capacity l) (refilled b l now + (t' - now) * per_second l)"
      using assms Some by (intro refilled_later) (auto dest: shard_okD intro: order_trans)
    then show ?thesis using full None Some by (simp add: shard_level_def)
  next
    case (Some b')
    then show ?thesis
      using \<open>fmlookup (clients s) c = Some b\<close>
      by (auto simp: shard_level_def shard_sweep_def split: if_splits)
  qed
qed

abbreviation put_credit :: "shard \<Rightarrow> ip_addr \<Rightarrow> nat \<Rightarrow> nat \<Rightarrow> shard" where
  "put_credit s c v now \<equiv> s\<lparr>clients := fmupd c \<lparr>credit = v, updated = now\<rparr> (clients s)\<rparr>"

abbreviation shard_room :: "shard \<Rightarrow> ip_addr \<Rightarrow> bool" where
  "shard_room s c \<equiv> fmlookup (clients s) c \<noteq> None \<or> fmlen (clients s) < CLIENTS_PER_SHARD"

lemma shard_check_eq:
  assumes ok: "shard_ok l t s" and t: "t \<le> now" "instant_ok now"
  shows "shard_check s c l now =
    (let s1 = shard_sweep s l now; v = shard_level l s c now in
     if \<not> shard_room s1 c then (Wait IDLE, s1)
     else if TOKEN \<le> v then (Admitted, put_credit s1 c (v - TOKEN) now)
     else (Wait (div_ceil (TOKEN - v) (per_second l)), put_credit s1 c v now))"
proof -
  let ?s1 = "shard_sweep s l now"
  let ?v = "shard_level l s c now"
  let ?b = "case fmlookup (clients ?s1) c of Some b \<Rightarrow> b
    | None \<Rightarrow> \<lparr>credit = bucket_capacity l, updated = now\<rparr>"
  have l: "limit_ok l" using ok by (rule shard_okD)
  then have ps: "0 < per_second l" by (simp add: limit_ok_def)
  have "refilled ?b l now = shard_level l ?s1 c now"
    using l t by (simp add: shard_level_def refilled_exact split: option.splits)
  also have "\<dots> = ?v" using ok t by (intro shard_sweep_level) auto
  finally have b: "refilled ?b l now = ?v" .
  have "div_ceil (TOKEN - ?v) (per_second l) \<le> TOKEN"
    using ps by (simp add: div_ceil_le_iff) (metis diff_le_self le_trans mult_le_mono2 mult.right_neutral Suc_leI One_nat_def)
  then have tr: "truncate_to 64 (div_ceil (TOKEN - ?v) (per_second l)) = div_ceil (TOKEN - ?v) (per_second l)"
    by (simp add: truncate_to_def TOKEN_def)
  show ?thesis
    using ps b by (auto simp: shard_check_def Let_def tr not_le)
qed

lemma put_credit_level:
  assumes "limit_ok l" "v \<le> bucket_capacity l" "instant_ok now"
  shows "shard_level l (put_credit s c v now) k now = (if k = c then v else shard_level l s k now)"
  using assms by (simp add: shard_level_def refilled_exact)

lemma put_credit_ok:
  assumes "shard_ok l now s" "v \<le> bucket_capacity l" "shard_room s c"
  shows "shard_ok l now (put_credit s c v now)"
  using assms by (auto simp: shard_ok_def fmlen_upd split: if_splits)

lemma shard_check_ok:
  assumes "shard_ok l t s" "t \<le> now" "instant_ok now" "shard_check s c l now = (r, s')"
  shows "shard_ok l now s'"
proof -
  have "shard_ok l now (shard_sweep s l now)" using assms by (intro shard_sweep_ok) auto
  then show ?thesis
    using assms(4) shard_level_cap [of l s c now]
    by (auto simp: shard_check_eq [OF assms(1-3)] Let_def split: if_splits intro!: put_credit_ok)
qed

lemma shard_check_level:
  assumes "shard_ok l t s" "t \<le> now" "instant_ok now" "shard_check s c l now = (r, s')"
  shows "shard_level l s k now = shard_level l s' k now + (if k = c \<and> r = Admitted then TOKEN else 0)"
proof -
  have "shard_level l (shard_sweep s l now) k now = shard_level l s k now"
    using assms by (intro shard_sweep_level) auto
  moreover have "shard_level l s c now \<le> bucket_capacity l" by (rule shard_level_cap)
  ultimately show ?thesis
    using assms(4) shard_okD(1) [OF assms(1)] assms(3)
    by (auto simp: shard_check_eq [OF assms(1-3)] Let_def put_credit_level split: if_splits)
qed

interpretation shard: token_bucket "\<lambda>c. c" "shard_level l" "shard_ok l"
  "\<lambda>s c now. shard_check s c l now" "per_second l" "bucket_capacity l" for l
proof (unfold_locales, goal_cases)
  case (1 t s k)
  show ?case by (rule shard_level_cap)
next
  case (2 t s t' k)
  then show ?case by (rule shard_level_grows)
next
  case (3 t s t' c r s')
  then show ?case by (rule shard_check_ok)
next
  case (4 t s t' c s')
  then show ?case using shard_check_level [of l t s t' c Admitted s' c] by simp
next
  case (5 t s t' c r s')
  then show ?case using shard_check_level [of l t s t' c r s' c] by simp
next
  case (6 t s t' c r s' k)
  then show ?case using shard_check_level [of l t s t' c r s' k] by simp
qed

section \<open>The limiter keeps the contract\<close>

definition limiter_level :: "rate_limiter \<Rightarrow> ip_addr \<Rightarrow> nat \<Rightarrow> nat" where
  "limiter_level rl k t = shard_level (rl_limit rl) (rl_shards rl ! shard_index rl k) k t"

definition limiter_ok :: "limit \<Rightarrow> nat \<Rightarrow> nat \<Rightarrow> rate_limiter \<Rightarrow> bool" where
  "limiter_ok l p t rl \<longleftrightarrow> rl_limit rl = l \<and> rl_ipv6_prefix rl = p \<and> p \<le> 128 \<and>
     length (rl_shards rl) = SHARDS \<and> (\<forall>s \<in> set (rl_shards rl). shard_ok l t s)"

lemma shard_index_less [simp]: "shard_index rl k < SHARDS"
  by (simp add: shard_index_def SHARDS_def)

lemma shard_ok_later: "\<lbrakk>shard_ok l t s; t \<le> t'; instant_ok t'\<rbrakk> \<Longrightarrow> shard_ok l t' s"
  by (fastforce simp: shard_ok_def)

lemma limiter_okD:
  assumes "limiter_ok l p t rl"
  shows "rl_limit rl = l" "rl_ipv6_prefix rl = p" "length (rl_shards rl) = SHARDS"
    "shard_ok l t (rl_shards rl ! shard_index rl k)"
  using assms by (auto simp: limiter_ok_def)

lemma limiter_check_shard:
  assumes "limiter_ok l p t rl" "limiter_check rl c now = (r, rl')"
  obtains s' where "shard_check (rl_shards rl ! shard_index rl (client_key c p)) (client_key c p) l now = (r, s')"
    "rl' = rl\<lparr>rl_shards := (rl_shards rl)[shard_index rl (client_key c p) := s']\<rparr>"
  using assms by (auto simp: limiter_check_def limiter_ok_def Let_def split: prod.splits)

lemma limiter_check_ok:
  assumes ok: "limiter_ok l p t rl" and t: "t \<le> now" "instant_ok now"
    and c: "limiter_check rl c now = (r, rl')"
  shows "limiter_ok l p now rl'"
proof -
  obtain s' where s': "shard_check (rl_shards rl ! shard_index rl (client_key c p)) (client_key c p) l now = (r, s')"
    and rl': "rl' = rl\<lparr>rl_shards := (rl_shards rl)[shard_index rl (client_key c p) := s']\<rparr>"
    using ok c by (rule limiter_check_shard)
  have "shard_ok l now s'"
    using limiter_okD(4) [OF ok] t s' by (rule shard_check_ok)
  moreover have "\<forall>s \<in> set (rl_shards rl). shard_ok l now s"
    using ok t by (auto simp: limiter_ok_def intro: shard_ok_later)
  ultimately show ?thesis
    using ok set_update_subset_insert by (fastforce simp: limiter_ok_def rl')
qed

lemma limiter_check_level:
  assumes ok: "limiter_ok l p t rl" and t: "t \<le> now" "instant_ok now"
    and c: "limiter_check rl c now = (r, rl')"
  shows "limiter_level rl k now =
    limiter_level rl' k now + (if k = client_key c p \<and> r = Admitted then TOKEN else 0)"
proof -
  let ?i = "shard_index rl (client_key c p)"
  obtain s' where s': "shard_check (rl_shards rl ! ?i) (client_key c p) l now = (r, s')"
    and rl': "rl' = rl\<lparr>rl_shards := (rl_shards rl)[?i := s']\<rparr>"
    using ok c by (rule limiter_check_shard)
  have "shard_level l (rl_shards rl ! ?i) k now =
      shard_level l s' k now + (if k = client_key c p \<and> r = Admitted then TOKEN else 0)"
    using limiter_okD(4) [OF ok] t s' by (rule shard_check_level)
  moreover have "shard_index rl' k = shard_index rl k" "rl_limit rl' = l" "rl_limit rl = l"
    using limiter_okD(1) [OF ok] by (simp_all add: shard_index_def rl')
  moreover have "?i < length (rl_shards rl)" using limiter_okD(3) [OF ok] by simp
  ultimately show ?thesis
    by (cases "shard_index rl k = ?i") (auto simp: limiter_level_def rl')
qed

interpretation limiter: token_bucket "\<lambda>c. client_key c p" limiter_level "limiter_ok l p"
  limiter_check "per_second l" "bucket_capacity l" for l p
proof (unfold_locales, goal_cases)
  case (1 t s k)
  then show ?case by (auto simp: limiter_level_def limiter_ok_def shard_level_cap)
next
  case (2 t s t' k)
  then show ?case
    using shard_level_grows [OF limiter_okD(4) [OF 2(1)] 2(2,3)]
    by (simp add: limiter_level_def limiter_okD(1) [OF 2(1)])
next
  case (3 t s t' c r s')
  then show ?case by (rule limiter_check_ok)
next
  case (4 t s t' c s')
  then show ?case using limiter_check_level [of l p t s t' c Admitted s' "client_key c p"] by simp
next
  case (5 t s t' c r s')
  then show ?case using limiter_check_level [of l p t s t' c r s' "client_key c p"] by simp
next
  case (6 t s t' c r s' k)
  then show ?case using limiter_check_level [of l p t s t' c r s' k] by simp
qed

section \<open>Properties\<close>

text \<open>
  C30: a token bucket admits at most its burst plus what time refills. In any state the limiter
  can be in and over any sequence of checks with non-decreasing clock readings, by any mix of
  clients, the requests admitted for one client key cost at most the burst plus the elapsed
  nanoseconds times the rate (a request costs \<open>TOKEN\<close>, one second of one request per second).
  Sweeps, other keys and refusals cannot raise it.
\<close>

theorem limiter_admissions_bounded:
  assumes "limiter_ok l p t rl" "ordered_from t es" "run_checks limiter_check rl es = (rs, rl')"
  shows "admissions (\<lambda>c. client_key c p) k es rs * TOKEN
    \<le> burst l * TOKEN + (end_time t es - t) * per_second l"
proof -
  have "limit_ok l" using assms(1) shard_okD(1) limiter_okD(4) by blast
  then show ?thesis
    using limiter.admissions_le [OF assms, of k] limiter.level_cap [OF assms(1), of k]
    by (simp add: bucket_capacity_eq)
qed

text \<open>A fresh limiter is in such a state: the constructor asserts the prefix length and reads
  the clock once per shard.\<close>

lemma with_prefix_ok:
  assumes "with_prefix l p h now = Some rl" "limit_ok l" "\<And>i. i < SHARDS \<Longrightarrow> now i \<le> t" "instant_ok t"
  shows "limiter_ok l p t rl"
  using assms
  by (auto simp: with_prefix_def limiter_ok_def shard_ok_def shard_new_def split: if_splits)

text \<open>
  The limiter's invariant. A limiter built by \<^verbatim>\<open>with_prefix\<close> satisfies it, and after every
  further check it holds at the time of that check: at most 1024 clients per shard, no credit
  above the burst, no bucket updated in the future, the limit and the prefix unchanged.
\<close>

lemma limiter_invariant:
  assumes "with_prefix l p h now = Some rl" "limit_ok l" "\<And>i. i < SHARDS \<Longrightarrow> now i \<le> t" "instant_ok t"
    and "ordered_from t es" "run_checks limiter_check rl es = (rs, rl')"
  shows "limiter_ok l p (end_time t es) rl' \<and> (\<forall>s \<in> set (rl_shards rl'). fmlen (clients s) \<le> 1024)"
proof -
  have "limiter_ok l p (end_time t es) rl'"
    using with_prefix_ok [OF assms(1-4)] assms(5,6) by (rule limiter.run_checks_ok)
  then show ?thesis by (auto simp: limiter_ok_def shard_ok_def CLIENTS_PER_SHARD_def)
qed

text \<open>The room a client occupies in its shard survives a sweep, as its bucket or as free space.\<close>

lemma shard_sweep_room:
  assumes "shard_ok l t s" "fmlookup (clients s) c \<noteq> None"
  shows "shard_room (shard_sweep s l now) c"
proof (cases "fmlookup (clients (shard_sweep s l now)) c")
  case None
  let ?m = "clients (shard_sweep s l now)"
  obtain q where m: "?m = fmfilter q (clients s)" "\<not> q c"
    using None assms(2) by (auto simp: shard_sweep_def split: if_splits)
  then have "fmdom ?m |\<subseteq>| fmdom (clients s) |-| {|c|}" by auto
  then have "fmlen ?m \<le> fmlen (fmdrop c (clients s))"
    by (simp add: fmlen_def fcard_mono)
  moreover have "0 < fmlen (clients s)"
    using assms(2) by (rule fmlen_pos)
  ultimately have "fmlen ?m < fmlen (clients s)" using assms(2) by (simp add: fmlen_drop split: if_splits)
  then show ?thesis using shard_okD(4) [OF assms(1)] by simp
qed simp

lemma shard_check_tracked:
  assumes "shard_ok l t s" "t \<le> now" "instant_ok now" "fmlookup (clients s) c \<noteq> None"
  shows "fst (shard_check s c l now) = Admitted \<longleftrightarrow> TOKEN \<le> shard_level l s c now"
  using shard_sweep_room [OF assms(1,4)] by (auto simp: shard_check_eq [OF assms(1-3)] Let_def)

lemma shard_retry_exact:
  assumes ok: "shard_ok l t s" and t: "t \<le> now" "instant_ok now"
    and c: "shard_check s c l now = (Wait d, s')" and tracked: "fmlookup (clients s') c \<noteq> None"
    and t': "now \<le> t'" "instant_ok t'"
  shows "fst (shard_check s' c l t') = Admitted \<longleftrightarrow> now + d \<le> t'"
proof -
  let ?v = "shard_level l s c now"
  have l: "limit_ok l" using ok by (rule shard_okD)
  then have ps: "0 < per_second l" and cap: "TOKEN \<le> bucket_capacity l"
    by (auto simp: limit_ok_def bucket_capacity_eq)
  from c tracked have d: "d = div_ceil (TOKEN - ?v) (per_second l)" "?v < TOKEN"
    by (auto simp: shard_check_eq [OF ok t] Let_def split: if_splits)
  have ok': "shard_ok l now s'" using ok t c by (rule shard_check_ok)
  have "shard_level l s' c now = ?v" using shard_check_level [OF ok t c, of c] by simp
  then have "shard_level l s' c t' = min (bucket_capacity l) (?v + (t' - now) * per_second l)"
    using shard_level_grows [OF ok' t'] by simp
  then have "TOKEN \<le> shard_level l s' c t' \<longleftrightarrow> TOKEN - ?v \<le> (t' - now) * per_second l"
    using cap by auto
  also have "\<dots> \<longleftrightarrow> d \<le> t' - now" using ps by (simp add: d div_ceil_le_iff)
  finally show ?thesis using shard_check_tracked [OF ok' t' tracked] t' by auto
qed

lemma fmlen_filter_less: "fmlen (fmfilter p m) < fmlen m \<longleftrightarrow> (\<exists>k. fmlookup m k \<noteq> None \<and> \<not> p k)"
proof
  assume less: "fmlen (fmfilter p m) < fmlen m"
  show "\<exists>k. fmlookup m k \<noteq> None \<and> \<not> p k"
  proof (rule ccontr)
    assume "\<nexists>k. fmlookup m k \<noteq> None \<and> \<not> p k"
    then have "fmfilter p m = m" by (intro fmap_ext) (auto simp: eq_commute)
    then show False using less by simp
  qed
next
  assume "\<exists>k. fmlookup m k \<noteq> None \<and> \<not> p k"
  then obtain k where k: "fmlookup m k \<noteq> None" "\<not> p k" by blast
  have "fmlen (fmfilter p m) \<le> fmlen (fmdrop k m)" using k(2) by (auto simp: fmlen_def intro!: fcard_mono)
  also have "\<dots> < fmlen m" using fmlen_pos [OF k(1)] k(1) by (simp add: fmlen_drop)
  finally show "fmlen (fmfilter p m) < fmlen m" .
qed

text \<open>A client without a bucket in a full shard is admitted as soon as a sweep finds an idle, refilled bucket.\<close>

lemma shard_full_retry:
  assumes ok: "shard_ok l t s" and t: "t \<le> now" "instant_ok now"
    and full: "fmlookup (clients s) c = None" "fmlen (clients s) = 1024"
  shows "fst (shard_check s c l now) =
    (if IDLE \<le> now - swept s
        \<and> (\<exists>k b. fmlookup (clients s) k = Some b \<and> IDLE \<le> now - updated b \<and> refilled b l now = bucket_capacity l)
     then Admitted else Wait IDLE)"
proof -
  let ?p = "\<lambda>k. case fmlookup (clients s) k of None \<Rightarrow> False | Some b \<Rightarrow> now - updated b < IDLE \<or> refilled b l now < bucket_capacity l"
  have cap: "refilled b l now = bucket_capacity l \<longleftrightarrow> \<not> refilled b l now < bucket_capacity l" for b
    by (auto simp: refilled_def bucket_capacity_def)
  have "TOKEN \<le> bucket_capacity l"
    using shard_okD(1) [OF ok] by (simp add: bucket_capacity_eq) (simp add: limit_ok_def)
  then have level: "TOKEN \<le> shard_level l s c now" using full(1) by (simp add: shard_level_def)
  have "shard_room (shard_sweep s l now) c \<longleftrightarrow> IDLE \<le> now - swept s \<and> fmlen (fmfilter ?p (clients s)) < fmlen (clients s)"
    using full by (auto simp: shard_sweep_def CLIENTS_PER_SHARD_def)
  also have "\<dots> \<longleftrightarrow> IDLE \<le> now - swept s
      \<and> (\<exists>k b. fmlookup (clients s) k = Some b \<and> IDLE \<le> now - updated b \<and> refilled b l now = bucket_capacity l)"
    unfolding fmlen_filter_less cap by (auto simp: not_less split: option.splits)
  finally have room: "shard_room (shard_sweep s l now) c \<longleftrightarrow> IDLE \<le> now - swept s
      \<and> (\<exists>k b. fmlookup (clients s) k = Some b \<and> IDLE \<le> now - updated b \<and> refilled b l now = bucket_capacity l)" .
  show ?thesis unfolding shard_check_eq [OF ok t] Let_def room [symmetric] using level by simp
qed

text \<open>
  At capacity the limiter refuses new clients and keeps the old ones. A check whose client
  has no bucket afterwards was answered \<open>Wait IDLE\<close> by a full shard of 1024 clients, and no
  check, sweep included, removes a bucket that is not full.
\<close>

lemma limiter_full_table:
  assumes "shard_ok l t s" "t \<le> now" "instant_ok now" "shard_check s c l now = (r, s')"
  shows "(fmlookup (clients s') c = None \<longrightarrow> r = Wait IDLE \<and> fmlen (clients s') = 1024) \<and>
    (\<forall>k. fmlookup (clients s) k \<noteq> None \<and> shard_level l s k now < bucket_capacity l \<longrightarrow>
      fmlookup (clients s') k \<noteq> None)"
proof (intro conjI allI impI)
  assume "fmlookup (clients s') c = None"
  then show "r = Wait IDLE" "fmlen (clients s') = 1024"
    using assms(4) shard_okD(4) [OF shard_check_ok [OF assms]]
    by (auto simp: shard_check_eq [OF assms(1-3)] Let_def CLIENTS_PER_SHARD_def split: if_splits)
next
  fix k
  assume "fmlookup (clients s) k \<noteq> None \<and> shard_level l s k now < bucket_capacity l"
  then have "fmlookup (clients (shard_sweep s l now)) k \<noteq> None"
    by (auto simp: shard_level_def shard_sweep_def)
  then show "fmlookup (clients s') k \<noteq> None"
    using assms(4) by (auto simp: shard_check_eq [OF assms(1-3)] Let_def split: if_splits)
qed

text \<open>
  C38: the \<^verbatim>\<open>Retry-After\<close> a refusal carries. When a check answers \<open>Wait d\<close> and the client has a bucket, \<open>d\<close>
  is exact: positive, at most one second, and the client's next check is admitted if and only if it comes
  at least \<open>d\<close> nanoseconds later. When the client has no bucket, its shard is full of 1024 clients and \<open>d\<close> is
  60 seconds; its next check is admitted if and only if by then a minute has passed since the last sweep and
  some bucket of the shard has been idle for a minute and is full again, and is told 60 seconds otherwise.
\<close>

theorem limiter_retry_exact:
  assumes "limiter_ok l p t rl" "t \<le> now" "instant_ok now"
    and "limiter_check rl c now = (Wait d, rl')" "s = rl_shards rl' ! shard_index rl' (client_key c p)"
    and "now \<le> t'" "instant_ok t'"
  shows "if fmlookup (clients s) (client_key c p) \<noteq> None
     then (fst (limiter_check rl' c t') = Admitted \<longleftrightarrow> now + d \<le> t') \<and> 0 < d \<and> d \<le> TOKEN
     else d = 60 * TOKEN \<and> fmlen (clients s) = 1024
       \<and> fst (limiter_check rl' c t') =
           (if 60 * TOKEN \<le> t' - swept s
               \<and> (\<exists>k b. fmlookup (clients s) k = Some b \<and> 60 * TOKEN \<le> t' - updated b \<and> refilled b l t' = bucket_capacity l)
            then Admitted else Wait (60 * TOKEN))"
proof -
  let ?k = "client_key c p"
  let ?i = "shard_index rl ?k"
  obtain s' where s': "shard_check (rl_shards rl ! ?i) ?k l now = (Wait d, s')"
    and rl': "rl' = rl\<lparr>rl_shards := (rl_shards rl)[?i := s']\<rparr>"
    using assms(1,4) by (rule limiter_check_shard)
  note ok = limiter_okD(4) [OF assms(1), of ?k]
  have i: "?i < length (rl_shards rl)" using limiter_okD(3) [OF assms(1)] by simp
  have same: "shard_index rl' ?k = ?i" "rl_ipv6_prefix rl' = p" "rl_limit rl' = l"
    using limiter_okD(1,2) [OF assms(1)] by (simp_all add: shard_index_def rl')
  have s: "s = s'" using assms(5) i same by (simp add: rl')
  have next_check: "fst (limiter_check rl' c t') = fst (shard_check s ?k l t')"
    using i same by (simp add: limiter_check_def Let_def rl' s split: prod.splits)
  note idle = IDLE_def [folded TOKEN_def]
  show ?thesis
  proof (cases "fmlookup (clients s) ?k")
    case (Some b)
    then have tracked: "fmlookup (clients s') ?k \<noteq> None" by (simp add: s)
    have d: "d = div_ceil (TOKEN - shard_level l (rl_shards rl ! ?i) ?k now) (per_second l)"
      "shard_level l (rl_shards rl ! ?i) ?k now < TOKEN"
      using s' tracked by (auto simp: shard_check_eq [OF ok assms(2,3)] Let_def split: if_splits)
    have ps: "0 < per_second l" using shard_okD(1) [OF ok] by (simp add: limit_ok_def)
    have "TOKEN * 1 \<le> TOKEN * per_second l" using ps by (intro mult_le_mono2) simp
    then have "d \<le> TOKEN" unfolding d(1) div_ceil_le_iff [OF ps] by linarith
    moreover have "0 < d" using d ps by (simp add: div_ceil_pos)
    ultimately show ?thesis
      using Some shard_retry_exact [OF ok assms(2,3) s' tracked assms(6,7)] next_check by (simp add: s)
  next
    case None
    have full: "Wait d = Wait IDLE" "fmlen (clients s) = 1024"
      using limiter_full_table [OF ok assms(2,3) s'] None by (simp_all add: s)
    have "shard_ok l now s" unfolding s by (rule shard_check_ok [OF ok assms(2,3) s'])
    note retry = shard_full_retry [OF this assms(6,7) None full(2), unfolded idle, folded next_check]
    show ?thesis unfolding retry using None full by (simp add: idle)
  qed
qed

text \<open>The mask of \<^verbatim>\<open>client_key\<close> keeps exactly the prefix bits.\<close>

lemma checked_shl_mask:
  assumes "p \<le> 128"
  shows "(case checked_shl_u128 (- 1) (wrapping_sub 8 128 p) of Some m \<Rightarrow> m | None \<Rightarrow> 0)
    = NOT (mask (128 - p) :: 128 word)"
proof -
  have "wrapping_sub 8 128 p = 128 - p" using assms by (simp add: wrapping_sub_def mod_if)
  moreover have "push_bit 128 (- 1 :: 128 word) = 0" by (simp add: bit_eq_iff bit_simps)
  ultimately show ?thesis using assms by (cases "p = 0") (simp_all add: checked_shl_u128_def flip: push_bit_minus_one_eq_not_mask)
qed

lemma mask_eq_iff:
  fixes a b :: "128 word"
  shows "a AND NOT (mask n) = b AND NOT (mask n) \<longleftrightarrow> drop_bit n a = drop_bit n b"
proof
  assume "a AND NOT (mask n) = b AND NOT (mask n)"
  then have *: "bit (a AND NOT (mask n)) i = bit (b AND NOT (mask n)) i" for i by simp
  show "drop_bit n a = drop_bit n b"
  proof (rule bit_eqI)
    fix i
    show "bit (drop_bit n a) i = bit (drop_bit n b) i"
      using * [of "n + i"] bit_imp_le_length [of a "n + i"] bit_imp_le_length [of b "n + i"]
      by (auto simp: bit_simps)
  qed
next
  assume *: "drop_bit n a = drop_bit n b"
  show "a AND NOT (mask n) = b AND NOT (mask n)"
  proof (rule bit_eqI)
    fix i
    show "bit (a AND NOT (mask n)) i \<longleftrightarrow> bit (b AND NOT (mask n)) i"
      using arg_cong [OF *, of "\<lambda>w. bit w (i - n)"] by (auto simp: bit_simps)
  qed
qed

text \<open>
  Which clients share a bucket. Two IPv6 addresses that are not IPv4-mapped have the same
  key exactly when their first \<open>p\<close> bits agree; an IPv4 address, also in its IPv4-mapped IPv6
  form, has a key of its own for every prefix length.
\<close>

lemma client_key_shares_prefix:
  assumes "p \<le> 128" "drop_bit 32 a \<noteq> 0xFFFF" "drop_bit 32 b \<noteq> 0xFFFF"
  shows "(client_key (V6 a) p = client_key (V6 b) p \<longleftrightarrow> drop_bit (128 - p) a = drop_bit (128 - p) b) \<and>
    (client_key (V4 v) p = client_key (V4 w) p \<longleftrightarrow> v = w) \<and>
    client_key (V4 v) p \<noteq> client_key (V6 a) p \<and>
    client_key (V6 (push_bit 32 0xFFFF OR ucast v)) p = V4 v"
proof -
  define m where "m = push_bit 32 (0xFFFF :: 128 word)"
  have m: "bit m i \<Longrightarrow> 32 \<le> i" for i unfolding m_def by (simp only: bit_push_bit_iff)
  have dm: "drop_bit 32 m = 0xFFFF" by (simp add: m_def)
  have "drop_bit 32 (ucast v :: 128 word) = 0"
    by (auto simp: bit_eq_iff bit_simps dest: bit_imp_le_length)
  then have mapped: "drop_bit 32 (m OR ucast v) = 0xFFFF" by (simp add: drop_bit_or dm)
  have low: "ucast (m OR ucast v) = v"
    by (rule bit_eqI) (auto simp: bit_simps dest: m)
  have "client_key (V6 (push_bit 32 0xFFFF OR ucast v)) p = V4 v"
    using mapped low unfolding m_def [symmetric] by (simp add: client_key_def to_canonical_def)
  then show ?thesis
    using assms by (simp add: client_key_def to_canonical_def checked_shl_mask mask_eq_iff)
qed

section \<open>Witnesses\<close>

text \<open>The limiter of the unit tests: ten requests per second with a burst of two, one client
  that spends its burst, is refused and is admitted again a tenth of a second later.\<close>

definition demo_limit :: limit where
  "demo_limit = \<lparr>per_second = 10, burst = 2\<rparr>"

definition demo_limiter :: rate_limiter where
  "demo_limiter = \<lparr>rl_limit = demo_limit, rl_ipv6_prefix = 64, rl_hash = (\<lambda>_. 0),
     rl_shards = map (\<lambda>i. shard_new 0) [0..<SHARDS]\<rparr>"

definition demo_events :: "(ip_addr \<times> nat) list" where
  "demo_events = [(V4 1, 0), (V4 1, 0), (V4 1, 0), (V4 1, 100000000)]"

definition demo_drained :: rate_limiter where
  "demo_drained = snd (run_checks limiter_check demo_limiter (take 2 demo_events))"

lemmas limiter_eval = demo_limit_def demo_limiter_def demo_events_def shard_new_def with_prefix_def
  SHARDS_def IDLE_def TOKEN_def CLIENTS_PER_SHARD_def bucket_capacity_def rust_arith
  limiter_check_def Let_def client_key_def to_canonical_def shard_index_def shard_check_def
  shard_sweep_def refilled_def div_ceil_def upt_rec

lemma demo_with_prefix: "with_prefix demo_limit 64 (\<lambda>_. 0) (\<lambda>_. 0) = Some demo_limiter"
  by (simp add: demo_limiter_def with_prefix_def)

lemma demo_limit_ok: "limit_ok demo_limit"
  by (simp add: demo_limit_def limit_ok_def)

lemma demo_limiter_ok: "limiter_ok demo_limit 64 0 demo_limiter"
  using demo_with_prefix demo_limit_ok by (rule with_prefix_ok) (simp_all add: instant_ok_def)

lemma demo_ordered: "ordered_from 0 demo_events" "ordered_from 0 (take 2 demo_events)"
  by (simp_all add: demo_events_def instant_ok_def)

lemma demo_drained_ok: "limiter_ok demo_limit 64 0 demo_drained"
proof -
  have "limiter_ok demo_limit 64 (end_time 0 (take 2 demo_events)) demo_drained"
    unfolding demo_drained_def
    by (rule limiter.run_checks_ok [OF demo_limiter_ok demo_ordered(2) prod.collapse [symmetric]])
  then show ?thesis by (simp add: demo_events_def)
qed

theorem limiter_admissions_bounded_witness:
  "fst (run_checks limiter_check demo_limiter demo_events) = [Admitted, Admitted, Wait 100000000, Admitted] \<and>
   admissions (\<lambda>c. client_key c 64) (V4 1) demo_events [Admitted, Admitted, Wait 100000000, Admitted] * TOKEN
     \<le> burst demo_limit * TOKEN + (end_time 0 demo_events - 0) * per_second demo_limit"
proof -
  have run: "fst (run_checks limiter_check demo_limiter demo_events)
      = [Admitted, Admitted, Wait 100000000, Admitted]"
    by (simp add: limiter_eval)
  then show ?thesis
    using limiter_admissions_bounded [OF demo_limiter_ok demo_ordered(1) prod.collapse [symmetric], of "V4 1"]
    by simp
qed

theorem limiter_retry_exact_witness:
  "fst (limiter_check demo_drained (V4 1) 0) = Wait 100000000 \<and>
   fst (limiter_check (snd (limiter_check demo_drained (V4 1) 0)) (V4 1) 100000000) = Admitted"
proof -
  let ?rl = "snd (limiter_check demo_drained (V4 1) 0)"
  have w: "limiter_check demo_drained (V4 1) 0 = (Wait 100000000, ?rl)"
    by (rule prod_eqI) (simp_all add: demo_drained_def limiter_eval)
  have "fmlookup (clients (rl_shards ?rl ! shard_index ?rl (client_key (V4 1) 64))) (client_key (V4 1) 64) \<noteq> None"
    by (simp add: demo_drained_def limiter_eval)
  then have "fst (limiter_check ?rl (V4 1) 100000000) = Admitted"
    using limiter_retry_exact [OF demo_drained_ok _ _ w refl, of 100000000] by (simp add: instant_ok_def)
  then show ?thesis using w by (simp add: prod_eq_iff)
qed

end
