(* ===== verification/Geatafile.thy ===== *)
theory Geatafile
  imports Rust_Text Rate_Limit
begin

text \<open>
  The leaf parsers of \<^verbatim>\<open>config.rs\<close>: the tokenizer of the Geatafile, the \<^verbatim>\<open>respond\<close> arguments,
  site domains, backend addresses and the domain of a request. The characters of a text are the
  byte groups of its UTF-8 encoding. IP addresses are parsed the way \<^verbatim>\<open>IpAddr::from_str\<close> of the
  standard library does it.

  Three parsers come from other crates and are parameters here: the JSON string decoder
  (\<open>from_str\<close>, \<^verbatim>\<open>serde_json::from_str::<String>\<close>), the URL parser (\<open>url_parse\<close>, whose result is
  the record \<open>url\<close> of the accessors the sources call) and the authority parser of the \<^verbatim>\<open>http\<close>
  crate (\<open>authority_parse\<close>, which gives the text and the host of an authority).
\<close>

section \<open>Characters\<close>

definition is_continuation :: "char \<Rightarrow> bool" where
  "is_continuation c \<longleftrightarrow> 128 \<le> (of_char c :: nat) \<and> (of_char c :: nat) < 192"

function chars :: "string \<Rightarrow> string list" where
  "chars [] = []"
| "chars (c # cs) = (c # takeWhile is_continuation cs) # chars (dropWhile is_continuation cs)"
  by pat_completeness auto
termination
  by (relation "measure length") (auto simp: le_imp_less_Suc length_dropWhile_le)

lemma concat_chars [simp]: "concat (chars s) = s"
  by (induction s rule: chars.induct) auto

text \<open>\<^verbatim>\<open>char::is_whitespace\<close>: the code points with the property \<^verbatim>\<open>White_Space\<close>, as UTF-8.\<close>

definition whitespace_chars :: "string list" where
  "whitespace_chars =
     [[CHR 0x09], [CHR 0x0A], [CHR 0x0B], [CHR 0x0C], [CHR 0x0D], [CHR 0x20], [CHR 0xC2, CHR 0x85],
      [CHR 0xC2, CHR 0xA0], [CHR 0xE1, CHR 0x9A, CHR 0x80], [CHR 0xE2, CHR 0x80, CHR 0x80],
      [CHR 0xE2, CHR 0x80, CHR 0x81], [CHR 0xE2, CHR 0x80, CHR 0x82],
      [CHR 0xE2, CHR 0x80, CHR 0x83], [CHR 0xE2, CHR 0x80, CHR 0x84],
      [CHR 0xE2, CHR 0x80, CHR 0x85], [CHR 0xE2, CHR 0x80, CHR 0x86],
      [CHR 0xE2, CHR 0x80, CHR 0x87], [CHR 0xE2, CHR 0x80, CHR 0x88],
      [CHR 0xE2, CHR 0x80, CHR 0x89], [CHR 0xE2, CHR 0x80, CHR 0x8A],
      [CHR 0xE2, CHR 0x80, CHR 0xA8], [CHR 0xE2, CHR 0x80, CHR 0xA9],
      [CHR 0xE2, CHR 0x80, CHR 0xAF], [CHR 0xE2, CHR 0x81, CHR 0x9F],
      [CHR 0xE3, CHR 0x80, CHR 0x80]]"

definition is_whitespace :: "string \<Rightarrow> bool" where
  "is_whitespace c \<longleftrightarrow> c \<in> set whitespace_chars"

definition newline :: string where "newline = [CHR 0x0A]"
definition quote :: string where "quote = [CHR 0x22]"
definition backslash :: string where "backslash = [CHR 0x5C]"

section \<open>The tokenizer\<close>

datatype config_message =
    Too_large | Expected_block | Expected_receiver_block | Bad_receiver_name | Expected_open
  | Expected_close | Bad_receiver | Duplicate_receiver | Bad_site_address | Bad_payout
  | Duplicate_payout_mint | Too_many_payouts | Bad_lightning_origin | Duplicate_site | No_site
  | Unterminated_string | Invalid_string | Missing_space | Misplaced_quote | Bad_respond | Bad_status
  | Body_not_allowed | Bad_backend_url | Bad_backend | No_backend_host | No_backend_port
  | Zero_backend_port | Duplicate_directive string | Bad_arguments string | Bad_payment
  | Bad_protocols | Unknown_receiver | Missing_lightning_headers | Bad_lightning_policy
  | Stray_lightning | Unknown_directive | Missing_handler

record config_error =
  err_line :: nat
  err_message :: config_message

datatype token_kind = Text string | Open | Close

record token =
  tok_line :: nat
  tok_kind :: token_kind
  tok_quoted :: bool

definition tok_text :: "token \<Rightarrow> string option" where
  "tok_text t = (case tok_kind t of Text s \<Rightarrow> Some s | _ \<Rightarrow> None)"

definition token_end :: "string \<Rightarrow> bool" where
  "token_end c \<longleftrightarrow> is_whitespace c \<or> c \<in> {''{'', ''}'', ''#''}"

fun skip_comment :: "nat \<Rightarrow> string list \<Rightarrow> nat \<times> string list" where
  "skip_comment line [] = (line, [])"
| "skip_comment line (c # cs) = (if c = newline then (line + 1, cs) else skip_comment line cs)"

text \<open>The scan of a quoted string behind its opening quote: the literal up to and with the closing
  quote, the line reached, and the rest.\<close>

fun scan_quoted :: "bool \<Rightarrow> nat \<Rightarrow> string list \<Rightarrow> (string \<times> nat \<times> string list) option" where
  "scan_quoted escaped line [] = None"
| "scan_quoted escaped line (c # cs) =
     (let line' = (if c = newline then line + 1 else line)
      in if \<not> escaped \<and> c = quote then Some (c, line', cs)
         else map_option (\<lambda>(s, l, r). (c @ s, l, r)) (scan_quoted (\<not> escaped \<and> c = backslash) line' cs))"

fun scan_word :: "string list \<Rightarrow> (string \<times> string list) option" where
  "scan_word [] = Some ([], [])"
| "scan_word (c # cs) =
     (if token_end c then Some ([], c # cs)
      else if c = quote then None
      else map_option (\<lambda>(s, r). (c @ s, r)) (scan_word cs))"

lemma skip_comment_shorter: "(l, r) = skip_comment line cs \<Longrightarrow> length r \<le> length cs"
  by (induction line cs rule: skip_comment.induct) (auto split: if_splits)

lemma scan_quoted_shorter: "scan_quoted e line cs = Some (s, l, r) \<Longrightarrow> length r < length cs"
  by (induction e line cs arbitrary: s l r rule: scan_quoted.induct)
    (fastforce simp: Let_def split: if_splits)+

lemma scan_word_shorter: "scan_word cs = Some (s, r) \<Longrightarrow> length r \<le> length cs"
  by (induction cs arbitrary: s r rule: scan_word.induct) (fastforce split: if_splits)+

definition push_token :: "nat \<Rightarrow> token_kind \<Rightarrow> bool \<Rightarrow> config_error + token list \<Rightarrow> config_error + token list" where
  "push_token line kind quoted r =
     map_sum id (\<lambda>ts. \<lparr>tok_line = line, tok_kind = kind, tok_quoted = quoted\<rparr> # ts) r"

definition config_fail :: "nat \<Rightarrow> config_message \<Rightarrow> config_error + 'a" where
  "config_fail line message = Inl \<lparr>err_line = line, err_message = message\<rparr>"

function tokenize_from :: "(string \<Rightarrow> string option) \<Rightarrow> nat \<Rightarrow> string list \<Rightarrow> config_error + token list" where
  "tokenize_from from_str line [] = Inr []"
| "tokenize_from from_str line (c # cs) =
     (if is_whitespace c then tokenize_from from_str (if c = newline then line + 1 else line) cs
      else if c = ''#'' then (case skip_comment line cs of (line', rest) \<Rightarrow> tokenize_from from_str line' rest)
      else if c = ''{'' then push_token line Open False (tokenize_from from_str line cs)
      else if c = ''}'' then push_token line Close False (tokenize_from from_str line cs)
      else if c = quote then
        (case scan_quoted False line cs of
           None \<Rightarrow> config_fail line Unterminated_string
         | Some (literal, line', rest) \<Rightarrow>
             (case from_str (quote @ literal) of
                None \<Rightarrow> config_fail line Invalid_string
              | Some value \<Rightarrow>
                  if rest \<noteq> [] \<and> \<not> token_end (hd rest) then config_fail line' Missing_space
                  else push_token line (Text value) True (tokenize_from from_str line' rest)))
      else
        (case scan_word cs of
           None \<Rightarrow> config_fail line Misplaced_quote
         | Some (word, rest) \<Rightarrow> push_token line (Text (c @ word)) False (tokenize_from from_str line rest)))"
  by pat_completeness auto
termination
  by (relation "measure (\<lambda>(_, _, cs). length cs)")
    (auto simp: le_imp_less_Suc split: prod.splits
      dest: skip_comment_shorter skip_comment_shorter [OF sym] scan_quoted_shorter scan_word_shorter)

definition tokenize :: "(string \<Rightarrow> string option) \<Rightarrow> string \<Rightarrow> config_error + token list" where
  "tokenize from_str input = tokenize_from from_str 1 (chars input)"

section \<open>IP addresses\<close>

definition to_digit :: "nat \<Rightarrow> char \<Rightarrow> nat option" where
  "to_digit radix c = filter_option (\<lambda>d. d < radix) (hex_val c)"

definition read_number :: "nat \<Rightarrow> nat \<Rightarrow> nat \<Rightarrow> bool \<Rightarrow> string \<Rightarrow> (nat \<times> string) option" where
  "read_number radix w max_digits allow_zero_prefix s =
     (let ds = takeWhile (\<lambda>c. to_digit radix c \<noteq> None) s;
          n = foldl (\<lambda>a c. radix * a + the (to_digit radix c)) 0 ds
      in if ds = [] \<or> max_digits < length ds \<or> 2 ^ w \<le> n
            \<or> (\<not> allow_zero_prefix \<and> hd ds = CHR ''0'' \<and> 1 < length ds) then None
         else Some (n, drop (length ds) s))"

definition read_separator :: "char \<Rightarrow> nat \<Rightarrow> (string \<Rightarrow> 'a option) \<Rightarrow> string \<Rightarrow> 'a option" where
  "read_separator sep i p s =
     (if 0 < i then (case s of c # cs \<Rightarrow> if c = sep then p cs else None | [] \<Rightarrow> None) else p s)"

fun read_octets :: "nat \<Rightarrow> nat \<Rightarrow> string \<Rightarrow> (nat list \<times> string) option" where
  "read_octets 0 i s = Some ([], s)"
| "read_octets (Suc k) i s =
     (case read_separator CHR ''.'' i (read_number 10 8 3 False) s of
        None \<Rightarrow> None
      | Some (b, r) \<Rightarrow> map_option (\<lambda>(bs, r'). (b # bs, r')) (read_octets k (i + 1) r))"

definition pair_groups :: "nat list \<Rightarrow> nat list" where
  "pair_groups bs = [256 * bs ! 0 + bs ! 1, 256 * bs ! 2 + bs ! 3]"

fun read_groups :: "nat \<Rightarrow> nat \<Rightarrow> string \<Rightarrow> nat list \<times> bool \<times> string" where
  "read_groups 0 i s = ([], False, s)"
| "read_groups (Suc k) i s =
     (case (if 0 < k then read_separator CHR '':'' i (read_octets 4 0) s else None) of
        Some (bs, r) \<Rightarrow> (pair_groups bs, True, r)
      | None \<Rightarrow>
          (case read_separator CHR '':'' i (read_number 16 16 4 True) s of
             None \<Rightarrow> ([], False, s)
           | Some (g, r) \<Rightarrow> (case read_groups k (i + 1) r of (gs, v4, r') \<Rightarrow> (g # gs, v4, r'))))"

definition read_ipv6_addr :: "string \<Rightarrow> (nat list \<times> string) option" where
  "read_ipv6_addr s =
     (case read_groups 8 0 s of (head, v4, r) \<Rightarrow>
        if length head = 8 then Some (head, r)
        else if v4 then None
        else (case r of
                a # b # r' \<Rightarrow>
                  if a = CHR '':'' \<and> b = CHR '':'' then
                    (case read_groups (8 - (length head + 1)) 0 r' of (tail, _, r'') \<Rightarrow>
                       Some (head @ replicate (8 - length head - length tail) 0 @ tail, r''))
                  else None
              | _ \<Rightarrow> None))"

definition parse_ip_addr :: "string \<Rightarrow> ip_addr option" where
  "parse_ip_addr s =
     (case read_octets 4 0 s of
        Some (bs, r) \<Rightarrow> if r = [] then Some (V4 (foldl (\<lambda>a b. 256 * a + of_nat b) 0 bs)) else None
      | None \<Rightarrow>
          (case read_ipv6_addr s of
             Some (gs, r) \<Rightarrow> if r = [] then Some (V6 (foldl (\<lambda>a g. 65536 * a + of_nat g) 0 gs)) else None
           | None \<Rightarrow> None))"

section \<open>Responses, domains and backends\<close>

record upstream =
  up_host :: string
  up_port :: nat
  up_tls :: bool
  up_authority :: string

datatype handler = Proxy upstream | Respond string nat

definition parse_response :: "token list \<Rightarrow> nat \<Rightarrow> config_error + handler" where
  "parse_response args line =
     (if args = [] \<or> 2 < length args then config_fail line Bad_respond
      else
        let first = (case tok_text (args ! 0) of Some t \<Rightarrow> t | None \<Rightarrow> []);
            status_only = length args = 1 \<and> \<not> tok_quoted (args ! 0) \<and> length first = 3
              \<and> list_all is_ascii_digit first;
            (body, code) = (if status_only then ([], Some first)
              else (first, if 1 < length args then tok_text (args ! 1) else None))
        in bind_result
             (case code of
                Some text \<Rightarrow>
                  (case filter_option (\<lambda>n. length text = 3 \<and> 200 \<le> n \<and> n \<le> 599) (parse_uint 16 text) of
                     Some n \<Rightarrow> Inr n
                   | None \<Rightarrow> config_fail line Bad_status)
              | None \<Rightarrow> Inr 200)
             (\<lambda>status. if status \<in> {204, 205, 304} \<and> body \<noteq> [] then config_fail line Body_not_allowed
                       else Inr (Respond body status)))"

definition valid_label :: "string \<Rightarrow> bool" where
  "valid_label label \<longleftrightarrow>
     label \<noteq> [] \<and> length label \<le> 63 \<and> hd label \<noteq> CHR ''-'' \<and> last label \<noteq> CHR ''-''
     \<and> list_all (\<lambda>c. is_ascii_alphanumeric c \<or> c = CHR ''-'') label"

definition valid_domain :: "string \<Rightarrow> bool \<Rightarrow> bool" where
  "valid_domain domain https =
     (if parse_ip_addr domain \<noteq> None then \<not> https
      else if 253 < length domain \<or> domain = [] then False
      else if https \<and> (CHR ''.'' \<notin> set domain
             \<or> list_ex (\<lambda>s. suffix s domain) [''.localhost'', ''.local'', ''.internal'', ''.home.arpa'']) then False
      else list_all valid_label (split_on CHR ''.'' domain))"

record url =
  url_scheme :: string
  url_username :: string
  url_password :: "string option"
  url_host :: "string option"
  url_port :: "nat option"
  url_port_or_default :: "nat option"
  url_path :: string
  url_query :: "string option"
  url_fragment :: "string option"
  url_text :: string
  url_origin :: string

definition parse_upstream :: "(string \<Rightarrow> url option) \<Rightarrow> string \<Rightarrow> config_message + upstream" where
  "parse_upstream url_parse value =
     (case url_parse (if contains_str ''://'' value then value else ''http://'' @ value) of
        None \<Rightarrow> Inl Bad_backend_url
      | Some u \<Rightarrow>
          if url_scheme u \<notin> {''http'', ''https''} \<or> url_username u \<noteq> [] \<or> url_password u \<noteq> None
             \<or> url_path u \<noteq> ''/'' \<or> url_query u \<noteq> None \<or> url_fragment u \<noteq> None then Inl Bad_backend
          else bind_result (ok_or No_backend_host (url_host u))
            (\<lambda>host. bind_result (ok_or No_backend_port (url_port_or_default u))
              (\<lambda>port. if port = 0 then Inl Zero_backend_port
                 else Inr \<lparr>up_host = trim_matches {CHR ''['', CHR '']''} host, up_port = port,
                   up_tls = (url_scheme u = ''https''),
                   up_authority = (case url_port u of Some p \<Rightarrow> host @ '':'' @ show_nat p | None \<Rightarrow> host)\<rparr>)))"

definition request_domain :: "(string \<Rightarrow> (string \<times> string) option) \<Rightarrow> string \<Rightarrow> string option" where
  "request_domain authority_parse authority =
     (case authority_parse authority of
        None \<Rightarrow> None
      | Some (text, host) \<Rightarrow>
          if CHR ''@'' \<in> set text then None
          else Some (to_ascii_lowercase (trim_end_matches {CHR ''.''} (trim_matches {CHR ''['', CHR '']''} host))))"

section \<open>Lemmas on texts and tokens\<close>

lemma chars_nonempty: "c \<in> set (chars s) \<Longrightarrow> c \<noteq> []"
  by (induction s rule: chars.induct) auto

lemma chars_append:
  assumes "t = [] \<or> \<not> is_continuation (hd t)"
  shows "chars (s @ t) = chars s @ chars t"
proof (induction s rule: chars.induct)
  case (2 c cs)
  have *: "takeWhile is_continuation (cs @ t) = takeWhile is_continuation cs"
    "dropWhile is_continuation (cs @ t) = dropWhile is_continuation cs @ t" for cs
    using assms by (induction cs) (auto simp: takeWhile_eq_Nil_iff dropWhile_eq_self_iff)
  show ?case using 2 by (simp add: *)
qed simp

definition plain_word :: "string \<Rightarrow> bool" where
  "plain_word w \<longleftrightarrow> w \<noteq> [] \<and> \<not> is_continuation (hd w) \<and> (\<forall>c\<in>set (chars w). \<not> token_end c \<and> c \<noteq> quote)"

lemma scan_word_plain: "scan_word cs = Some (s, r) \<Longrightarrow> \<exists>ps. cs = ps @ r \<and> s = concat ps \<and> (\<forall>c\<in>set ps. \<not> token_end c \<and> c \<noteq> quote)"
proof (induction cs arbitrary: s r rule: scan_word.induct)
  case (2 c cs)
  show ?case
  proof (cases "token_end c")
    case True
    then show ?thesis using 2(2) by (auto intro: exI [of _ "[]"])
  next
    case False
    then obtain s' where s': "scan_word cs = Some (s', r)" "s = c @ s'" "c \<noteq> quote"
      using 2(2) by (auto split: if_splits)
    then obtain ps where "cs = ps @ r" "s' = concat ps" "\<forall>c\<in>set ps. \<not> token_end c \<and> c \<noteq> quote"
      using 2(1) [OF False] by blast
    then show ?thesis using False s' by (intro exI [of _ "c # ps"]) auto
  qed
qed simp

lemma scan_word_stop:
  assumes "\<forall>c\<in>set ps. \<not> token_end c \<and> c \<noteq> quote" and "r = [] \<or> token_end (hd r)"
  shows "scan_word (ps @ r) = Some (concat ps, r)"
  using assms by (induction ps) (auto split: list.splits, (cases r; simp)+)

lemma push_token_eq_Inr:
  "push_token line kind q r = Inr ts \<longleftrightarrow>
     (\<exists>ts'. r = Inr ts' \<and> ts = \<lparr>tok_line = line, tok_kind = kind, tok_quoted = q\<rparr> # ts')"
  by (cases r) (auto simp: push_token_def)

lemma config_fail_Inr [simp]: "config_fail l m \<noteq> Inr x"
  by (simp add: config_fail_def)

lemma special_not_whitespace [simp]:
  "\<not> is_whitespace ''#''" "\<not> is_whitespace ''{''" "\<not> is_whitespace ''}''" "\<not> is_whitespace quote"
  "quote \<noteq> ''#''" "quote \<noteq> ''{''" "quote \<noteq> ''}''" "is_whitespace newline" "\<not> token_end quote"
  by (simp_all add: is_whitespace_def whitespace_chars_def quote_def newline_def token_end_def)

definition char_ok :: "string \<Rightarrow> bool" where
  "char_ok c \<longleftrightarrow> c \<noteq> [] \<and> \<not> is_continuation (hd c) \<and> list_all is_continuation (tl c)"

lemma chars_char_ok: "s = [] \<or> \<not> is_continuation (hd s) \<Longrightarrow> list_all char_ok (chars s)"
proof (induction s rule: chars.induct)
  case (2 c cs)
  have "dropWhile is_continuation cs = [] \<or> \<not> is_continuation (hd (dropWhile is_continuation cs))"
    using hd_dropWhile [of is_continuation cs] by blast
  then show ?case using 2 by (auto simp: char_ok_def list_all_iff dest: set_takeWhileD)
qed simp

lemma chars_concat: "list_all char_ok cs \<Longrightarrow> chars (concat cs) = cs"
proof (induction cs)
  case (Cons c cs)
  obtain a as where c: "c = a # as" "\<not> is_continuation a" "list_all is_continuation as"
    using Cons(2) by (cases c) (auto simp: char_ok_def)
  have start: "concat cs = [] \<or> \<not> is_continuation (hd (concat cs))"
    using Cons(2) by (cases cs) (auto simp: char_ok_def)
  have w: "takeWhile is_continuation as = as" "dropWhile is_continuation as = []"
    using c(3) by (simp_all add: list_all_iff)
  have "chars c = [c]" unfolding c(1) chars.simps w by simp
  then show ?case using Cons chars_append [OF start, of c] by simp
qed simp

lemma plain_word_concat:
  assumes "list_all char_ok ps" "ps \<noteq> []" "\<forall>c\<in>set ps. \<not> token_end c \<and> c \<noteq> quote"
  shows "plain_word (concat ps)"
  using assms chars_concat [OF assms(1)] by (cases ps) (auto simp: plain_word_def char_ok_def)

definition token_ok :: "(string \<Rightarrow> string option) \<Rightarrow> token \<Rightarrow> bool" where
  "token_ok from_str t \<longleftrightarrow>
     (if tok_quoted t then \<exists>literal value. from_str literal = Some value \<and> tok_kind t = Text value
      else \<forall>w. tok_kind t = Text w \<longrightarrow> plain_word w)"

lemma skip_comment_suffix: "skip_comment line cs = (l, r) \<Longrightarrow> line \<le> l \<and> suffix r cs"
  by (induction line cs rule: skip_comment.induct) (auto split: if_splits simp: suffix_Cons)

lemma scan_quoted_suffix: "scan_quoted e line cs = Some (s, l, r) \<Longrightarrow> line \<le> l \<and> suffix r cs"
proof (induction e line cs arbitrary: s l r rule: scan_quoted.induct)
  case (2 e line c cs)
  then show ?case by (fastforce simp: Let_def suffix_Cons split: if_splits)
qed simp

lemma suffix_list_all: "suffix r cs \<Longrightarrow> list_all P cs \<Longrightarrow> list_all P r"
  by (auto simp: suffix_def)

lemma tokenize_from_ok:
  "tokenize_from js line cs = Inr ts \<Longrightarrow> list_all char_ok cs \<Longrightarrow>
     list_all (token_ok js) ts \<and> sorted (map tok_line ts) \<and> (\<forall>t\<in>set ts. line \<le> tok_line t)"
proof (induction js line cs arbitrary: ts rule: tokenize_from.induct)
  case (2 js line c cs)
  note pre = "2.prems"(1)[simplified] "2.prems"(2)
  have cs: "list_all char_ok cs" "char_ok c" using pre(2) by simp_all
  consider (ws) "is_whitespace c" | (comment) "\<not> is_whitespace c" "c = ''#''"
    | (op) "c = ''{''" | (cl) "c = ''}''" | (q) "c = quote"
    | (word) "\<not> is_whitespace c" "c \<noteq> ''#''" "c \<noteq> ''{''" "c \<noteq> ''}''" "c \<noteq> quote"
    by blast
  then show ?case
  proof cases
    case ws
    then show ?thesis using "2.IH"(1) [OF ws _ cs(1)] pre(1) by (fastforce split: if_splits)
  next
    case comment
    obtain l r where sc: "skip_comment line cs = (l, r)" by fastforce
    have "tokenize_from js l r = Inr ts" using pre(1) comment sc by simp
    then show ?thesis
      using "2.IH"(2) [OF comment sc [symmetric]] skip_comment_suffix [OF sc] cs(1) suffix_list_all sc
      by fastforce
  next
    case op
    then obtain ts' where "tokenize_from js line cs = Inr ts'"
      "ts = \<lparr>tok_line = line, tok_kind = Open, tok_quoted = False\<rparr> # ts'"
      using pre(1) by (auto simp: push_token_eq_Inr)
    then show ?thesis using "2.IH"(3) op cs(1) by (auto simp: token_ok_def)
  next
    case cl
    then obtain ts' where "tokenize_from js line cs = Inr ts'"
      "ts = \<lparr>tok_line = line, tok_kind = Close, tok_quoted = False\<rparr> # ts'"
      using pre(1) by (auto simp: push_token_eq_Inr)
    then show ?thesis using "2.IH"(4) cl cs(1) by (auto simp: token_ok_def)
  next
    case q
    then obtain lit l r v ts' where s: "scan_quoted False line cs = Some (lit, l, r)" "js (quote @ lit) = Some v"
      "r = [] \<or> token_end (hd r)" "tokenize_from js l r = Inr ts'"
      "ts = \<lparr>tok_line = line, tok_kind = Text v, tok_quoted = True\<rparr> # ts'"
      using pre(1) by (auto simp: push_token_eq_Inr split: option.splits if_splits)
    have "list_all (token_ok js) ts' \<and> sorted (map tok_line ts') \<and> (\<forall>t\<in>set ts'. l \<le> tok_line t)"
      using "2.IH"(5) [OF _ _ _ _ _ s(1) refl refl s(2) _ s(4)] q s(3) scan_quoted_suffix [OF s(1)] cs(1)
      by (auto intro: suffix_list_all)
    moreover have "token_ok js \<lparr>tok_line = line, tok_kind = Text v, tok_quoted = True\<rparr>"
      using s(2) by (auto simp: token_ok_def)
    ultimately show ?thesis
      unfolding s(5) using scan_quoted_suffix [OF s(1)] by (auto dest: bspec intro: order_trans)
  next
    case word
    then obtain w r ts' where s: "scan_word cs = Some (w, r)" "tokenize_from js line r = Inr ts'"
      "ts = \<lparr>tok_line = line, tok_kind = Text (c @ w), tok_quoted = False\<rparr> # ts'"
      using pre(1) by (auto simp: push_token_eq_Inr split: option.splits)
    obtain ps where ps: "cs = ps @ r" "w = concat ps" "\<forall>c\<in>set ps. \<not> token_end c \<and> c \<noteq> quote"
      using scan_word_plain [OF s(1)] by blast
    have "plain_word (concat (c # ps))"
      by (rule plain_word_concat) (use word ps cs in \<open>auto simp: token_end_def\<close>)
    then show ?thesis
      using "2.IH"(6) [OF word s(1) refl s(2)] ps cs(1) s(3) by (auto simp: token_ok_def)
  qed
qed simp

section \<open>The tokenizer's theorems\<close>

text \<open>What the tokenizer accepts, it cuts into well-formed tokens. An unquoted argument is not
  empty and has no white space, brace, comment sign or quote in it; a quoted argument is the value
  the JSON decoder gave for a literal of the input; the line numbers the error messages use start
  at 1 and never go back.\<close>

lemma tokenize_sound:
  assumes "input = [] \<or> \<not> is_continuation (hd input)" and "tokenize from_str input = Inr ts"
  shows "(\<forall>t\<in>set ts. 1 \<le> tok_line t \<and>
            (if tok_quoted t then \<exists>literal value. from_str literal = Some value \<and> tok_kind t = Text value
             else \<forall>w. tok_kind t = Text w \<longrightarrow>
               w \<noteq> [] \<and> (\<forall>c\<in>set (chars w). \<not> is_whitespace c \<and> c \<notin> {''{'', ''}'', ''#'', quote})))
         \<and> sorted (map tok_line ts)"
proof -
  have "list_all (token_ok from_str) ts \<and> sorted (map tok_line ts) \<and> (\<forall>t\<in>set ts. 1 \<le> tok_line t)"
    using tokenize_from_ok [of from_str 1 "chars input" ts] assms chars_char_ok by (simp add: tokenize_def)
  then have ok: "\<And>t. t \<in> set ts \<Longrightarrow> token_ok from_str t \<and> 1 \<le> tok_line t" "sorted (map tok_line ts)"
    by (auto simp: list_all_iff)
  have plain: "w \<noteq> [] \<and> (\<forall>c\<in>set (chars w). \<not> is_whitespace c \<and> c \<notin> {''{'', ''}'', ''#'', quote})"
    if "plain_word w" for w
    using that unfolding plain_word_def token_end_def by blast
  show ?thesis
  proof (intro conjI ballI)
    fix t assume t: "t \<in> set ts"
    show "1 \<le> tok_line t" using ok(1) [OF t] by blast
    show "if tok_quoted t then \<exists>literal value. from_str literal = Some value \<and> tok_kind t = Text value
       else \<forall>w. tok_kind t = Text w \<longrightarrow>
         w \<noteq> [] \<and> (\<forall>c\<in>set (chars w). \<not> is_whitespace c \<and> c \<notin> {''{'', ''}'', ''#'', quote})"
      using ok(1) [OF t] plain unfolding token_ok_def by meson
  qed (rule ok(2))
qed

text \<open>A plain rendering of token kinds, one to a line.\<close>

fun render_kind :: "token_kind \<Rightarrow> string" where
  "render_kind (Text w) = w"
| "render_kind Open = ''{''"
| "render_kind Close = ''}''"

fun number_tokens :: "nat \<Rightarrow> token_kind list \<Rightarrow> token list" where
  "number_tokens line [] = []"
| "number_tokens line (k # ks) = \<lparr>tok_line = line, tok_kind = k, tok_quoted = False\<rparr> # number_tokens (line + 1) ks"

lemma newline_char_ok: "char_ok newline" "token_end newline" "newline \<noteq> quote" "newline \<noteq> ''#''"
  by (simp_all add: char_ok_def newline_def token_end_def is_continuation_def is_whitespace_def
      whitespace_chars_def quote_def)

lemma brace_chars: "chars ''{'' = [''{'']" "chars ''}'' = [''}'']"
  by simp_all

lemma tokenize_kind:
  assumes "\<forall>w. k = Text w \<longrightarrow> plain_word w"
  shows "tokenize_from js line (chars (render_kind k) @ newline # cs) =
     push_token line k False (tokenize_from js (line + 1) cs)"
proof (cases k)
  case (Text w)
  then have w: "plain_word w" using assms by simp
  then obtain c ps where ps: "chars w = c # ps" by (cases w) (auto simp: plain_word_def)
  then have "c @ concat ps = w" using concat_chars [of w] by simp
  moreover have "scan_word (ps @ newline # cs) = Some (concat ps, newline # cs)"
    by (rule scan_word_stop) (use w ps newline_char_ok in \<open>auto simp: plain_word_def\<close>)
  moreover have "\<not> token_end c" "c \<noteq> quote" using w ps by (auto simp: plain_word_def)
  ultimately show ?thesis using Text ps by (simp add: token_end_def)
qed (simp_all add: brace_chars)

lemma chars_newline: "chars (s @ newline @ t) = chars s @ newline # chars t"
  if "t = [] \<or> \<not> is_continuation (hd t)"
proof -
  have n: "\<not> is_continuation (hd (newline @ t))" "newline = [CHR 0x0A]" by (simp_all add: newline_def is_continuation_def)
  have "chars (newline @ t) = newline # chars t"
    using chars_append [OF that, of newline] by (simp add: newline_def)
  then show ?thesis using chars_append [of "newline @ t" s] n(1) by simp
qed

lemma render_start: "\<forall>w. k = Text w \<longrightarrow> plain_word w \<Longrightarrow> render_kind k \<noteq> [] \<and> \<not> is_continuation (hd (render_kind k))"
  by (cases k) (auto simp: plain_word_def is_continuation_def)

text \<open>C39: The tokenizer reads back what is written with one token to a line: every word and every
  brace becomes the token it stands for, with its line.\<close>

theorem tokenize_roundtrip:
  assumes "\<forall>w. Text w \<in> set ks \<longrightarrow>
      w \<noteq> [] \<and> \<not> is_continuation (hd w) \<and> (\<forall>c\<in>set (chars w). \<not> token_end c \<and> c \<noteq> quote)"
  shows "tokenize from_str (concat (map (\<lambda>k. render_kind k @ newline) ks)) = Inr (number_tokens 1 ks)"
proof -
  let ?r = "\<lambda>ks. concat (map (\<lambda>k. render_kind k @ newline) ks)"
  have "(?r ks = [] \<or> \<not> is_continuation (hd (?r ks))) \<and>
      tokenize_from from_str line (chars (?r ks)) = Inr (number_tokens line ks)" for line
    using assms
  proof (induction ks arbitrary: line)
    case (Cons k ks)
    have k: "\<forall>w. k = Text w \<longrightarrow> plain_word w" using Cons(2) by (auto simp: plain_word_def)
    have IH: "?r ks = [] \<or> \<not> is_continuation (hd (?r ks))"
      "tokenize_from from_str (line + 1) (chars (?r ks)) = Inr (number_tokens (line + 1) ks)"
      using Cons by auto
    have "chars (?r (k # ks)) = chars (render_kind k) @ newline # chars (?r ks)"
      using chars_newline [OF IH(1)] by simp
    then show ?case
      using tokenize_kind [OF k] IH(2) render_start [OF k] by (simp add: push_token_def)
  qed simp
  then show ?thesis by (simp add: tokenize_def)
qed

section \<open>The leaf parsers' theorems\<close>

text \<open>A \<^verbatim>\<open>respond\<close> directive that is accepted answers with a final status, and with no body where
  HTTP allows none; one that is refused names the line of its directive.\<close>

lemma parse_response_sound:
  "(\<exists>body status. parse_response args line = Inr (Respond body status) \<and> 200 \<le> status \<and> status \<le> 599
      \<and> (status \<in> {204, 205, 304} \<longrightarrow> body = []))
   \<or> (\<exists>m. parse_response args line = Inl \<lparr>err_line = line, err_message = m\<rparr>)"
proof (cases "parse_response args line")
  case (Inl e)
  then have "err_line e = line"
    by (auto simp: parse_response_def config_fail_def bind_result_def Let_def split: if_splits sum.splits option.splits prod.splits)
  then show ?thesis using Inl by (cases e) auto
next
  case (Inr h)
  then show ?thesis
    by (auto simp: parse_response_def config_fail_def Let_def filter_option_eq_Some
        split: if_splits sum.splits option.splits prod.splits)
qed

lemma split_on_cover: "c \<in> set s \<Longrightarrow> c \<noteq> d \<Longrightarrow> \<exists>p\<in>set (split_on d s). c \<in> set p"
  by (induction s) (fastforce split: list.splits)+

lemma split_on_nonempty [simp]: "split_on d s \<noteq> []"
  by (induction s) (auto split: list.splits)

lemma valid_domain_labels:
  assumes "valid_domain domain https" "parse_ip_addr domain = None"
  shows "list_all valid_label (split_on CHR ''.'' domain) \<and> domain \<noteq> [] \<and> length domain \<le> 253"
  using assms by (auto simp: valid_domain_def split: if_splits)

text \<open>The domain of an HTTPS site is safe as a certificate identifier and as a directory name of the
  certificate store: it is no IP address, has a dot, is at most 253 bytes long, is made of letters,
  digits, hyphens and dots only (so it has no path separator), its labels are not empty (so it is
  neither \<^verbatim>\<open>.\<close> nor \<^verbatim>\<open>..\<close>), and it is not one of the local names no certificate authority signs.\<close>

lemma valid_domain_https:
  assumes "valid_domain domain True"
  shows "parse_ip_addr domain = None \<and> CHR ''.'' \<in> set domain \<and> length domain \<le> 253
     \<and> (\<forall>c\<in>set domain. is_ascii_alphanumeric c \<or> c = CHR ''-'' \<or> c = CHR ''.'')
     \<and> (\<forall>label\<in>set (split_on CHR ''.'' domain). label \<noteq> [] \<and> length label \<le> 63)
     \<and> \<not> suffix ''.localhost'' domain \<and> \<not> suffix ''.local'' domain"
proof -
  have ip: "parse_ip_addr domain = None"
    using assms by (auto simp: valid_domain_def split: if_splits)
  have shape: "CHR ''.'' \<in> set domain \<and> \<not> suffix ''.localhost'' domain \<and> \<not> suffix ''.local'' domain"
    using assms ip by (auto simp: valid_domain_def split: if_splits)
  have l: "list_all valid_label (split_on CHR ''.'' domain)" "length domain \<le> 253"
    using valid_domain_labels [OF assms ip] by simp_all
  have "is_ascii_alphanumeric c \<or> c = CHR ''-'' \<or> c = CHR ''.''" if c: "c \<in> set domain" for c
  proof (cases "c = CHR ''.''")
    case False
    then obtain label where "label \<in> set (split_on CHR ''.'' domain)" "c \<in> set label"
      using c split_on_cover by blast
    then show ?thesis using l(1) by (auto simp: list_all_iff valid_label_def)
  qed simp
  then show ?thesis using ip shape l by (auto simp: list_all_iff valid_label_def)
qed

lemma parse_upstream_port:
  assumes "parse_upstream url_parse value = Inr u"
  shows "0 < up_port u"
proof (cases "url_parse (if contains_str ''://'' value then value else ''http://'' @ value)")
  case None
  then show ?thesis using assms by (simp add: parse_upstream_def)
next
  case (Some w)
  then show ?thesis using assms
    by (simp add: parse_upstream_def split: if_splits) auto
qed

section \<open>Witnesses\<close>

lemmas tokenize_eval = tokenize_def token_end_def is_whitespace_def whitespace_chars_def newline_def
  quote_def backslash_def is_continuation_def push_token_def config_fail_def

lemma read_number_start: "to_digit radix c = None \<Longrightarrow> read_number radix w m z (c # cs) = None"
  by (simp add: read_number_def)

lemma to_digit_10: "to_digit 16 c = None \<Longrightarrow> to_digit 10 c = None"
  by (cases "hex_val c") (auto simp: to_digit_def split: if_splits)

lemma read_octets_start: "to_digit 16 c = None \<Longrightarrow> 0 < k \<Longrightarrow> read_octets k 0 (c # cs) = None"
  by (cases k) (simp_all add: read_separator_def read_number_start to_digit_10)

lemma read_groups_start: "to_digit 16 c = None \<Longrightarrow> read_groups k 0 (c # cs) = ([], False, c # cs)"
  by (cases k) (simp_all add: read_separator_def read_number_start read_octets_start)

text \<open>A name whose first character is neither a hexadecimal digit nor a colon is no IP address.\<close>

lemma parse_ip_addr_name: "to_digit 16 c = None \<Longrightarrow> c \<noteq> CHR '':'' \<Longrightarrow> parse_ip_addr (c # cs) = None"
  by (simp add: parse_ip_addr_def read_octets_start read_ipv6_addr_def read_groups_start split: list.splits)

lemma tokenize_demo:
  "tokenize Some ''a.b { respond 204}'' = Inr
     [\<lparr>tok_line = 1, tok_kind = Text ''a.b'', tok_quoted = False\<rparr>,
      \<lparr>tok_line = 1, tok_kind = Open, tok_quoted = False\<rparr>,
      \<lparr>tok_line = 1, tok_kind = Text ''respond'', tok_quoted = False\<rparr>,
      \<lparr>tok_line = 1, tok_kind = Text ''204'', tok_quoted = False\<rparr>,
      \<lparr>tok_line = 1, tok_kind = Close, tok_quoted = False\<rparr>]"
  by (simp add: tokenize_eval)

theorem tokenize_roundtrip_witness:
  "tokenize Some (''a.b'' @ newline @ ''{'' @ newline) =
     Inr [\<lparr>tok_line = 1, tok_kind = Text ''a.b'', tok_quoted = False\<rparr>,
          \<lparr>tok_line = 2, tok_kind = Open, tok_quoted = False\<rparr>]"
  using tokenize_roundtrip [of "[Text ''a.b'', Open]" Some]
  by (simp add: is_continuation_def token_end_def is_whitespace_def whitespace_chars_def quote_def)

end
