(* ===== verification/Payment_Policies.thy ===== *)
theory Payment_Policies
  imports Geatafile
begin

text \<open>
  The payment policies of a configuration, as \<^verbatim>\<open>payments/mod.rs\<close>, \<^verbatim>\<open>payments/payout.rs\<close> and
  \<^verbatim>\<open>payments/lightning/mod.rs\<close> parse and validate them: the Cashu price of a site, the Lightning
  receiver and price of a site with the request headers an invoice is bound to, and the automatic
  payout of a mint's balance.

  The functions of other crates are the fields of \<open>externals\<close>: the URL parser, \<^verbatim>\<open>MintUrl::from_str\<close>
  (a mint URL is its normalised text), the parsers of node public keys, header names and Cashu
  payment requests, and the JSON string decoder of the tokenizer.
\<close>

section \<open>Other crates\<close>

datatype currency_unit = Sat | Other_unit string

datatype transport_type = Nostr | HttpPost | Other_transport

record transport =
  transport_type :: transport_type
  transport_target :: string

record payment_request =
  pr_amount :: "nat option"
  pr_unit :: "currency_unit option"
  pr_single_use :: "bool option"
  pr_mints :: "string list"
  pr_mint_preferred :: "bool option"
  pr_methods :: "string list"
  pr_transports :: "transport list"

record externals =
  url_parse :: "string \<Rightarrow> url option"
  mint_from_str :: "string \<Rightarrow> string option"
  public_key_ok :: "string \<Rightarrow> bool"
  header_name_ok :: "string \<Rightarrow> bool"
  request_from_str :: "string \<Rightarrow> payment_request option"
  json_string :: "string \<Rightarrow> string option"

datatype policy_error =
    Odd_settings | Unknown_setting string | Duplicate_setting string | Missing_setting string
  | Bad_number string | Bad_network | Mixed_receiver | Bad_url | Insecure_mint | Mint_credentials
  | Bad_mint | Bad_endpoint | Relative_path | Bad_pay_to | Bad_expiry | Bad_price | Price_overflow
  | Needs_l402 | Authorization_reserved | Bad_origin | Unsorted_headers | Bad_header | No_protocols
  | Unknown_protocol string | Duplicate_protocol string | Origin_mismatch | Request_too_large
  | Bad_request | Wrong_unit | Mint_not_accepted | Unit_required | Amount_conflict
  | Amount_required | No_transport | Insecure_target | Single_use_request | Fee_overflow
  | Bad_interval | Zero_threshold | No_trigger

section \<open>Cashu prices\<close>

record payment_policy =
  pp_price :: nat
  pp_mint :: string

definition loopback_host :: "string option \<Rightarrow> bool" where
  "loopback_host host =
     (case host of
        None \<Rightarrow> False
      | Some h \<Rightarrow> h = ''localhost'' \<or>
          (case parse_ip_addr (trim_matches {CHR ''['', CHR '']''} h) of Some ip \<Rightarrow> is_loopback ip | None \<Rightarrow> False))"

definition parse_mint :: "externals \<Rightarrow> string \<Rightarrow> policy_error + string" where
  "parse_mint x value =
     bind_result (ok_or Bad_url (url_parse x value)) (\<lambda>url.
     bind_result (ensure (url_scheme url = ''https'' \<or> (url_scheme url = ''http'' \<and> loopback_host (url_host url)))
       Insecure_mint) (\<lambda>_.
     bind_result (ensure (url_host url \<noteq> None \<and> url_username url = [] \<and> url_password url = None
         \<and> url_query url = None \<and> url_fragment url = None) Mint_credentials) (\<lambda>_.
     ok_or Bad_mint (mint_from_str x (url_text url)))))"

definition payment_policy_parse :: "externals \<Rightarrow> string \<Rightarrow> string \<Rightarrow> string \<Rightarrow> policy_error + payment_policy" where
  "payment_policy_parse x price unit mint =
     bind_result (ok_or Bad_price (filter_option (\<lambda>n. 0 < n) (parse_uint 32 price))) (\<lambda>price.
     bind_result (ensure (unit = ''sat'') Wrong_unit) (\<lambda>_.
     bind_result (parse_mint x mint) (\<lambda>m. Inr \<lparr>pp_price = price, pp_mint = m\<rparr>)))"

section \<open>Lightning receivers\<close>

definition MAINNET :: string where "MAINNET = ''lnbtc:000000000019d6689c085ae165831e93''"
definition TESTNET :: string where "TESTNET = ''lnbtc:000000000933ea01ad0ee984209779ba''"

record ldk_receiver_config =
  ldk_endpoint :: string
  ldk_macaroon_file :: string
  ldk_tls_cert_file :: string
  ldk_pay_to :: string
  ldk_network :: string
  ldk_expiry_seconds :: nat

datatype receiver_config = Ldk ldk_receiver_config | Cashu string string

fun receiver_network :: "receiver_config \<Rightarrow> string" where
  "receiver_network (Ldk node) = ldk_network node"
| "receiver_network (Cashu mint network) = network"

fun receiver_ldk :: "receiver_config \<Rightarrow> ldk_receiver_config option" where
  "receiver_ldk (Ldk node) = Some node"
| "receiver_ldk (Cashu mint network) = None"

fun receiver_mint :: "receiver_config \<Rightarrow> string option" where
  "receiver_mint (Ldk node) = None"
| "receiver_mint (Cashu mint network) = Some mint"

definition is_absolute :: "string \<Rightarrow> bool" where
  "is_absolute path \<longleftrightarrow> prefix ''/'' path"

definition ldk_validate :: "externals \<Rightarrow> ldk_receiver_config \<Rightarrow> policy_error + unit" where
  "ldk_validate x node =
     bind_result (ok_or Bad_url (url_parse x (ldk_endpoint node))) (\<lambda>e.
     bind_result (ensure (url_scheme e = ''https'' \<and> url_host e \<noteq> None \<and> url_username e = []
         \<and> url_password e = None \<and> url_query e = None \<and> url_fragment e = None \<and> url_path e = ''/'') Bad_endpoint) (\<lambda>_.
     bind_result (ensure (is_absolute (ldk_macaroon_file node) \<and> is_absolute (ldk_tls_cert_file node))
       Relative_path) (\<lambda>_.
     bind_result (ensure (ldk_network node \<in> {MAINNET, TESTNET}) Bad_network) (\<lambda>_.
     bind_result (ensure (length (ldk_pay_to node) = 66 \<and> lowercase_hex (ldk_pay_to node)
         \<and> public_key_ok x (ldk_pay_to node)) Bad_pay_to) (\<lambda>_.
     ensure (0 < ldk_expiry_seconds node \<and> ldk_expiry_seconds node \<le> 86400) Bad_expiry)))))"

fun receiver_validate :: "externals \<Rightarrow> receiver_config \<Rightarrow> policy_error + unit" where
  "receiver_validate x (Ldk node) = ldk_validate x node"
| "receiver_validate x (Cashu mint network) =
     bind_result (parse_mint x mint) (\<lambda>_. ensure (network \<in> {MAINNET, TESTNET}) Bad_network)"

text \<open>Both settings blocks read their words in pairs and refuse unknown and repeated names.\<close>

fun collect_settings :: "string list \<Rightarrow> string list \<Rightarrow> (string, string) fmap \<Rightarrow> policy_error + (string, string) fmap" where
  "collect_settings names (key # value # args) entries =
     bind_result (ensure (key \<in> set names) (Unknown_setting key)) (\<lambda>_.
     bind_result (ensure (fmlookup entries key = None) (Duplicate_setting key)) (\<lambda>_.
     collect_settings names args (fmupd key value entries)))"
| "collect_settings names args entries = Inr entries"

definition required :: "(string, string) fmap \<Rightarrow> string \<Rightarrow> policy_error + string" where
  "required entries key = ok_or (Missing_setting key) (fmlookup entries key)"

definition receiver_parse :: "externals \<Rightarrow> string list \<Rightarrow> policy_error + receiver_config" where
  "receiver_parse x args =
     bind_result (ensure (even (length args)) Odd_settings) (\<lambda>_.
     bind_result (collect_settings [''mint'', ''endpoint'', ''macaroon_file'', ''tls_cert_file'', ''pay_to'',
         ''network'', ''expiry_seconds''] args fmempty) (\<lambda>entries.
     bind_result (required entries ''network'') (\<lambda>n.
     bind_result (if n = ''mainnet'' then Inr MAINNET else if n = ''testnet'' then Inr TESTNET
       else Inl Bad_network) (\<lambda>network.
     case fmlookup entries ''mint'' of
       Some mint \<Rightarrow>
         bind_result (ensure (fmdom entries |\<subseteq>| {|''mint'', ''network''|}) Mixed_receiver) (\<lambda>_.
         bind_result (parse_mint x mint) (\<lambda>m. Inr (Cashu m network)))
     | None \<Rightarrow>
         bind_result (required entries ''endpoint'') (\<lambda>endpoint.
         bind_result (required entries ''macaroon_file'') (\<lambda>macaroon.
         bind_result (required entries ''tls_cert_file'') (\<lambda>tls_cert.
         bind_result (required entries ''pay_to'') (\<lambda>pay_to.
         bind_result (case fmlookup entries ''expiry_seconds'' of
             None \<Rightarrow> Inr 300
           | Some value \<Rightarrow> ok_or (Bad_number ''expiry_seconds'') (parse_uint 32 value)) (\<lambda>expiry.
         let node = \<lparr>ldk_endpoint = endpoint, ldk_macaroon_file = macaroon, ldk_tls_cert_file = tls_cert,
           ldk_pay_to = pay_to, ldk_network = network, ldk_expiry_seconds = expiry\<rparr>
         in bind_result (ldk_validate x node) (\<lambda>_. Inr (Ldk node))))))))))) "

section \<open>Lightning policies\<close>

record protocols =
  proto_x402 :: bool
  proto_l402 :: bool

definition protocols_default :: protocols where
  "protocols_default = \<lparr>proto_x402 = True, proto_l402 = False\<rparr>"

fun enable_protocols :: "string list \<Rightarrow> protocols \<Rightarrow> policy_error + protocols" where
  "enable_protocols [] p = Inr p"
| "enable_protocols (name # names) p =
     (if name = ''x402'' then
        bind_result (ensure (\<not> proto_x402 p) (Duplicate_protocol name)) (\<lambda>_. enable_protocols names (p\<lparr>proto_x402 := True\<rparr>))
      else if name = ''l402'' then
        bind_result (ensure (\<not> proto_l402 p) (Duplicate_protocol name)) (\<lambda>_. enable_protocols names (p\<lparr>proto_l402 := True\<rparr>))
      else Inl (Unknown_protocol name))"

definition protocols_parse :: "string list \<Rightarrow> policy_error + protocols" where
  "protocols_parse names =
     bind_result (ensure (names \<noteq> []) No_protocols)
       (\<lambda>_. enable_protocols names \<lparr>proto_x402 = False, proto_l402 = False\<rparr>)"

record lightning_policy =
  lp_amount_msat :: nat
  lp_receiver :: receiver_config
  lp_origin :: string
  lp_headers :: "string list"
  lp_protocols :: protocols

definition binding_profile :: "lightning_policy \<Rightarrow> string" where
  "binding_profile p = (if lp_headers p = [] then ''http:1'' else ''geata:http:2'')"

fun windows_increasing :: "string list \<Rightarrow> bool" where
  "windows_increasing (a # b # xs) = (a < b \<and> windows_increasing (b # xs))"
| "windows_increasing xs = True"

definition reserved_headers :: "string list" where
  "reserved_headers = [''payment-signature'', ''x-cashu'', ''connection'', ''transfer-encoding'', ''trailer'']"

definition validate_binding :: "externals \<Rightarrow> lightning_policy \<Rightarrow> policy_error + unit" where
  "validate_binding x p =
     bind_result (ensure (receiver_mint (lp_receiver p) = None
         \<or> (proto_l402 (lp_protocols p) \<and> \<not> proto_x402 (lp_protocols p))) Needs_l402) (\<lambda>_.
     bind_result (ensure (\<not> proto_l402 (lp_protocols p) \<or> ''authorization'' \<notin> set (lp_headers p))
         Authorization_reserved) (\<lambda>_.
     bind_result (ok_or Bad_url (url_parse x (lp_origin p))) (\<lambda>origin.
     bind_result (ensure (url_scheme origin \<in> {''http'', ''https''} \<and> url_host origin \<noteq> None
         \<and> url_username origin = [] \<and> url_password origin = None \<and> url_query origin = None
         \<and> url_fragment origin = None \<and> url_path origin = ''/'' \<and> lp_origin p = url_origin origin) Bad_origin) (\<lambda>_.
     bind_result (ensure (windows_increasing (lp_headers p)) Unsorted_headers) (\<lambda>_.
     ensure (list_all (\<lambda>name. name = to_ascii_lowercase name \<and> header_name_ok x name
         \<and> name \<notin> set reserved_headers) (lp_headers p)) Bad_header)))))"

definition lightning_policy_new ::
  "externals \<Rightarrow> string \<Rightarrow> string \<Rightarrow> receiver_config \<Rightarrow> string \<Rightarrow> string list \<Rightarrow> protocols \<Rightarrow> policy_error + lightning_policy" where
  "lightning_policy_new x price unit receiver origin headers protocols =
     bind_result (ensure (price \<noteq> [] \<and> list_all is_ascii_digit price) Bad_price) (\<lambda>_.
     bind_result (ok_or (Bad_number ''price'') (parse_uint 64 price)) (\<lambda>price.
     bind_result (ensure (0 < price \<and> unit = ''sat'') Wrong_unit) (\<lambda>_.
     bind_result (receiver_validate x receiver) (\<lambda>_.
     bind_result (ok_or Price_overflow (checked_mul 64 price 1000)) (\<lambda>amount.
     let policy = \<lparr>lp_amount_msat = amount, lp_receiver = receiver, lp_origin = origin, lp_headers = headers,
       lp_protocols = protocols\<rparr>
     in bind_result (validate_binding x policy) (\<lambda>_. Inr policy))))))"

definition check_site :: "externals \<Rightarrow> lightning_policy \<Rightarrow> string \<Rightarrow> bool \<Rightarrow> policy_error + unit" where
  "check_site x p domain https =
     bind_result (ok_or Bad_url (url_parse x (lp_origin p))) (\<lambda>origin.
       ensure (url_host origin = Some domain \<and> (url_scheme origin = ''https'') = https) Origin_mismatch)"

section \<open>Payout policies\<close>

definition validate_http_target :: "externals \<Rightarrow> string \<Rightarrow> policy_error + unit" where
  "validate_http_target x target =
     bind_result (ok_or Bad_url (url_parse x target)) (\<lambda>url.
       ensure (url_host url \<noteq> None
         \<and> (url_scheme url = ''https'' \<or> (url_scheme url = ''http'' \<and> loopback_host (url_host url)))
         \<and> url_username url = [] \<and> url_password url = None \<and> url_fragment url = None) Insecure_target)"

definition chosen_transport :: "payment_request \<Rightarrow> transport option" where
  "chosen_transport r =
     (case find (\<lambda>t. transport_type t = Nostr) (pr_transports r) of
        Some t \<Rightarrow> Some t
      | None \<Rightarrow> find (\<lambda>t. transport_type t = HttpPost) (pr_transports r))"

definition validate_request :: "externals \<Rightarrow> string \<Rightarrow> string \<Rightarrow> nat option \<Rightarrow> policy_error + (payment_request \<times> nat)" where
  "validate_request x encoded mint amount =
     bind_result (ensure (length encoded \<le> 64 * 1024) Request_too_large) (\<lambda>_.
     bind_result (ok_or Bad_request (request_from_str x encoded)) (\<lambda>r.
     bind_result (ensure (pr_unit r \<in> {None, Some Sat}) Wrong_unit) (\<lambda>_.
     bind_result (ensure (pr_mint_preferred r = Some True \<or> pr_mints r = [] \<or> mint \<in> set (pr_mints r))
         Mint_not_accepted) (\<lambda>_.
     bind_result (ensure (pr_unit r \<noteq> None \<or> (pr_amount r = None \<and> pr_methods r = [])) Unit_required) (\<lambda>_.
     bind_result (ensure (pr_amount r = None \<or> amount = None \<or> pr_amount r = amount) Amount_conflict) (\<lambda>_.
     bind_result (ok_or Amount_required (filter_option (\<lambda>n. 0 < n)
         (case pr_amount r of Some a \<Rightarrow> Some a | None \<Rightarrow> amount))) (\<lambda>amount.
     bind_result (ok_or No_transport (chosen_transport r)) (\<lambda>t.
     bind_result (if transport_type t = HttpPost then validate_http_target x (transport_target t) else Inr ()) (\<lambda>_.
     Inr (r, amount))))))))))"

definition parse_interval :: "string \<Rightarrow> policy_error + int" where
  "parse_interval value =
     bind_result
       (if value = [] then Inl Bad_interval
        else if last value = CHR ''s'' then Inr (butlast value, 1)
        else if last value = CHR ''m'' then Inr (butlast value, 60)
        else if last value = CHR ''h'' then Inr (butlast value, 3600)
        else if last value = CHR ''d'' then Inr (butlast value, 86400)
        else Inl Bad_interval) (\<lambda>(digits, multiplier).
     bind_result (ok_or Bad_interval (filter_option i64_ok (map_option (\<lambda>n. n * multiplier) (parse_i64 digits))))
       (\<lambda>seconds. bind_result (ensure (1 \<le> seconds \<and> seconds \<le> 31536000) Bad_interval) (\<lambda>_. Inr seconds)))"

record payout_policy =
  po_mint :: string
  po_request :: payment_request
  po_amount :: nat
  po_max_fee :: nat
  po_interval :: "int option"
  po_threshold :: "nat option"

definition optional :: "('a \<Rightarrow> policy_error + 'b) \<Rightarrow> 'a option \<Rightarrow> policy_error + 'b option" where
  "optional f v = (case v of None \<Rightarrow> Inr None | Some a \<Rightarrow> map_sum id Some (f a))"

definition payout_policy_parse :: "externals \<Rightarrow> string list \<Rightarrow> policy_error + payout_policy" where
  "payout_policy_parse x args =
     bind_result (ensure (even (length args)) Odd_settings) (\<lambda>_.
     bind_result (collect_settings [''mint'', ''request'', ''amount'', ''max_fee'', ''interval'', ''threshold''] args fmempty) (\<lambda>entries.
     bind_result (required entries ''mint'') (\<lambda>m.
     bind_result (parse_mint x m) (\<lambda>mint.
     bind_result (optional (\<lambda>v. ok_or (Bad_number ''amount'') (parse_uint 64 v)) (fmlookup entries ''amount'')) (\<lambda>given.
     bind_result (required entries ''request'') (\<lambda>encoded.
     bind_result (validate_request x encoded mint given) (\<lambda>(request, amount).
     bind_result (ensure (pr_single_use request \<noteq> Some True) Single_use_request) (\<lambda>_.
     bind_result (required entries ''max_fee'') (\<lambda>fee.
     bind_result (ok_or (Bad_number ''max_fee'') (parse_uint 64 fee)) (\<lambda>max_fee.
     bind_result (ok_or Fee_overflow (checked_add 64 amount max_fee)) (\<lambda>_.
     bind_result (optional parse_interval (fmlookup entries ''interval'')) (\<lambda>interval.
     bind_result (optional (\<lambda>v. ok_or (Bad_number ''threshold'') (parse_uint 64 v)) (fmlookup entries ''threshold'')) (\<lambda>threshold.
     bind_result (ensure (threshold \<noteq> Some 0) Zero_threshold) (\<lambda>_.
     bind_result (ensure (interval \<noteq> None \<or> threshold \<noteq> None) No_trigger) (\<lambda>_.
     Inr \<lparr>po_mint = mint, po_request = request, po_amount = amount, po_max_fee = max_fee,
       po_interval = interval, po_threshold = threshold\<rparr>)))))))))))))))"

section \<open>Lemmas\<close>

lemma windows_increasing_sorted: "windows_increasing xs \<longleftrightarrow> sorted_wrt (<) xs"
  by (induction xs rule: windows_increasing.induct) (auto dest: less_trans)

lemma windows_increasing_distinct: "windows_increasing xs \<Longrightarrow> distinct xs"
  unfolding windows_increasing_sorted by (induction xs) auto

lemma parse_mint_secure:
  assumes "parse_mint x value = Inr m"
  shows "\<exists>url. url_parse x value = Some url \<and> mint_from_str x (url_text url) = Some m
     \<and> (url_scheme url = ''https'' \<or> loopback_host (url_host url))
     \<and> url_username url = [] \<and> url_password url = None \<and> url_query url = None"
  using assms by (auto simp: parse_mint_def)

lemma payment_policy_parse_sound:
  assumes "payment_policy_parse x price unit mint = Inr p"
  shows "0 < pp_price p \<and> pp_price p < 2 ^ 32 \<and> unit = ''sat'' \<and> parse_mint x mint = Inr (pp_mint p)"
  using assms parse_uint_less [of 32 price] by (auto simp: payment_policy_parse_def filter_option_eq_Some)

lemma ldk_validate_sound:
  assumes "ldk_validate x node = Inr u"
  shows "ldk_network node \<in> {MAINNET, TESTNET} \<and> 0 < ldk_expiry_seconds node \<and> ldk_expiry_seconds node \<le> 86400
     \<and> length (ldk_pay_to node) = 66 \<and> (\<exists>e. url_parse x (ldk_endpoint node) = Some e \<and> url_scheme e = ''https'')"
  using assms by (auto simp: ldk_validate_def)

lemma receiver_validate_network:
  assumes "receiver_validate x r = Inr u"
  shows "receiver_network r \<in> {MAINNET, TESTNET}"
  using assms by (cases r) (auto dest: ldk_validate_sound)

lemma enable_protocols_some:
  "enable_protocols names p = Inr q \<Longrightarrow> names \<noteq> [] \<or> proto_x402 p \<or> proto_l402 p \<Longrightarrow> proto_x402 q \<or> proto_l402 q"
  by (induction names p rule: enable_protocols.induct) (auto split: if_splits)

lemma enable_protocols_once:
  "enable_protocols names p = Inr q \<Longrightarrow> proto_x402 p \<Longrightarrow> ''x402'' \<notin> set names"
  "enable_protocols names p = Inr q \<Longrightarrow> proto_l402 p \<Longrightarrow> ''l402'' \<notin> set names"
  by (induction names p rule: enable_protocols.induct) (auto split: if_splits)

lemma enable_protocols_mem:
  "enable_protocols names p = Inr q \<Longrightarrow>
     (proto_x402 q \<longleftrightarrow> proto_x402 p \<or> ''x402'' \<in> set names) \<and> (proto_l402 q \<longleftrightarrow> proto_l402 p \<or> ''l402'' \<in> set names)
     \<and> set names \<subseteq> {''x402'', ''l402''} \<and> distinct names"
proof (induction names p rule: enable_protocols.induct)
  case (2 name names p)
  consider (x) "name = ''x402''" "\<not> proto_x402 p" "enable_protocols names (p\<lparr>proto_x402 := True\<rparr>) = Inr q"
    | (l) "name = ''l402''" "\<not> proto_l402 p" "enable_protocols names (p\<lparr>proto_l402 := True\<rparr>) = Inr q"
    using 2(3) by (auto split: if_splits)
  then show ?case
  proof cases
    case x
    then show ?thesis using 2(1) enable_protocols_once(1) [OF x(3)] by auto
  next
    case l
    then show ?thesis using 2(2) enable_protocols_once(2) [OF l(3)] by auto
  qed
qed simp

section \<open>The policies' theorems\<close>

text \<open>A Lightning policy that is accepted charges exactly 1000 times its price, with no wrap-around,
  on main or test network; a Cashu receiver is offered by L402 only; the bound headers are in strictly
  increasing order (so each is bound once), in lower case, and none of them is a header the gateway
  itself consumes or a hop-by-hop header, \<^verbatim>\<open>authorization\<close> included where L402 uses it; the origin is
  its own canonical form.\<close>

lemma lightning_policy_sound:
  assumes "lightning_policy_new x price unit receiver origin headers protocols = Inr p"
  shows "(\<exists>n. parse_uint 64 price = Some n \<and> 0 < n \<and> lp_amount_msat p = 1000 * n) \<and> lp_amount_msat p < 2 ^ 64
     \<and> unit = ''sat'' \<and> receiver_network (lp_receiver p) \<in> {MAINNET, TESTNET}
     \<and> (receiver_mint (lp_receiver p) \<noteq> None \<longrightarrow> proto_l402 (lp_protocols p) \<and> \<not> proto_x402 (lp_protocols p))
     \<and> sorted_wrt (<) (lp_headers p) \<and> distinct (lp_headers p)
     \<and> (\<forall>h\<in>set (lp_headers p). h = to_ascii_lowercase h \<and> h \<notin> set reserved_headers
          \<and> \<not> (proto_l402 (lp_protocols p) \<and> h = ''authorization''))
     \<and> (\<exists>url. url_parse x (lp_origin p) = Some url \<and> url_origin url = lp_origin p \<and> url_path url = ''/'')"
proof -
  obtain n where n: "parse_uint 64 price = Some n" "0 < n" "unit = ''sat''" "receiver_validate x receiver = Inr ()"
    "checked_mul 64 n 1000 = Some (lp_amount_msat p)" "lp_receiver p = receiver" "validate_binding x p = Inr ()"
    using assms by (auto simp: lightning_policy_new_def Let_def)
  obtain url where b: "receiver_mint (lp_receiver p) = None \<or> proto_l402 (lp_protocols p) \<and> \<not> proto_x402 (lp_protocols p)"
    "\<not> proto_l402 (lp_protocols p) \<or> ''authorization'' \<notin> set (lp_headers p)"
    "url_parse x (lp_origin p) = Some url" "url_origin url = lp_origin p" "url_path url = ''/''"
    "windows_increasing (lp_headers p)"
    "list_all (\<lambda>name. name = to_ascii_lowercase name \<and> header_name_ok x name \<and> name \<notin> set reserved_headers) (lp_headers p)"
    using n(7) unfolding validate_binding_def bind_result_eq_Inr ensure_eq_Inr ok_or_eq_Inr by (elim exE conjE) simp
  have amount: "lp_amount_msat p = 1000 * n" "lp_amount_msat p < 2 ^ 64"
    using n(5) by (auto simp: checked_mul_def split: if_splits)
  have heads: "\<forall>h\<in>set (lp_headers p). h = to_ascii_lowercase h \<and> h \<notin> set reserved_headers
      \<and> \<not> (proto_l402 (lp_protocols p) \<and> h = ''authorization'')"
    using b(2,7) unfolding list_all_iff by blast
  have order: "sorted_wrt (<) (lp_headers p)" "distinct (lp_headers p)"
    using b(6) windows_increasing_sorted windows_increasing_distinct by simp_all
  show ?thesis
  proof (intro conjI)
    show "receiver_network (lp_receiver p) \<in> {MAINNET, TESTNET}"
      using receiver_validate_network [OF n(4)] n(6) by simp
    show "\<exists>n. parse_uint 64 price = Some n \<and> 0 < n \<and> lp_amount_msat p = 1000 * n"
      using n(1,2) amount(1) by blast
    show "receiver_mint (lp_receiver p) \<noteq> None \<longrightarrow> proto_l402 (lp_protocols p) \<and> \<not> proto_x402 (lp_protocols p)"
      using b(1) by auto
    show "\<exists>url. url_parse x (lp_origin p) = Some url \<and> url_origin url = lp_origin p \<and> url_path url = ''/''"
      using b(3-5) by blast
  qed (use amount(2) n(3) order heads in simp_all)
qed

lemma validate_request_sound:
  assumes "validate_request x encoded mint given = Inr (r, amount)"
  shows "0 < amount \<and> (pr_amount r = None \<or> pr_amount r = Some amount)
     \<and> (given = None \<or> given = Some amount)
     \<and> (pr_mints r = [] \<or> mint \<in> set (pr_mints r) \<or> pr_mint_preferred r = Some True)
     \<and> (\<exists>t. chosen_transport r = Some t \<and> (transport_type t = HttpPost \<longrightarrow> validate_http_target x (transport_target t) = Inr ()))"
proof -
  obtain t where *: "pr_mint_preferred r = Some True \<or> pr_mints r = [] \<or> mint \<in> set (pr_mints r)"
    "pr_amount r = None \<or> given = None \<or> pr_amount r = given"
    "filter_option (\<lambda>n. 0 < n) (case pr_amount r of Some a \<Rightarrow> Some a | None \<Rightarrow> given) = Some amount"
    "chosen_transport r = Some t"
    "(if transport_type t = HttpPost then validate_http_target x (transport_target t) else Inr ()) = Inr ()"
    using assms unfolding validate_request_def bind_result_eq_Inr ensure_eq_Inr ok_or_eq_Inr by auto
  then show ?thesis by (auto simp: filter_option_eq_Some split: option.splits if_splits)
qed

lemma parse_interval_range: "parse_interval v = Inr s \<Longrightarrow> 1 \<le> s \<and> s \<le> 31536000"
  unfolding parse_interval_def by (auto split: prod.splits)

text \<open>An accepted payout policy can be carried out: amount and fee cap together do not wrap, the
  amount is positive and is the one the payment request asks for where it asks for one, the request
  can be paid more than once and accepts the mint, an HTTP destination is secure, and an interval is
  between one second and a year.\<close>

lemma payout_policy_sound:
  assumes "payout_policy_parse x args = Inr p"
  shows "0 < po_amount p \<and> po_amount p + po_max_fee p < 2 ^ 64
     \<and> (pr_amount (po_request p) = None \<or> pr_amount (po_request p) = Some (po_amount p))
     \<and> pr_single_use (po_request p) \<noteq> Some True
     \<and> (pr_mints (po_request p) = [] \<or> po_mint p \<in> set (pr_mints (po_request p)) \<or> pr_mint_preferred (po_request p) = Some True)
     \<and> (\<exists>t. chosen_transport (po_request p) = Some t
          \<and> (transport_type t = HttpPost \<longrightarrow> validate_http_target x (transport_target t) = Inr ()))
     \<and> (\<forall>s. po_interval p = Some s \<longrightarrow> 1 \<le> s \<and> s \<le> 31536000) \<and> po_threshold p \<noteq> Some 0
     \<and> (po_interval p \<noteq> None \<or> po_threshold p \<noteq> None)"
proof -
  obtain entries encoded given fee sum where e:
    "validate_request x encoded (po_mint p) given = Inr (po_request p, po_amount p)"
    "pr_single_use (po_request p) \<noteq> Some True"
    "checked_add 64 (po_amount p) (po_max_fee p) = Some sum"
    "optional parse_interval (fmlookup entries ''interval'') = Inr (po_interval p)"
    "po_threshold p \<noteq> Some 0" "po_interval p \<noteq> None \<or> po_threshold p \<noteq> None"
    using assms unfolding payout_policy_parse_def bind_result_eq_Inr ensure_eq_Inr ok_or_eq_Inr
    by (elim exE conjE) (clarsimp split: prod.splits)
  have "po_amount p + po_max_fee p < 2 ^ 64"
    using e(3) by (auto simp: checked_add_def split: if_splits)
  moreover have "1 \<le> s \<and> s \<le> 31536000" if si: "po_interval p = Some s" for s
  proof -
    obtain v where "parse_interval v = Inr s"
      using e(4) si by (cases "fmlookup entries ''interval''") (auto simp: optional_def map_sum_def split: sum.splits)
    then show ?thesis by (rule parse_interval_range)
  qed
  ultimately show ?thesis using validate_request_sound [OF e(1)] e(2,5,6) by simp
qed

section \<open>Witnesses\<close>

text \<open>Stand-ins for the other crates: a URL parser that knows three URLs, and a decoder of payment
  requests that knows one.\<close>

definition demo_url :: "string \<Rightarrow> string \<Rightarrow> url" where
  "demo_url host text = \<lparr>url_scheme = ''https'', url_username = [], url_password = None, url_host = Some host,
     url_port = None, url_port_or_default = Some 443, url_path = ''/'', url_query = None, url_fragment = None,
     url_text = text, url_origin = ''https://'' @ host\<rparr>"

definition demo_request :: payment_request where
  "demo_request = \<lparr>pr_amount = None, pr_unit = Some Sat, pr_single_use = None, pr_mints = [],
     pr_mint_preferred = None, pr_methods = [],
     pr_transports = [\<lparr>transport_type = HttpPost, transport_target = ''https://w''\<rparr>]\<rparr>"

definition demo_ext :: externals where
  "demo_ext = \<lparr>url_parse = (\<lambda>s. if s = ''https://a'' then Some (demo_url ''a'' ''https://a/'')
       else if s = ''https://m'' then Some (demo_url ''m'' ''https://m/'')
       else if s = ''https://m/'' then Some (demo_url ''m'' ''https://m/'')
       else if s = ''https://w'' then Some (demo_url ''w'' ''https://w/'')
       else if s = ''http://b'' then Some ((demo_url ''b'' ''http://b/'')\<lparr>url_scheme := ''http'',
         url_port_or_default := Some 80, url_origin := ''http://b''\<rparr>) else None),
     mint_from_str = Some, public_key_ok = (\<lambda>_. True), header_name_ok = (\<lambda>s. s \<noteq> []),
     request_from_str = (\<lambda>s. if s = ''creq'' then Some demo_request else None), json_string = Some\<rparr>"

definition demo_lightning :: lightning_policy where
  "demo_lightning = \<lparr>lp_amount_msat = 21000, lp_receiver = Cashu ''https://m/'' MAINNET,
     lp_origin = ''https://a'', lp_headers = [''accept'', ''cookie''],
     lp_protocols = \<lparr>proto_x402 = False, proto_l402 = True\<rparr>\<rparr>"

lemma demo_mint: "parse_mint demo_ext ''https://m/'' = Inr ''https://m/''" "parse_mint demo_ext ''https://m'' = Inr ''https://m/''"
  by (simp_all add: parse_mint_def demo_ext_def demo_url_def)

lemma demo_number: "parse_uint 64 ''21'' = Some 21" "parse_uint 64 ''5'' = Some 5"
  by (simp_all add: parse_uint_def is_ascii_digit_def)

lemma demo_lightning_new:
  "lightning_policy_new demo_ext ''21'' ''sat'' (Cashu ''https://m/'' MAINNET) ''https://a'' [''accept'', ''cookie'']
     \<lparr>proto_x402 = False, proto_l402 = True\<rparr> = Inr demo_lightning"
proof -
  have d: "list_all is_ascii_digit ''21''" by (simp add: is_ascii_digit_def)
  have "validate_binding demo_ext demo_lightning = Inr ()"
    by (simp add: validate_binding_def demo_lightning_def demo_ext_def demo_url_def reserved_headers_def
        to_ascii_lowercase_def ascii_lower_Char is_ascii_upper_def less_char_def)
  then show ?thesis
    using d by (simp add: lightning_policy_new_def demo_number demo_mint checked_mul_def demo_lightning_def)
qed

definition demo_payout :: payout_policy where
  "demo_payout = \<lparr>po_mint = ''https://m/'', po_request = demo_request, po_amount = 21, po_max_fee = 5,
     po_interval = Some 60, po_threshold = None\<rparr>"

lemma demo_payout_parse:
  "payout_policy_parse demo_ext [''mint'', ''https://m'', ''request'', ''creq'', ''amount'', ''21'', ''max_fee'', ''5'',
     ''interval'', ''1m''] = Inr demo_payout"
proof -
  have r: "validate_request demo_ext ''creq'' ''https://m/'' (Some 21) = Inr (demo_request, 21)"
    by (simp add: validate_request_def validate_http_target_def demo_ext_def demo_request_def chosen_transport_def demo_url_def)
  have i: "parse_interval ''1m'' = Inr 60"
    by (simp add: parse_interval_def parse_i64_def is_ascii_digit_def i64_bounds)
  show ?thesis
    by (simp add: payout_policy_parse_def required_def demo_mint optional_def demo_number r i checked_add_def
        demo_payout_def) (simp add: demo_request_def)
qed

end
