(* ===== verification/Lightning_Proofs.thy ===== *)
theory Lightning_Proofs
  imports Payment_Policies "HOL-Library.Countable"
begin

text \<open>
  What a Lightning payment proves: \<^verbatim>\<open>payments/lightning/mod.rs\<close> (the requirements of a policy, the
  binding of a payment to an HTTP request, the checks on an invoice and on an x402 payment) and the
  credential half of \<^verbatim>\<open>payments/lightning/l402.rs\<close>.

  Byte arrays and texts are strings. The functions of other crates are the fields of \<open>ln_ext\<close>:
  SHA-256 and HMAC of OpenSSL, base64, the JSON encoders and decoders of \<^verbatim>\<open>serde_json\<close> for the types
  used here, the BOLT11 parser (an invoice is the record of the accessors the sources call) and
  the macaroon parser and verifier.
\<close>

section \<open>Data\<close>

record extra =
  x_transfer_method :: "string option"
  x_payment_flow :: string
  x_request_hash :: string
  x_binding_profile :: string
  x_binding_headers :: "string list"
  x_invoice :: string

record requirements =
  r_scheme :: string
  r_network :: string
  r_amount :: string
  r_asset :: string
  r_pay_to :: string
  r_max_timeout :: nat
  r_extra :: extra

record payment =
  pay_version :: nat
  pay_accepted :: requirements
  pay_preimage :: string

datatype currency = Bitcoin | BitcoinTestnet | Other_currency

datatype invoice_description = Direct string | Description_hash string

record invoice =
  inv_signature_ok :: bool
  inv_payee :: string
  inv_currency :: currency
  inv_amount_msat :: "nat option"
  inv_description :: invoice_description
  inv_created :: nat
  inv_expiry :: nat
  inv_payment_hash :: string

datatype caveat = First_party string | Third_party

record macaroon =
  mac_identifier :: string
  mac_caveats :: "caveat list"
  mac_signature :: string

record ln_ext =
  sha256 :: "string \<Rightarrow> string"
  hmac_sha256 :: "string \<Rightarrow> string \<Rightarrow> string option"
  base64_decode :: "string \<Rightarrow> string option"
  payment_json :: "string \<Rightarrow> payment option"
  values_json :: "string list \<Rightarrow> string option"
  binding_json :: "string \<Rightarrow> string \<Rightarrow> string \<Rightarrow> string \<Rightarrow> (string \<times> string) list \<Rightarrow> string option"
  terms_json :: "requirements \<Rightarrow> string option \<Rightarrow> string option"
  bolt11 :: "string \<Rightarrow> invoice option"
  macaroon_parse :: "string \<Rightarrow> macaroon option"
  macaroon_verify :: "macaroon \<Rightarrow> string \<Rightarrow> string list \<Rightarrow> bool"

definition SKEW :: nat where "SKEW = 60"
definition MAX_PAYMENT_HEADER :: nat where "MAX_PAYMENT_HEADER = 24 * 1024"

definition digest :: "ln_ext \<Rightarrow> string \<Rightarrow> string" where
  "digest x bytes = hex (sha256 x bytes)"

section \<open>Requirements and request binding\<close>

definition requirements_of :: "lightning_policy \<Rightarrow> string \<Rightarrow> string \<Rightarrow> requirements" where
  "requirements_of p hash encoded =
     \<lparr>r_scheme = ''exact'', r_network = receiver_network (lp_receiver p), r_amount = show_nat (lp_amount_msat p),
      r_asset = ''BTC'',
      r_pay_to = (case receiver_ldk (lp_receiver p) of Some node \<Rightarrow> ldk_pay_to node | None \<Rightarrow> []),
      r_max_timeout = (case receiver_ldk (lp_receiver p) of Some node \<Rightarrow> ldk_expiry_seconds node | None \<Rightarrow> 0),
      r_extra = \<lparr>x_transfer_method = Some ''bolt11'', x_payment_flow = ''upfront'', x_request_hash = hash,
        x_binding_profile = binding_profile p, x_binding_headers = lp_headers p, x_invoice = encoded\<rparr>\<rparr>"

type_synonym header_map = "(string \<times> string) list"

definition get_all :: "header_map \<Rightarrow> string \<Rightarrow> string list" where
  "get_all headers name = map snd (filter (\<lambda>(n, _). n = name) headers)"

definition header_text_ok :: "string \<Rightarrow> bool" where
  "header_text_ok v \<longleftrightarrow>
     list_all (\<lambda>b. (of_char b :: nat) = 9 \<or> (32 \<le> (of_char b :: nat) \<and> (of_char b :: nat) \<le> 126)) v"

fun bind_headers :: "ln_ext \<Rightarrow> header_map \<Rightarrow> string list \<Rightarrow> (string \<times> string) list option" where
  "bind_headers x headers [] = Some []"
| "bind_headers x headers (name # names) =
     (if \<not> list_all header_text_ok (get_all headers name) then None
      else case values_json x (get_all headers name) of
             None \<Rightarrow> None
           | Some json \<Rightarrow> map_option (\<lambda>bound. (name, digest x json) # bound) (bind_headers x headers names))"

definition request_hash ::
  "ln_ext \<Rightarrow> lightning_policy \<Rightarrow> string \<Rightarrow> string \<Rightarrow> header_map \<Rightarrow> string \<Rightarrow> string option" where
  "request_hash x p mthd url headers body =
     (if \<not> (list_all is_ascii url \<and> prefix (lp_origin p @ ''/'') url \<and> CHR ''#'' \<notin> set url) then None
      else case bind_headers x headers (lp_headers p) of
             None \<Rightarrow> None
           | Some bound \<Rightarrow>
               map_option (digest x)
                 (binding_json x (''x402:exact:lnbtc:bolt11:'' @ binding_profile p) mthd url (digest x body) bound))"

section \<open>Invoices and x402 payments\<close>

datatype proof_error =
    Bad_invoice | Bad_signature | Wrong_receiver | Wrong_network | Wrong_amount | Wrong_request
  | Wrong_expiry | From_future | Expiry_overflow | Invoice_expired | Needs_ldk | Payment_too_large
  | Bad_encoding | Bad_version | Terms_mismatch | Bad_proof | Bad_credential | Credential_expired
  | Bad_caveat | Missing_caveat | Crypto_failed

definition validate_invoice ::
  "ln_ext \<Rightarrow> lightning_policy \<Rightarrow> string \<Rightarrow> string \<Rightarrow> nat \<Rightarrow> nat \<Rightarrow> proof_error + invoice" where
  "validate_invoice x p hash encoded time grace =
     bind_result (ok_or Bad_invoice (bolt11 x encoded)) (\<lambda>inv.
     bind_result (ensure (inv_signature_ok inv) Bad_signature) (\<lambda>_.
     bind_result (case receiver_ldk (lp_receiver p) of
         Some node \<Rightarrow> ensure (inv_payee inv = ldk_pay_to node) Wrong_receiver
       | None \<Rightarrow> Inr ()) (\<lambda>_.
     bind_result (ensure (inv_currency inv =
         (if receiver_network (lp_receiver p) = MAINNET then Bitcoin else BitcoinTestnet)) Wrong_network) (\<lambda>_.
     bind_result (ensure (inv_amount_msat inv = Some (lp_amount_msat p)) Wrong_amount) (\<lambda>_.
     bind_result (case receiver_ldk (lp_receiver p) of
         Some node \<Rightarrow>
           (case inv_description inv of
              Description_hash h \<Rightarrow>
                bind_result (ok_or Wrong_request (decode_hash hash)) (\<lambda>d.
                bind_result (ensure (h = d) Wrong_request) (\<lambda>_.
                ensure (inv_expiry inv = ldk_expiry_seconds node) Wrong_expiry))
            | Direct _ \<Rightarrow> Inl Wrong_request)
       | None \<Rightarrow> Inr ()) (\<lambda>_.
     bind_result (ensure (inv_created inv \<le> saturating_add 64 time SKEW) From_future) (\<lambda>_.
     bind_result (ok_or Expiry_overflow (checked_add 64 (inv_created inv) (inv_expiry inv))) (\<lambda>end.
     bind_result (ensure (time < end \<or> (0 < grace \<and> time \<le> saturating_add 64 end grace)) Invoice_expired) (\<lambda>_.
     Inr inv)))))))))"

definition normalize :: "requirements \<Rightarrow> requirements" where
  "normalize r = (if x_transfer_method (r_extra r) = None
     then r\<lparr>r_extra := (r_extra r)\<lparr>x_transfer_method := Some ''bolt11''\<rparr>\<rparr> else r)"

definition settlement_key :: "lightning_policy \<Rightarrow> string \<Rightarrow> string" where
  "settlement_key p payment_hash = receiver_network (lp_receiver p) @ '':'' @ hex payment_hash"

definition x402_retention :: "invoice \<Rightarrow> nat" where
  "x402_retention i = saturating_add 64 (saturating_add 64 (inv_created i) (inv_expiry i)) (SKEW + 3600)"

definition x402_verify ::
  "ln_ext \<Rightarrow> lightning_policy \<Rightarrow> string \<Rightarrow> string \<Rightarrow> nat \<Rightarrow> proof_error + (string \<times> string \<times> nat)" where
  "x402_verify x p hash encoded time =
     bind_result (ensure (receiver_ldk (lp_receiver p) \<noteq> None) Needs_ldk) (\<lambda>_.
     bind_result (ensure (length encoded \<le> MAX_PAYMENT_HEADER) Payment_too_large) (\<lambda>_.
     bind_result (ok_or Bad_encoding (Option.bind (base64_decode x encoded) (payment_json x))) (\<lambda>pay.
     bind_result (ensure (pay_version pay = 2) Bad_version) (\<lambda>_.
     let accepted = pay_accepted pay
     in bind_result (ensure (normalize accepted = requirements_of p hash (x_invoice (r_extra accepted))) Terms_mismatch) (\<lambda>_.
     bind_result (validate_invoice x p hash (x_invoice (r_extra accepted)) time SKEW) (\<lambda>inv.
     bind_result (ok_or Bad_proof (decode_hash (pay_preimage pay))) (\<lambda>preimage.
     bind_result (ensure (sha256 x preimage = inv_payment_hash inv) Bad_proof) (\<lambda>_.
     Inr (settlement_key p (inv_payment_hash inv), hex (inv_payment_hash inv), x402_retention inv)))))))))"

section \<open>L402 credentials\<close>

definition terms :: "ln_ext \<Rightarrow> lightning_policy \<Rightarrow> string \<Rightarrow> string option" where
  "terms x p hash = map_option (digest x) (terms_json x (requirements_of p hash []) (receiver_mint (lp_receiver p)))"

definition parse_credential :: "ln_ext \<Rightarrow> string \<Rightarrow> proof_error + (macaroon \<times> string)" where
  "parse_credential x encoded =
     bind_result (ensure (length encoded \<le> MAX_PAYMENT_HEADER) Payment_too_large) (\<lambda>_.
     bind_result (ok_or Bad_credential (split_once CHR '':'' encoded)) (\<lambda>(tok, preimage).
     bind_result (ok_or Bad_encoding (base64_decode x tok)) (\<lambda>bytes.
     bind_result (ensure (bytes \<noteq> [] \<and> of_char (hd bytes) = (2 :: nat)) Bad_credential) (\<lambda>_.
     bind_result (ok_or Bad_credential (macaroon_parse x bytes)) (\<lambda>m.
     bind_result (ensure (length (mac_caveats m) \<le> 32 \<and> Third_party \<notin> set (mac_caveats m)) Bad_caveat) (\<lambda>_.
     bind_result (ensure (length (mac_identifier m) = 66 \<and> take 2 (mac_identifier m) = [char_of (0 :: nat), char_of (0 :: nat)])
         Bad_credential) (\<lambda>_.
     bind_result (ok_or Bad_proof (decode_hash (to_ascii_lowercase preimage))) (\<lambda>pre.
     bind_result (ensure (sha256 x pre = take 32 (drop 2 (mac_identifier m))) Bad_proof) (\<lambda>_.
     Inr (m, pre))))))))))"

text \<open>The state of the loop over the caveats: what was found, the expiry so far, the signature chain
  and the predicates satisfied.\<close>

record caveat_state =
  found_service :: bool
  found_request :: bool
  found_terms :: bool
  found_expiry :: bool
  cav_expiry :: nat
  cav_signature :: string
  cav_satisfied :: "string list"

definition service_caveat :: string where "service_caveat = ''services=geata:0''"
definition request_caveat :: "string \<Rightarrow> string" where "request_caveat hash = ''geata_request='' @ hash"
definition terms_caveat :: "string \<Rightarrow> string" where "terms_caveat trms = ''geata_terms='' @ trms"
definition until_prefix :: string where "until_prefix = ''geata_valid_until=''"
definition preimage_prefix :: string where "preimage_prefix = ''preimage=''"

definition caveat_admit ::
  "string \<Rightarrow> string \<Rightarrow> string \<Rightarrow> nat \<Rightarrow> string \<Rightarrow> caveat_state \<Rightarrow> proof_error + caveat_state" where
  "caveat_admit request trms preimage time predicate c =
     (if predicate = service_caveat then Inr (c\<lparr>found_service := True\<rparr>)
      else if predicate = request_caveat request then Inr (c\<lparr>found_request := True\<rparr>)
      else if predicate = terms_caveat trms then Inr (c\<lparr>found_terms := True\<rparr>)
      else case strip_prefix until_prefix predicate of
             Some v \<Rightarrow>
               bind_result (ensure (v \<noteq> [] \<and> list_all is_ascii_digit v) Bad_caveat) (\<lambda>_.
               bind_result (ok_or Bad_caveat (parse_uint 64 v)) (\<lambda>next.
               bind_result (ensure (next \<le> cav_expiry c \<and> time < next) Bad_caveat) (\<lambda>_.
               Inr (c\<lparr>cav_expiry := next, found_expiry := True\<rparr>))))
           | None \<Rightarrow>
               (case strip_prefix preimage_prefix predicate of
                  Some v \<Rightarrow>
                    bind_result (ensure (decode_hash (to_ascii_lowercase v) = Some preimage) Bad_caveat) (\<lambda>_. Inr c)
                | None \<Rightarrow> Inl Bad_caveat))"

definition caveat_step ::
  "ln_ext \<Rightarrow> string \<Rightarrow> string \<Rightarrow> string \<Rightarrow> nat \<Rightarrow> string \<Rightarrow> caveat_state \<Rightarrow> proof_error + caveat_state" where
  "caveat_step x request trms preimage time predicate c =
     bind_result (ok_or Crypto_failed (hmac_sha256 x (cav_signature c) predicate)) (\<lambda>signature.
     bind_result (ensure (utf8_valid predicate) Bad_caveat) (\<lambda>_.
     bind_result (caveat_admit request trms preimage time predicate c) (\<lambda>c'.
     Inr (c'\<lparr>cav_signature := signature, cav_satisfied := cav_satisfied c @ [predicate]\<rparr>))))"

fun caveat_loop ::
  "ln_ext \<Rightarrow> string \<Rightarrow> string \<Rightarrow> string \<Rightarrow> nat \<Rightarrow> caveat list \<Rightarrow> caveat_state \<Rightarrow> proof_error + caveat_state" where
  "caveat_loop x request trms preimage time [] c = Inr c"
| "caveat_loop x request trms preimage time (Third_party # cs) c = Inl Bad_caveat"
| "caveat_loop x request trms preimage time (First_party predicate # cs) c =
     bind_result (caveat_step x request trms preimage time predicate c)
       (caveat_loop x request trms preimage time cs)"

definition l402_verify ::
  "ln_ext \<Rightarrow> lightning_policy \<Rightarrow> string \<Rightarrow> macaroon \<Rightarrow> string \<Rightarrow> string \<Rightarrow> nat \<Rightarrow> nat \<Rightarrow> proof_error + unit" where
  "l402_verify x p hash m preimage root valid_before time =
     bind_result (ensure (time < valid_before) Credential_expired) (\<lambda>_.
     bind_result (ok_or Crypto_failed (terms x p hash)) (\<lambda>trms.
     bind_result (ok_or Crypto_failed (hmac_sha256 x root (mac_identifier m))) (\<lambda>signature.
     bind_result (caveat_loop x hash trms preimage time (mac_caveats m)
         \<lparr>found_service = False, found_request = False, found_terms = False, found_expiry = False,
          cav_expiry = valid_before, cav_signature = signature, cav_satisfied = []\<rparr>) (\<lambda>c.
     bind_result (ensure (found_service c \<and> found_request c \<and> found_terms c \<and> found_expiry c) Missing_caveat) (\<lambda>_.
     bind_result (ensure (cav_signature c = mac_signature m) Bad_signature) (\<lambda>_.
     ensure (macaroon_verify x m root (cav_satisfied c)) Bad_signature))))))"

section \<open>Lemmas\<close>

lemma validate_invoice_sound:
  assumes "validate_invoice x p hash encoded time grace = Inr i"
  shows "bolt11 x encoded = Some i \<and> inv_signature_ok i \<and> inv_amount_msat i = Some (lp_amount_msat p)
     \<and> inv_created i \<le> time + SKEW \<and> inv_created i + inv_expiry i < 2 ^ 64
     \<and> (time < inv_created i + inv_expiry i \<or> 0 < grace \<and> time \<le> inv_created i + inv_expiry i + grace)
     \<and> inv_currency i = (if receiver_network (lp_receiver p) = MAINNET then Bitcoin else BitcoinTestnet)"
proof -
  obtain e where e: "bolt11 x encoded = Some i" "inv_signature_ok i"
    "inv_currency i = (if receiver_network (lp_receiver p) = MAINNET then Bitcoin else BitcoinTestnet)"
    "inv_amount_msat i = Some (lp_amount_msat p)" "inv_created i \<le> saturating_add 64 time SKEW"
    "checked_add 64 (inv_created i) (inv_expiry i) = Some e" "time < e \<or> 0 < grace \<and> time \<le> saturating_add 64 e grace"
    using assms unfolding validate_invoice_def bind_result_eq_Inr ensure_eq_Inr ok_or_eq_Inr by (elim exE conjE) simp
  have "e = inv_created i + inv_expiry i" "e < 2 ^ 64"
    using e(6) by (auto simp: checked_add_def split: if_splits)
  then show ?thesis using e by (auto simp: saturating_add_def)
qed

lemma validate_invoice_ldk:
  assumes "validate_invoice x p hash encoded time grace = Inr i" "receiver_ldk (lp_receiver p) = Some node"
  shows "inv_payee i = ldk_pay_to node \<and> inv_expiry i = ldk_expiry_seconds node
     \<and> (\<exists>d. decode_hash hash = Some d \<and> inv_description i = Description_hash d)"
proof -
  have "inv_payee i = ldk_pay_to node \<and>
    (case inv_description i of
              Description_hash h \<Rightarrow>
                bind_result (ok_or Wrong_request (decode_hash hash)) (\<lambda>d.
                bind_result (ensure (h = d) Wrong_request) (\<lambda>_.
                ensure (inv_expiry i = ldk_expiry_seconds node) Wrong_expiry))
            | Direct _ \<Rightarrow> Inl Wrong_request) = Inr ()"
    using assms unfolding validate_invoice_def bind_result_eq_Inr by (elim exE conjE) clarsimp
  then show ?thesis by (cases "inv_description i") auto
qed

lemma x402_verify_cases:
  assumes "x402_verify x p hash encoded time = Inr (key, h, retain)"
  obtains node pay i pre where "receiver_ldk (lp_receiver p) = Some node" "length encoded \<le> MAX_PAYMENT_HEADER"
    "Option.bind (base64_decode x encoded) (payment_json x) = Some pay" "pay_version pay = 2"
    "normalize (pay_accepted pay) = requirements_of p hash (x_invoice (r_extra (pay_accepted pay)))"
    "validate_invoice x p hash (x_invoice (r_extra (pay_accepted pay))) time SKEW = Inr i"
    "decode_hash (pay_preimage pay) = Some pre" "sha256 x pre = inv_payment_hash i"
    "key = settlement_key p (inv_payment_hash i)" "h = hex (inv_payment_hash i)" "retain = x402_retention i"
  using assms unfolding x402_verify_def bind_result_eq_Inr ensure_eq_Inr ok_or_eq_Inr Let_def
  by (elim exE conjE) (simp add: not_None_eq, blast)

section \<open>x402 payments\<close>

text \<open>C5: An x402 payment that verifies is a payment for this request at this price. The header decodes to
  a version 2 payment that accepts exactly the terms of the policy for this request. The invoice in
  it is one the configured node signed, for the policy's amount and network, with the hash of this very
  request as its description; the preimage in it hashes to the payment hash of that invoice. The
  invoice was not created more than a minute in the future and ended at most a minute ago, and the key
  that is claimed names its payment hash.\<close>

theorem x402_verify_sound:
  assumes "x402_verify x p hash encoded time = Inr (key, h, retain)"
  shows "\<exists>bytes pay i node pre. length encoded \<le> 24576 \<and> base64_decode x encoded = Some bytes \<and> payment_json x bytes = Some pay
     \<and> pay_version pay = 2 \<and> normalize (pay_accepted pay) = requirements_of p hash (x_invoice (r_extra (pay_accepted pay)))
     \<and> bolt11 x (x_invoice (r_extra (pay_accepted pay))) = Some i
     \<and> decode_hash (pay_preimage pay) = Some pre \<and> sha256 x pre = inv_payment_hash i
     \<and> receiver_ldk (lp_receiver p) = Some node \<and> inv_signature_ok i \<and> inv_payee i = ldk_pay_to node
     \<and> inv_amount_msat i = Some (lp_amount_msat p)
     \<and> inv_currency i = (if receiver_network (lp_receiver p) = MAINNET then Bitcoin else BitcoinTestnet)
     \<and> (\<exists>d. decode_hash hash = Some d \<and> inv_description i = Description_hash d)
     \<and> inv_created i \<le> time + 60 \<and> time \<le> inv_created i + inv_expiry i + 60
     \<and> key = receiver_network (lp_receiver p) @ '':'' @ hex (inv_payment_hash i) \<and> h = hex (inv_payment_hash i)"
proof -
  obtain node i pre and pay :: payment where c: "receiver_ldk (lp_receiver p) = Some node" "length encoded \<le> MAX_PAYMENT_HEADER"
    "Option.bind (base64_decode x encoded) (payment_json x) = Some pay" "pay_version pay = 2"
    "normalize (pay_accepted pay) = requirements_of p hash (x_invoice (r_extra (pay_accepted pay)))"
    "validate_invoice x p hash (x_invoice (r_extra (pay_accepted pay))) time SKEW = Inr i"
    "decode_hash (pay_preimage pay) = Some pre" "sha256 x pre = inv_payment_hash i"
    "key = settlement_key p (inv_payment_hash i)" "h = hex (inv_payment_hash i)"
    by (rule x402_verify_cases [OF assms]) blast
  obtain bytes where "base64_decode x encoded = Some bytes" "payment_json x bytes = Some pay"
    using c(3) by (auto simp: bind_eq_Some_conv)
  then show ?thesis
    using c validate_invoice_sound [OF c(6)] validate_invoice_ldk [OF c(6,1)]
    by (intro exI [of _ bytes] exI [of _ pay] exI [of _ i] exI [of _ node] exI [of _ pre])
      (auto simp: settlement_key_def SKEW_def MAX_PAYMENT_HEADER_def)
qed

text \<open>The replay barrier of an x402 payment outlives the payment: at whatever moment the payment still
  verifies, the entry the settlement writes is kept for at least another hour.\<close>

lemma x402_retention_outlives:
  assumes "x402_verify x p hash encoded time = Inr (key, h, retain)" and "time + 3600 < 2 ^ 64"
  shows "time + 3600 \<le> retain"
proof -
  obtain i and pay :: payment where c:
    "validate_invoice x p hash (x_invoice (r_extra (pay_accepted pay))) time SKEW = Inr i" "retain = x402_retention i"
    by (rule x402_verify_cases [OF assms(1)]) blast
  show ?thesis
    using validate_invoice_sound [OF c(1)] assms(2) by (auto simp: c(2) x402_retention_def saturating_add_def SKEW_def)
qed

section \<open>Request binding\<close>

text \<open>The texts that are hashed to bind a request, finitely many: its body, the JSON of the values of every
  bound header and the JSON of its binding.\<close>

definition hashed_texts :: "ln_ext \<Rightarrow> lightning_policy \<Rightarrow> string \<Rightarrow> string \<Rightarrow> header_map \<Rightarrow> string \<Rightarrow> string set" where
  "hashed_texts x p mthd url headers body =
     {body} \<union> {j. \<exists>name\<in>set (lp_headers p). values_json x (get_all headers name) = Some j}
     \<union> {j. \<exists>bound. bind_headers x headers (lp_headers p) = Some bound
            \<and> binding_json x (''x402:exact:lnbtc:bolt11:'' @ binding_profile p) mthd url (digest x body) bound = Some j}"

lemma hashed_texts_finite: "finite (hashed_texts x p mthd url headers body)"
proof -
  have v: "{j. \<exists>name\<in>set (lp_headers p). values_json x (get_all headers name) = Some j}
      \<subseteq> the ` (\<lambda>name. values_json x (get_all headers name)) ` set (lp_headers p)"
    by force
  have b: "{j. \<exists>bound. bind_headers x headers (lp_headers p) = Some bound
            \<and> binding_json x (''x402:exact:lnbtc:bolt11:'' @ binding_profile p) mthd url (digest x body) bound = Some j}
      \<subseteq> {the (binding_json x (''x402:exact:lnbtc:bolt11:'' @ binding_profile p) mthd url (digest x body)
            (the (bind_headers x headers (lp_headers p))))}"
    by auto
  show ?thesis
    unfolding hashed_texts_def using finite_subset [OF v] finite_subset [OF b] by simp
qed

lemma digest_inj: "inj_on (sha256 x) T \<Longrightarrow> a \<in> T \<Longrightarrow> b \<in> T \<Longrightarrow> digest x a = digest x b \<Longrightarrow> a = b"
  unfolding digest_def by (blast dest: hex_inj inj_onD)

lemma bind_headers_inj:
  assumes sha: "inj_on (sha256 x) T"
    and vals: "\<forall>v w j. values_json x v = Some j \<and> values_json x w = Some j \<longrightarrow> v = w"
    and "bind_headers x hs names = Some bound" "bind_headers x hs' names = Some bound" "name \<in> set names"
    and "\<forall>n\<in>set names. \<forall>j. values_json x (get_all hs n) = Some j \<or> values_json x (get_all hs' n) = Some j \<longrightarrow> j \<in> T"
  shows "get_all hs name = get_all hs' name"
  using assms(3-6)
proof (induction names arbitrary: bound)
  case (Cons n names)
  obtain j rest j' rest' where b: "values_json x (get_all hs n) = Some j" "bind_headers x hs names = Some rest"
    "values_json x (get_all hs' n) = Some j'" "bind_headers x hs' names = Some rest'"
    "bound = (n, digest x j) # rest" "bound = (n, digest x j') # rest'"
    using Cons.prems(1,2) by (auto split: if_splits option.splits)
  have "j \<in> T" "j' \<in> T" using Cons.prems(4) b(1,3) by auto
  then have "j = j'" using digest_inj [OF sha] b(5,6) by simp
  then have "get_all hs n = get_all hs' n" using vals b(1,3) by blast
  then show ?case using Cons.IH [of rest] Cons.prems(3,4) b by auto
qed simp

text \<open>C7: A request hash binds the request. If SHA-256 does not collide on the texts hashed for the two requests
  and JSON texts determine what they encode, then two requests to a site with the same hash have the
  same method, URL and body, and the same values, in the same order, of every bound header: a payment
  for one cannot be used for the other.\<close>

theorem request_hash_binds:
  assumes sha: "inj_on (sha256 x) (hashed_texts x p mthd url headers body \<union> hashed_texts x p mthd' url' headers' body')"
    and vals: "\<forall>v w j. values_json x v = Some j \<and> values_json x w = Some j \<longrightarrow> v = w"
    and obj: "\<forall>d m u b h d' m' u' b' h' j. binding_json x d m u b h = Some j \<and> binding_json x d' m' u' b' h' = Some j
        \<longrightarrow> d = d' \<and> m = m' \<and> u = u' \<and> b = b' \<and> h = h'"
    and "request_hash x p mthd url headers body = Some k" "request_hash x p mthd' url' headers' body' = Some k"
  shows "mthd = mthd' \<and> url = url' \<and> body = body' \<and> (\<forall>name\<in>set (lp_headers p). get_all headers name = get_all headers' name)"
proof -
  let ?d = "''x402:exact:lnbtc:bolt11:'' @ binding_profile p"
  let ?T = "hashed_texts x p mthd url headers body \<union> hashed_texts x p mthd' url' headers' body'"
  obtain hs j hs' j' where b: "bind_headers x headers (lp_headers p) = Some hs"
    "binding_json x ?d mthd url (digest x body) hs = Some j" "bind_headers x headers' (lp_headers p) = Some hs'"
    "binding_json x ?d mthd' url' (digest x body') hs' = Some j'" "k = digest x j" "k = digest x j'"
    using assms(4,5) by (auto simp: request_hash_def split: if_splits option.splits)
  have "j \<in> ?T" "j' \<in> ?T" using b(1-4) unfolding hashed_texts_def by blast+
  then have "j = j'" using digest_inj [OF sha] b(5,6) by simp
  then have e: "mthd = mthd'" "url = url'" "digest x body = digest x body'" "hs = hs'"
    using obj [rule_format, OF conjI [OF b(2)], of ?d mthd' url' "digest x body'" hs'] b(4) by simp_all
  have body: "body = body'" by (rule digest_inj [OF sha _ _ e(3)]) (simp_all add: hashed_texts_def)
  have vt: "\<forall>n\<in>set (lp_headers p). \<forall>j. values_json x (get_all headers n) = Some j \<or> values_json x (get_all headers' n) = Some j \<longrightarrow> j \<in> ?T"
    unfolding hashed_texts_def by blast
  have "get_all headers n = get_all headers' n" if "n \<in> set (lp_headers p)" for n
    by (rule bind_headers_inj [OF sha vals b(1) _ that vt]) (simp add: b(3) e(4))
  then show ?thesis using e(1,2) body by blast
qed

section \<open>L402 credentials\<close>

fun hmac_chain :: "ln_ext \<Rightarrow> string \<Rightarrow> string list \<Rightarrow> string option" where
  "hmac_chain x key [] = Some key"
| "hmac_chain x key (p # ps) = Option.bind (hmac_sha256 x key p) (\<lambda>k. hmac_chain x k ps)"

definition until_ok :: "nat \<Rightarrow> nat \<Rightarrow> string \<Rightarrow> bool" where
  "until_ok time limit predicate \<longleftrightarrow>
     (\<forall>v. predicate = until_prefix @ v \<longrightarrow> (\<exists>n. parse_uint 64 v = Some n \<and> time < n \<and> n \<le> limit))"

lemma other_prefix: "service_caveat \<noteq> until_prefix @ v" "request_caveat r \<noteq> until_prefix @ v" "terms_caveat t \<noteq> until_prefix @ v"
  by (simp_all add: service_caveat_def request_caveat_def terms_caveat_def until_prefix_def)

lemma caveat_step_sound:
  assumes "caveat_step x request trms preimage time predicate c = Inr c'"
  shows "hmac_sha256 x (cav_signature c) predicate = Some (cav_signature c') \<and> cav_satisfied c' = cav_satisfied c @ [predicate]
     \<and> cav_expiry c' \<le> cav_expiry c \<and> until_ok time (cav_expiry c) predicate
     \<and> (found_service c' \<longrightarrow> found_service c \<or> predicate = service_caveat)
     \<and> (found_request c' \<longrightarrow> found_request c \<or> predicate = request_caveat request)
     \<and> (found_terms c' \<longrightarrow> found_terms c \<or> predicate = terms_caveat trms)
     \<and> (found_expiry c' \<longrightarrow> found_expiry c \<or> (\<exists>v. predicate = until_prefix @ v))"
proof -
  obtain signature c1 where s: "hmac_sha256 x (cav_signature c) predicate = Some signature"
    "caveat_admit request trms preimage time predicate c = Inr c1"
    "Inr (c1\<lparr>cav_signature := signature, cav_satisfied := cav_satisfied c @ [predicate]\<rparr>) = (Inr c' :: proof_error + caveat_state)"
    using assms unfolding caveat_step_def bind_result_eq_Inr ok_or_eq_Inr by (elim exE conjE)
  have c': "c' = c1\<lparr>cav_signature := signature, cav_satisfied := cav_satisfied c @ [predicate]\<rparr>"
    using s(3) by simp
  have "predicate = service_caveat \<and> c1 = c\<lparr>found_service := True\<rparr>
    \<or> predicate = request_caveat request \<and> c1 = c\<lparr>found_request := True\<rparr>
    \<or> predicate = terms_caveat trms \<and> c1 = c\<lparr>found_terms := True\<rparr>
    \<or> (\<exists>v n. strip_prefix until_prefix predicate = Some v \<and> parse_uint 64 v = Some n \<and> n \<le> cav_expiry c \<and> time < n
        \<and> c1 = c\<lparr>cav_expiry := n, found_expiry := True\<rparr>)
    \<or> strip_prefix until_prefix predicate = None \<and> c1 = c"
    using s(2) unfolding caveat_admit_def by (simp split: if_split_asm option.split_asm) auto
  then consider (a) "predicate = service_caveat" "c1 = c\<lparr>found_service := True\<rparr>"
    | (b) "predicate = request_caveat request" "c1 = c\<lparr>found_request := True\<rparr>"
    | (t) "predicate = terms_caveat trms" "c1 = c\<lparr>found_terms := True\<rparr>"
    | (u) v n where "predicate = until_prefix @ v" "parse_uint 64 v = Some n" "n \<le> cav_expiry c" "time < n"
        "c1 = c\<lparr>cav_expiry := n, found_expiry := True\<rparr>"
    | (pre) "strip_prefix until_prefix predicate = None" "c1 = c"
    unfolding strip_prefix_eq_Some by (elim disjE exE conjE)
  then show ?thesis
  proof cases
    case pre
    then have "until_ok time (cav_expiry c) predicate"
      using strip_prefix_eq_Some [of "until_prefix" predicate] by (auto simp: until_ok_def)
    then show ?thesis using pre s(1) c' by simp
  next
    case a
    then show ?thesis using s(1) c' other_prefix by (simp add: until_ok_def)
  next
    case b
    then show ?thesis using s(1) c' other_prefix by (simp add: until_ok_def)
  next
    case t
    then show ?thesis using s(1) c' other_prefix by (simp add: until_ok_def)
  next
    case u
    then show ?thesis using s(1) c' by (simp add: until_ok_def)
  qed
qed

lemma until_ok_mono: "until_ok time limit p \<Longrightarrow> limit \<le> limit' \<Longrightarrow> until_ok time limit' p"
  unfolding until_ok_def by (blast intro: order_trans)

lemma caveat_loop_sound:
  "caveat_loop x request trms preimage time cs c = Inr c' \<Longrightarrow>
     \<exists>ps. cs = map First_party ps \<and> hmac_chain x (cav_signature c) ps = Some (cav_signature c')
       \<and> cav_satisfied c' = cav_satisfied c @ ps \<and> (\<forall>p\<in>set ps. until_ok time (cav_expiry c) p)
       \<and> (found_service c' \<longrightarrow> found_service c \<or> service_caveat \<in> set ps)
       \<and> (found_request c' \<longrightarrow> found_request c \<or> request_caveat request \<in> set ps)
       \<and> (found_terms c' \<longrightarrow> found_terms c \<or> terms_caveat trms \<in> set ps)
       \<and> (found_expiry c' \<longrightarrow> found_expiry c \<or> (\<exists>v. until_prefix @ v \<in> set ps))"
proof (induction x request trms preimage time cs c rule: caveat_loop.induct)
  case (3 x request trms preimage time predicate cs c)
  obtain c1 where c1: "caveat_step x request trms preimage time predicate c = Inr c1"
    "caveat_loop x request trms preimage time cs c1 = Inr c'"
    using 3(2) by auto
  note step = caveat_step_sound [OF c1(1)]
  obtain ps where ps: "cs = map First_party ps" "hmac_chain x (cav_signature c1) ps = Some (cav_signature c')"
       "cav_satisfied c' = cav_satisfied c1 @ ps" "\<forall>p\<in>set ps. until_ok time (cav_expiry c1) p"
       "found_service c' \<longrightarrow> found_service c1 \<or> service_caveat \<in> set ps"
       "found_request c' \<longrightarrow> found_request c1 \<or> request_caveat request \<in> set ps"
       "found_terms c' \<longrightarrow> found_terms c1 \<or> terms_caveat trms \<in> set ps"
       "found_expiry c' \<longrightarrow> found_expiry c1 \<or> (\<exists>v. until_prefix @ v \<in> set ps)"
    using 3(1) [OF c1(2)] by (elim exE conjE)
  have "\<forall>p\<in>set ps. until_ok time (cav_expiry c) p"
    using ps(4) step until_ok_mono by blast
  then have until: "\<forall>p\<in>set (predicate # ps). until_ok time (cav_expiry c) p" using step by simp
  show ?case
  proof (intro exI [of _ "predicate # ps"] conjI until)
    show "found_service c' \<longrightarrow> found_service c \<or> service_caveat \<in> set (predicate # ps)" using step ps(5) by fastforce
    show "found_request c' \<longrightarrow> found_request c \<or> request_caveat request \<in> set (predicate # ps)" using step ps(6) by fastforce
    show "found_terms c' \<longrightarrow> found_terms c \<or> terms_caveat trms \<in> set (predicate # ps)" using step ps(7) by fastforce
    show "found_expiry c' \<longrightarrow> found_expiry c \<or> (\<exists>v. until_prefix @ v \<in> set (predicate # ps))" using step ps(8) by fastforce
  qed (use ps(1-3) step in simp_all)
qed auto

text \<open>C6: An L402 credential that verifies is one the gateway minted, used as minted or restricted further.
  Its signature is the HMAC chain of the stored root over its identifier and all its caveats, all of
  them first-party; among them are the service, the hash of this very request, the digest of the
  policy's current terms and an expiry; every expiry in it is in the future and none is later than
  the stored one.\<close>

theorem l402_verify_sound:
  assumes "l402_verify x p hash m preimage root valid_before time = Inr ()"
  shows "\<exists>ps trms key. mac_caveats m = map First_party ps \<and> terms x p hash = Some trms
     \<and> hmac_sha256 x root (mac_identifier m) = Some key \<and> hmac_chain x key ps = Some (mac_signature m)
     \<and> ''services=geata:0'' \<in> set ps \<and> ''geata_request='' @ hash \<in> set ps \<and> ''geata_terms='' @ trms \<in> set ps
     \<and> (\<exists>v. ''geata_valid_until='' @ v \<in> set ps) \<and> time < valid_before
     \<and> (\<forall>v. ''geata_valid_until='' @ v \<in> set ps \<longrightarrow> (\<exists>n. parse_uint 64 v = Some n \<and> time < n \<and> n \<le> valid_before))"
proof -
  let ?c = "\<lambda>key. \<lparr>found_service = False, found_request = False, found_terms = False, found_expiry = False,
          cav_expiry = valid_before, cav_signature = key, cav_satisfied = []\<rparr>"
  obtain trms key c where c: "time < valid_before" "terms x p hash = Some trms"
    "hmac_sha256 x root (mac_identifier m) = Some key"
    "caveat_loop x hash trms preimage time (mac_caveats m) (?c key) = Inr c"
    "found_service c \<and> found_request c \<and> found_terms c \<and> found_expiry c" "cav_signature c = mac_signature m"
    using assms unfolding l402_verify_def bind_result_eq_Inr ensure_eq_Inr ok_or_eq_Inr by (elim exE conjE) simp
  obtain ps where ps: "mac_caveats m = map First_party ps" "hmac_chain x key ps = Some (cav_signature c)"
    "\<forall>p\<in>set ps. until_ok time valid_before p" "service_caveat \<in> set ps" "request_caveat hash \<in> set ps"
    "terms_caveat trms \<in> set ps" "\<exists>v. until_prefix @ v \<in> set ps"
    using caveat_loop_sound [OF c(4)] c(5) by (elim exE conjE) simp
  have "\<exists>n. parse_uint 64 v = Some n \<and> time < n \<and> n \<le> valid_before" if "until_prefix @ v \<in> set ps" for v
    using ps(3) that unfolding until_ok_def by blast
  then have "\<exists>ps trms key. mac_caveats m = map First_party ps \<and> terms x p hash = Some trms
     \<and> hmac_sha256 x root (mac_identifier m) = Some key \<and> hmac_chain x key ps = Some (mac_signature m)
     \<and> service_caveat \<in> set ps \<and> request_caveat hash \<in> set ps \<and> terms_caveat trms \<in> set ps
     \<and> (\<exists>v. until_prefix @ v \<in> set ps) \<and> time < valid_before
     \<and> (\<forall>v. until_prefix @ v \<in> set ps \<longrightarrow> (\<exists>n. parse_uint 64 v = Some n \<and> time < n \<and> n \<le> valid_before))"
    using c(1-3) ps(1,4-7) ps(2) [unfolded c(6)] by blast
  then show ?thesis
    unfolding service_caveat_def request_caveat_def terms_caveat_def until_prefix_def .
qed

section \<open>Witnesses\<close>

lemma decode_hash_hex: "length bs = 32 \<Longrightarrow> decode_hash (hex bs) = Some bs"
  by (simp add: decode_hash_def decode_pairs_hex lowercase_hex_hex)

definition demo_preimage :: string where "demo_preimage = replicate 32 CHR ''a''"

definition demo_ldk :: ldk_receiver_config where
  "demo_ldk = \<lparr>ldk_endpoint = ''https://n'', ldk_macaroon_file = ''/m'', ldk_tls_cert_file = ''/c'', ldk_pay_to = ''02'',
     ldk_network = MAINNET, ldk_expiry_seconds = 300\<rparr>"

definition demo_x402 :: lightning_policy where
  "demo_x402 = \<lparr>lp_amount_msat = 21000, lp_receiver = Ldk demo_ldk, lp_origin = ''https://a'', lp_headers = [''cookie''],
     lp_protocols = protocols_default\<rparr>"

definition demo_invoice :: invoice where
  "demo_invoice = \<lparr>inv_signature_ok = True, inv_payee = ''02'', inv_currency = Bitcoin, inv_amount_msat = Some 21000,
     inv_description = Description_hash demo_preimage, inv_created = 1000, inv_expiry = 300, inv_payment_hash = demo_preimage\<rparr>"

definition demo_payment :: payment where
  "demo_payment = \<lparr>pay_version = 2, pay_accepted = requirements_of demo_x402 (hex demo_preimage) ''lnbc1'',
     pay_preimage = hex demo_preimage\<rparr>"

definition demo_root :: string where "demo_root = replicate 32 CHR ''k''"

definition demo_macaroon :: macaroon where
  "demo_macaroon = \<lparr>mac_identifier = ''id'',
     mac_caveats = map First_party [service_caveat, request_caveat ''h'', terms_caveat (hex ''t''), until_prefix @ show_nat 1361],
     mac_signature = ''''\<rparr>"

text \<open>A stand-in for the other crates: the identity as hash, an encoding of JSON values by their number.\<close>

definition demo_ln :: ln_ext where
  "demo_ln = \<lparr>sha256 = (\<lambda>s. s), hmac_sha256 = (\<lambda>_ _. Some ''''), base64_decode = Some,
     payment_json = (\<lambda>s. if s = ''pay'' then Some demo_payment else None),
     values_json = (\<lambda>vs. Some (show_nat (to_nat vs))),
     binding_json = (\<lambda>d m u b hs. Some (show_nat (to_nat (d, m, u, b, hs)))),
     terms_json = (\<lambda>_ _. Some ''t''),
     bolt11 = (\<lambda>s. if s = ''lnbc1'' then Some demo_invoice else None),
     macaroon_parse = (\<lambda>_. None), macaroon_verify = (\<lambda>_ _ _. True)\<rparr>"

lemma show_nat_inj: "show_nat a = show_nat b \<longleftrightarrow> a = b"
  by (metis digits_val_show_nat option.inject)

lemma demo_x402_verify:
  "x402_verify demo_ln demo_x402 (hex demo_preimage) ''pay'' 1310
     = Inr (settlement_key demo_x402 demo_preimage, hex demo_preimage, 4960)"
proof -
  have v: "validate_invoice demo_ln demo_x402 (hex demo_preimage) ''lnbc1'' 1310 SKEW = Inr demo_invoice"
    by (simp add: validate_invoice_def demo_ln_def demo_invoice_def demo_x402_def demo_ldk_def SKEW_def saturating_add_def
        checked_add_def decode_hash_hex demo_preimage_def)
  have r: "receiver_ldk (lp_receiver demo_x402) \<noteq> None" by (simp add: demo_x402_def)
  have i: "inv_payment_hash demo_invoice = demo_preimage" "x402_retention demo_invoice = 4960"
    by (simp_all add: demo_invoice_def x402_retention_def saturating_add_def SKEW_def)
  have n: "normalize (requirements_of q h e) = requirements_of q h e" "x_invoice (r_extra (requirements_of q h e)) = e" for q h e
    by (simp_all add: normalize_def requirements_of_def)
  have p: "pay_version demo_payment = 2" "pay_accepted demo_payment = requirements_of demo_x402 (hex demo_preimage) ''lnbc1''"
    "decode_hash (pay_preimage demo_payment) = Some demo_preimage"
    by (simp_all add: demo_payment_def demo_preimage_def decode_hash_hex)
  have l: "Option.bind (base64_decode demo_ln ''pay'') (payment_json demo_ln) = Some demo_payment" "sha256 demo_ln t = t" for t
    by (simp_all add: demo_ln_def)
  have m: "length ''pay'' \<le> MAX_PAYMENT_HEADER" by (simp add: MAX_PAYMENT_HEADER_def)
  show ?thesis
    using r m by (simp add: x402_verify_def i l p n v)
qed

theorem x402_verify_sound_witness:
  "\<exists>k h r. x402_verify demo_ln demo_x402 (hex demo_preimage) ''pay'' 1310 = Inr (k, h, r) \<and> (\<exists>d. decode_hash (hex demo_preimage) = Some d)"
  using x402_verify_sound [OF demo_x402_verify] demo_x402_verify by blast

text \<open>A hash of 32 bytes that collides elsewhere, but not on the texts of the two requests compared.\<close>

definition demo_binding_text :: "string \<Rightarrow> string" where
  "demo_binding_text mthd = CHR ''b'' # show_nat (to_nat (''x402:exact:lnbtc:bolt11:'' @ binding_profile demo_x402, mthd, ''https://a/x'',
     hex (replicate 32 CHR ''0''), [(''cookie'', hex (replicate 32 CHR ''1''))]))"

definition demo_hash_ln :: ln_ext where
  "demo_hash_ln = demo_ln\<lparr>
     sha256 := (\<lambda>s. replicate 32 (case s of [] \<Rightarrow> CHR ''0'' | c # _ \<Rightarrow> if c = CHR ''v'' then CHR ''1''
       else if s = demo_binding_text ''GET'' then CHR ''2'' else CHR ''3'')),
     values_json := (\<lambda>vs. Some (CHR ''v'' # show_nat (to_nat vs))),
     binding_json := (\<lambda>d m u b hs. Some (CHR ''b'' # show_nat (to_nat (d, m, u, b, hs))))\<rparr>"

lemma demo_hash_texts:
  "hashed_texts demo_hash_ln demo_x402 m ''https://a/x'' [(''cookie'', ''c=1'')] []
     = {[], CHR ''v'' # show_nat (to_nat [''c=1'']), demo_binding_text m}"
  "request_hash demo_hash_ln demo_x402 m ''https://a/x'' [(''cookie'', ''c=1'')] []
     = Some (hex (sha256 demo_hash_ln (demo_binding_text m)))"
proof -
  have h: "lp_headers demo_x402 = [''cookie'']" "get_all [(''cookie'', ''c=1'')] ''cookie'' = [''c=1'']" "lp_origin demo_x402 = ''https://a''"
    by (simp_all add: demo_x402_def get_all_def)
  have v: "values_json demo_hash_ln vs = Some (CHR ''v'' # show_nat (to_nat vs))"
    "digest demo_hash_ln (CHR ''v'' # t) = hex (replicate 32 CHR ''1'')" "digest demo_hash_ln [] = hex (replicate 32 CHR ''0'')"
    "binding_json demo_hash_ln d m u b hs = Some (CHR ''b'' # show_nat (to_nat (d, m, u, b, hs)))" for vs t d m u b hs
    by (simp_all add: demo_hash_ln_def digest_def)
  have b: "bind_headers demo_hash_ln [(''cookie'', ''c=1'')] [''cookie''] = Some [(''cookie'', hex (replicate 32 CHR ''1''))]"
    by (simp add: h v header_text_ok_def)
  show "hashed_texts demo_hash_ln demo_x402 m ''https://a/x'' [(''cookie'', ''c=1'')] []
      = {[], CHR ''v'' # show_nat (to_nat [''c=1'']), demo_binding_text m}"
    unfolding hashed_texts_def h(1) b by (auto simp: h(2) v demo_binding_text_def)
  show "request_hash demo_hash_ln demo_x402 m ''https://a/x'' [(''cookie'', ''c=1'')] []
      = Some (hex (sha256 demo_hash_ln (demo_binding_text m)))"
    unfolding request_hash_def h(1,3) b digest_def [symmetric] by (simp add: v is_ascii_def demo_binding_text_def)
qed

theorem request_hash_binds_witness:
  "(\<forall>s. length (sha256 demo_hash_ln s) = 32)
   \<and> request_hash demo_hash_ln demo_x402 ''GET'' ''https://a/x'' [(''cookie'', ''c=1'')] []
     \<noteq> request_hash demo_hash_ln demo_x402 ''POST'' ''https://a/x'' [(''cookie'', ''c=1'')] []"
proof (intro conjI notI)
  show "\<forall>s. length (sha256 demo_hash_ln s) = 32" by (simp add: demo_hash_ln_def)
  let ?h = "\<lambda>m. request_hash demo_hash_ln demo_x402 m ''https://a/x'' [(''cookie'', ''c=1'')] []"
  assume e: "?h ''GET'' = ?h ''POST''"
  have ne: "demo_binding_text ''GET'' \<noteq> demo_binding_text ''POST''" by (simp add: demo_binding_text_def show_nat_inj)
  have j: "inj_on (sha256 demo_hash_ln) (hashed_texts demo_hash_ln demo_x402 ''GET'' ''https://a/x'' [(''cookie'', ''c=1'')] []
      \<union> hashed_texts demo_hash_ln demo_x402 ''POST'' ''https://a/x'' [(''cookie'', ''c=1'')] [])"
  proof -
    obtain t where t: "demo_binding_text ''GET'' = CHR ''b'' # t" by (simp add: demo_binding_text_def)
    obtain u where u: "demo_binding_text ''POST'' = CHR ''b'' # u" by (simp add: demo_binding_text_def)
    show ?thesis using ne unfolding demo_hash_texts t u by (simp add: inj_on_def demo_hash_ln_def t u)
  qed
  have v: "\<forall>v w j. values_json demo_hash_ln v = Some j \<and> values_json demo_hash_ln w = Some j \<longrightarrow> v = w"
    and o: "\<forall>d m u b h d' m' u' b' h' j. binding_json demo_hash_ln d m u b h = Some j \<and> binding_json demo_hash_ln d' m' u' b' h' = Some j
        \<longrightarrow> d = d' \<and> m = m' \<and> u = u' \<and> b = b' \<and> h = h'"
    by (auto simp: demo_hash_ln_def show_nat_inj)
  have "''GET'' = ''POST''"
    by (rule conjunct1 [OF request_hash_binds [OF j v o demo_hash_texts(2) e [symmetric, unfolded demo_hash_texts(2) [of "''GET''"]]]])
  then show False by simp
qed

lemma demo_l402_verify: "l402_verify demo_ln demo_x402 ''h'' demo_macaroon demo_preimage demo_root 1361 1310 = Inr ()"
proof -
  have a: "list_all is_ascii (show_nat n)" for n
    using show_nat_digits [of n] by (auto simp: list_all_iff is_ascii_digit_def is_ascii_def)
  have u: "utf8_valid service_caveat" "utf8_valid (request_caveat ''h'')" "utf8_valid (terms_caveat (hex ''t''))"
    "utf8_valid (until_prefix @ show_nat 1361)"
    by (rule utf8_valid_ascii; simp add: a service_caveat_def request_caveat_def terms_caveat_def until_prefix_def is_ascii_def
        hex_def hex_digit_def)+
  have p: "parse_uint 64 (show_nat 1361) = Some 1361" by (rule parse_uint_show_nat) simp
  have d: "service_caveat \<noteq> request_caveat h" "service_caveat \<noteq> terms_caveat t" "request_caveat h \<noteq> terms_caveat t"
    "request_caveat h \<noteq> service_caveat" "terms_caveat t \<noteq> service_caveat" "terms_caveat t \<noteq> request_caveat h"
    "until_prefix @ v \<noteq> service_caveat" "until_prefix @ v \<noteq> request_caveat h" "until_prefix @ v \<noteq> terms_caveat t" for h t v
    by (simp_all add: service_caveat_def request_caveat_def terms_caveat_def until_prefix_def)
  have s: "strip_prefix until_prefix (until_prefix @ v) = Some v" for v by (simp add: strip_prefix_eq_Some)
  have h: "hmac_sha256 demo_ln k b = Some ''''" "terms demo_ln demo_x402 ''h'' = Some (hex ''t'')" "macaroon_verify demo_ln m r ps" for k b m r ps
    by (simp_all add: demo_ln_def terms_def digest_def)
  show ?thesis
    by (simp add: l402_verify_def demo_macaroon_def caveat_step_def caveat_admit_def u d s p h show_nat_digits)
qed

theorem l402_verify_sound_witness:
  "l402_verify demo_ln demo_x402 ''h'' demo_macaroon demo_preimage demo_root 1361 1310 = Inr () \<and>
   (\<exists>ps. mac_caveats demo_macaroon = map First_party ps \<and> ''geata_request='' @ ''h'' \<in> set ps)"
  using l402_verify_sound [OF demo_l402_verify] demo_l402_verify by blast

end
