(* ===== verification/Ledger.thy ===== *)
theory Ledger
  imports Rust_Text
begin

text \<open>
  The durable admission journal of \<^verbatim>\<open>src/crates/geata/src/payments/ledger.rs\<close>. The tables' contents
  are finite maps; what the redb database can do to a transaction is the parameter \<open>tx_env\<close>:
  which call fails, and whether a commit that reports an error reached the disk all the same.
  The theorems hold for every such behaviour, which is also what a crash looks like to the next
  process. Admission is the locale \<open>single_use\<close>, interpreted on the journal's operations.
\<close>

section \<open>Transactions\<close>

datatype tx_call = Create | Begin_write | Begin_read | Set_durability | Open_table string
  | Get | Insert | Remove | Retain | Is_empty | Count | Iterate | Commit | Sync_directory | Join

record tx_env =
  tx_fails :: "tx_call \<Rightarrow> bool"
  commit_persists :: bool

text \<open>A write transaction: a failing step drops the transaction and changes nothing; a failing
  commit changes nothing or everything.\<close>

definition write_tx :: "tx_env \<Rightarrow> 'e \<Rightarrow> ('db \<Rightarrow> 'e + 'a \<times> 'db) \<Rightarrow> 'db \<Rightarrow> ('e + 'a) \<times> 'db" where
  "write_tx env err body db =
     (if tx_fails env Begin_write \<or> tx_fails env Set_durability then (Inl err, db)
      else (case body db of
              Inl e \<Rightarrow> (Inl e, db)
            | Inr (a, db') \<Rightarrow>
                if tx_fails env Commit then (Inl err, if commit_persists env then db' else db)
                else (Inr a, db')))"

text \<open>\<^verbatim>\<open>Ledger::run\<close>: the operation runs to its end on a blocking thread, and joining that thread
  may fail afterwards.\<close>

definition blocking :: "tx_env \<Rightarrow> 'e \<Rightarrow> ('e + 'a) \<times> 'db \<Rightarrow> ('e + 'a) \<times> 'db" where
  "blocking env err result = (if tx_fails env Join then (Inl err, snd result) else result)"

lemma write_tx_cases:
  assumes "write_tx env err body db = (r, db')"
  obtains "db' = db" "\<And>a. r \<noteq> Inr a"
  | a db1 where "body db = Inr (a, db1)" "db' = db \<or> db' = db1" "\<And>b. r \<noteq> Inr b"
  | a where "body db = Inr (a, db')" "r = Inr a"
  using assms by (auto simp: write_tx_def split: if_splits sum.splits)

text \<open>What a transaction keeps: if its body keeps it, then every outcome does.\<close>

lemma blocking_write_tx_keeps:
  assumes "blocking env err (write_tx env err body db) = (r, db')" "Q db"
    and "\<And>a db1. body db = Inr (a, db1) \<Longrightarrow> Q db1"
  shows "Q db'"
  using assms by (auto simp: blocking_def write_tx_def split: if_splits sum.splits)

lemma blocking_write_tx_Inr:
  assumes "blocking env err (write_tx env err body db) = (Inr a, db')"
  shows "body db = Inr (a, db')"
  using assms by (auto simp: blocking_def write_tx_def split: if_splits sum.splits)

section \<open>The journal\<close>

record ledger =
  ledger_version :: "nat option"
  payments_v1 :: "(string, string \<times> nat \<times> bool) fmap"
  payout_v1 :: "string option"

datatype reservation = New | Pending | Claimed | Mismatch

datatype ledger_error = Storage_failed | Unsupported_version | Unversioned_not_empty | Bad_json

definition ledger_open_body :: "tx_env \<Rightarrow> ledger \<Rightarrow> ledger_error + unit \<times> ledger" where
  "ledger_open_body env db =
     bind_result (ensure (\<not> tx_fails env (Open_table ''metadata'') \<and> \<not> tx_fails env Get) Storage_failed) (\<lambda>_.
     bind_result
       (case ledger_version db of
          Some v \<Rightarrow> if v = 1 then Inr db else Inl Unsupported_version
        | None \<Rightarrow>
            bind_result (ensure (\<not> tx_fails env (Open_table ''payments_v1'') \<and> \<not> tx_fails env Is_empty) Storage_failed) (\<lambda>_.
            bind_result (ensure (payments_v1 db = fmempty) Unversioned_not_empty) (\<lambda>_.
            bind_result (ensure (\<not> tx_fails env Insert) Storage_failed) (\<lambda>_.
              Inr (db\<lparr>ledger_version := Some 1\<rparr>))))) (\<lambda>db'.
     bind_result (ensure (\<not> tx_fails env (Open_table ''payout_v1'')) Storage_failed) (\<lambda>_.
       Inr ((), db'))))"

definition ledger_open :: "tx_env \<Rightarrow> ledger \<Rightarrow> (ledger_error + unit) \<times> ledger" where
  "ledger_open env db =
     (if tx_fails env Create then (Inl Storage_failed, db)
      else (case write_tx env Storage_failed (ledger_open_body env) db of
              (Inl e, db') \<Rightarrow> (Inl e, db')
            | (Inr _, db') \<Rightarrow>
                if tx_fails env Sync_directory then (Inl Storage_failed, db') else (Inr (), db')))"

definition reserve_body ::
    "tx_env \<Rightarrow> string \<Rightarrow> string \<Rightarrow> nat \<Rightarrow> ledger \<Rightarrow> ledger_error + reservation \<times> ledger" where
  "reserve_body env i site price db =
     (if tx_fails env (Open_table ''payments_v1'') \<or> tx_fails env Get then Inl Storage_failed
      else (case fmlookup (payments_v1 db) i of
              Some (old_site, old_price, claimed) \<Rightarrow>
                if old_site \<noteq> site \<or> old_price \<noteq> price then Inr (Mismatch, db)
                else if claimed then Inr (Claimed, db)
                else Inr (Pending, db)
            | None \<Rightarrow>
                if tx_fails env Insert then Inl Storage_failed
                else Inr (New, db\<lparr>payments_v1 := fmupd i (site, price, False) (payments_v1 db)\<rparr>)))"

definition ledger_reserve ::
    "tx_env \<Rightarrow> string \<Rightarrow> string \<Rightarrow> nat \<Rightarrow> ledger \<Rightarrow> (ledger_error + reservation) \<times> ledger" where
  "ledger_reserve env i site price db =
     blocking env Storage_failed (write_tx env Storage_failed (reserve_body env i site price) db)"

definition claim_body :: "tx_env \<Rightarrow> string \<Rightarrow> ledger \<Rightarrow> ledger_error + bool \<times> ledger" where
  "claim_body env i db =
     (if tx_fails env (Open_table ''payments_v1'') \<or> tx_fails env Get then Inl Storage_failed
      else (case fmlookup (payments_v1 db) i of
              Some (site, price, False) \<Rightarrow>
                if tx_fails env Insert then Inl Storage_failed
                else Inr (True, db\<lparr>payments_v1 := fmupd i (site, price, True) (payments_v1 db)\<rparr>)
            | _ \<Rightarrow> Inr (False, db)))"

definition ledger_claim :: "tx_env \<Rightarrow> string \<Rightarrow> ledger \<Rightarrow> (ledger_error + bool) \<times> ledger" where
  "ledger_claim env i db =
     blocking env Storage_failed (write_tx env Storage_failed (claim_body env i) db)"

section \<open>The payout row\<close>

record payout_state =
  last_paid :: int
  retry_at :: int
  pending :: "string option"

definition payout_state_default :: payout_state where
  "payout_state_default = \<lparr>last_paid = 0, retry_at = 0, pending = None\<rparr>"

text \<open>The row is JSON text; the encoder and decoder of \<^verbatim>\<open>serde_json\<close> are parameters.\<close>

definition ledger_payout ::
    "(string \<Rightarrow> payout_state option) \<Rightarrow> tx_env \<Rightarrow> ledger \<Rightarrow> ledger_error + payout_state option" where
  "ledger_payout from_json env db =
     (if tx_fails env Begin_read \<or> tx_fails env (Open_table ''payout_v1'') \<or> tx_fails env Get \<or> tx_fails env Join
      then Inl Storage_failed
      else (case payout_v1 db of
              None \<Rightarrow> Inr None
            | Some v \<Rightarrow> bind_result (ok_or Bad_json (from_json v)) (\<lambda>s. Inr (Some s))))"

definition ledger_save_payout ::
    "(payout_state \<Rightarrow> string option) \<Rightarrow> tx_env \<Rightarrow> payout_state \<Rightarrow> ledger \<Rightarrow> (ledger_error + unit) \<times> ledger" where
  "ledger_save_payout to_json env state db =
     (case to_json state of
        None \<Rightarrow> (Inl Bad_json, db)
      | Some v \<Rightarrow>
          blocking env Storage_failed
            (write_tx env Storage_failed
               (\<lambda>db. if tx_fails env (Open_table ''payout_v1'') \<or> tx_fails env Insert then Inl Storage_failed
                     else Inr ((), db\<lparr>payout_v1 := Some v\<rparr>)) db))"

section \<open>Runs of the journal\<close>

datatype ledger_op =
    Op_open tx_env
  | Op_reserve tx_env string string nat
  | Op_claim tx_env string
  | Op_save_payout tx_env "payout_state \<Rightarrow> string option" payout_state

datatype ledger_result =
    Res_unit "ledger_error + unit"
  | Res_reserve "ledger_error + reservation"
  | Res_claim "ledger_error + bool"

fun ledger_step :: "ledger \<Rightarrow> ledger_op \<Rightarrow> ledger_result \<times> ledger" where
  "ledger_step db (Op_open env) = map_prod Res_unit id (ledger_open env db)"
| "ledger_step db (Op_reserve env i site price) = map_prod Res_reserve id (ledger_reserve env i site price db)"
| "ledger_step db (Op_claim env i) = map_prod Res_claim id (ledger_claim env i db)"
| "ledger_step db (Op_save_payout env to_json s) = map_prod Res_unit id (ledger_save_payout to_json env s db)"

fun claim_granted :: "ledger_op \<Rightarrow> ledger_result \<Rightarrow> string \<Rightarrow> bool" where
  "claim_granted (Op_claim env i) (Res_claim (Inr True)) k \<longleftrightarrow> i = k"
| "claim_granted _ _ _ \<longleftrightarrow> False"

definition claimed_in :: "ledger \<Rightarrow> string \<Rightarrow> bool" where
  "claimed_in db i \<longleftrightarrow> (\<exists>site price. fmlookup (payments_v1 db) i = Some (site, price, True))"

definition bound_to :: "ledger \<Rightarrow> string \<Rightarrow> string \<Rightarrow> nat \<Rightarrow> bool" where
  "bound_to db i site price \<longleftrightarrow> (\<exists>c. fmlookup (payments_v1 db) i = Some (site, price, c))"

lemma ledger_open_body_keeps: "ledger_open_body env db = Inr (u, db') \<Longrightarrow> payments_v1 db' = payments_v1 db"
  by (auto simp: ledger_open_body_def split: option.splits if_splits)

lemma ledger_open_keeps: "ledger_open env db = (r, db') \<Longrightarrow> payments_v1 db' = payments_v1 db"
  by (auto simp: ledger_open_def write_tx_def dest: ledger_open_body_keeps split: if_splits sum.splits prod.splits)

lemma ledger_save_payout_keeps:
  "ledger_save_payout to_json env st db = (r, db') \<Longrightarrow> payments_v1 db' = payments_v1 db"
  by (auto simp: ledger_save_payout_def blocking_def write_tx_def split: if_splits sum.splits option.splits)

text \<open>Every operation keeps an entry's site, price and claim; it can only add entries and set
  the claim.\<close>

definition entry_kept :: "string \<Rightarrow> string \<Rightarrow> nat \<Rightarrow> bool \<Rightarrow> ledger \<Rightarrow> bool" where
  "entry_kept i site price c db \<longleftrightarrow>
     fmlookup (payments_v1 db) i = Some (site, price, c) \<or>
     fmlookup (payments_v1 db) i = Some (site, price, True)"

lemma reserve_body_keeps:
  "\<lbrakk>reserve_body env j site' price' db = Inr (a, db'); entry_kept i site price c db\<rbrakk> \<Longrightarrow>
    entry_kept i site price c db'"
  by (auto simp: reserve_body_def entry_kept_def split: if_splits option.splits)

lemma claim_body_keeps:
  "\<lbrakk>claim_body env j db = Inr (a, db'); entry_kept i site price c db\<rbrakk> \<Longrightarrow> entry_kept i site price c db'"
  by (auto simp: claim_body_def entry_kept_def split: if_splits option.splits bool.splits)

lemma ledger_step_keeps:
  assumes "ledger_step db x = (r, db')" "entry_kept i site price c db"
  shows "entry_kept i site price c db'"
proof (cases x)
  case (Op_open env)
  then have "payments_v1 db' = payments_v1 db"
    using assms(1) ledger_open_keeps by (auto simp: map_prod_def split: prod.splits)
  then show ?thesis using assms(2) by (simp add: entry_kept_def)
next
  case (Op_reserve env j site' price')
  then obtain r' where "ledger_reserve env j site' price' db = (r', db')"
    using assms(1) by (auto simp: map_prod_def split: prod.splits)
  then show ?thesis
    unfolding ledger_reserve_def using assms(2)
    by (rule blocking_write_tx_keeps) (rule reserve_body_keeps [OF _ assms(2)])
next
  case (Op_claim env j)
  then obtain r' where "ledger_claim env j db = (r', db')"
    using assms(1) by (auto simp: map_prod_def split: prod.splits)
  then show ?thesis
    unfolding ledger_claim_def using assms(2)
    by (rule blocking_write_tx_keeps) (rule claim_body_keeps [OF _ assms(2)])
next
  case (Op_save_payout env to_json st)
  then have "payments_v1 db' = payments_v1 db"
    using assms(1) ledger_save_payout_keeps by (auto simp: map_prod_def split: prod.splits)
  then show ?thesis using assms(2) by (simp add: entry_kept_def)
qed

lemma ledger_claim_granted:
  assumes "ledger_claim env i db = (Inr True, db')"
  shows "\<exists>site price. fmlookup (payments_v1 db) i = Some (site, price, False) \<and>
    db' = db\<lparr>payments_v1 := fmupd i (site, price, True) (payments_v1 db)\<rparr>"
  using blocking_write_tx_Inr [OF assms [unfolded ledger_claim_def]]
  by (auto simp: claim_body_def split: if_splits option.splits bool.splits)

lemma claim_grantedE:
  assumes "ledger_step db x = (r, db')" "claim_granted x r k"
  obtains env where "x = Op_claim env k" "ledger_claim env k db = (Inr True, db')"
  using assms by (cases "(x, r, k)" rule: claim_granted.cases) (auto simp: map_prod_def split: prod.splits)

interpretation journal: single_use ledger_step claim_granted claimed_in "\<lambda>_ _. True" "\<lambda>_ _. True"
proof (unfold_locales, goal_cases)
  case 1
  then show ?case by simp
next
  case (2 s x r s' k)
  then show ?case by (auto elim!: claim_grantedE dest!: ledger_claim_granted simp: claimed_in_def)
next
  case (3 s x r s' k)
  then show ?case by (auto elim!: claim_grantedE dest!: ledger_claim_granted simp: claimed_in_def)
next
  case (4 s x r s' k)
  then show ?case
    using ledger_step_keeps [of s x r s' k _ _ True] by (auto simp: claimed_in_def entry_kept_def)
qed

lemma run_ledger_keeps:
  assumes "run_ops ledger_step db xs = (rs, db')" "bound_to db i site price"
  shows "bound_to db' i site price"
  using assms
proof (induction xs arbitrary: db rs)
  case (Cons x xs)
  obtain r db1 where x: "ledger_step db x = (r, db1)" by (cases "ledger_step db x")
  have "bound_to db1 i site price"
    using ledger_step_keeps [OF x, of i site price] Cons.prems(2)
    unfolding bound_to_def entry_kept_def by blast
  then show ?case using Cons x by (auto split: prod.splits)
qed simp

section \<open>Properties\<close>

text \<open>
  No payment is admitted twice. Whatever sequence of openings, reservations, claims and
  payout updates runs against the journal, from whatever state, and whichever database calls
  fail or commit without reporting it, at most one claim of a payment id is answered with
  success.
\<close>

lemma ledger_claims_once:
  shows "length (filter (\<lambda>(x, r). claim_granted x r i) (zip xs (fst (run_ops ledger_step db xs)))) \<le> 1"
  by (rule journal.granted_once [OF prod.collapse [symmetric]]) simp_all

text \<open>
  A payment is bound to its site and price. A successful claim was made for an id that a
  reservation had bound; once an id is bound, every later reservation for another site or
  another price is a mismatch, and one for the same site and price is answered \<open>Pending\<close> or
  \<open>Claimed\<close>, never \<open>New\<close>.
\<close>

lemma ledger_reserve_bound:
  assumes "bound_to db i site price" "run_ops ledger_step db xs = (rs, db')"
    and "ledger_reserve env i site' price' db' = (Inr res, db'')"
  shows "(res = Mismatch \<longleftrightarrow> site' \<noteq> site \<or> price' \<noteq> price) \<and> res \<noteq> New \<and>
    (res = Claimed \<longleftrightarrow> site' = site \<and> price' = price \<and> claimed_in db' i) \<and> db'' = db'"
proof -
  have "bound_to db' i site price" using assms(2,1) by (rule run_ledger_keeps)
  then show ?thesis
    using blocking_write_tx_Inr [OF assms(3) [unfolded ledger_reserve_def]]
    by (auto simp: reserve_body_def bound_to_def claimed_in_def split: if_splits)
qed

text \<open>
  The claim protocol makes progress. On a database that answers, reserving a new payment
  and claiming it succeeds, a second claim does not, and a reservation then reports \<open>Claimed\<close>.
\<close>

lemma ledger_reserve_claim:
  assumes "\<And>c. \<not> tx_fails env c" "fmlookup (payments_v1 db) i = None"
  shows "\<exists>db1 db2. ledger_reserve env i site price db = (Inr New, db1) \<and>
    ledger_claim env i db1 = (Inr True, db2) \<and> ledger_claim env i db2 = (Inr False, db2) \<and>
    ledger_reserve env i site price db2 = (Inr Claimed, db2)"
  using assms
  by (simp add: ledger_reserve_def ledger_claim_def reserve_body_def claim_body_def blocking_def write_tx_def)

text \<open>
  The journal refuses a layout it does not know. Opening succeeds only on version 1, or
  on an unversioned journal without payments, which it stamps; it never touches a payment.
\<close>

lemma ledger_open_version:
  assumes "ledger_open env db = (Inr (), db')"
  shows "ledger_version db' = Some 1 \<and> payments_v1 db' = payments_v1 db \<and>
    (ledger_version db = Some 1 \<or> ledger_version db = None \<and> payments_v1 db = fmempty)"
  using assms
  by (auto simp: ledger_open_def write_tx_def ledger_open_body_def split: if_splits sum.splits prod.splits option.splits)

section \<open>The register the journal implements\<close>

text \<open>The specification: a map of payments to the site and price they are bound to and whether they are used,
  with two operations that never fail.\<close>

type_synonym register = "string \<rightharpoonup> string \<times> nat \<times> bool"

definition register_of :: "ledger \<Rightarrow> register" where
  "register_of db = fmlookup (payments_v1 db)"

definition reg_reserve :: "string \<Rightarrow> string \<Rightarrow> nat \<Rightarrow> register \<Rightarrow> reservation \<times> register" where
  "reg_reserve i site price m =
     (case m i of
        None \<Rightarrow> (New, m(i \<mapsto> (site, price, False)))
      | Some (site', price', used) \<Rightarrow>
          (if (site', price') \<noteq> (site, price) then Mismatch else if used then Claimed else Pending, m))"

definition reg_claim :: "string \<Rightarrow> register \<Rightarrow> bool \<times> register" where
  "reg_claim i m =
     (case m i of
        Some (site, price, used) \<Rightarrow> if used then (False, m) else (True, m(i \<mapsto> (site, price, True)))
      | None \<Rightarrow> (False, m))"

text \<open>An operation on the disk implements an operation of the register when a reported success is the
  register's answer and state, and a reported failure leaves the register as it was or as the operation
  would have left it.\<close>

definition implements :: "('e + 'a) \<times> ledger \<Rightarrow> ledger \<Rightarrow> (register \<Rightarrow> 'a \<times> register) \<Rightarrow> bool" where
  "implements outcome db spec \<longleftrightarrow>
     (case outcome of
        (Inr a, db') \<Rightarrow> spec (register_of db) = (a, register_of db')
      | (Inl _, db') \<Rightarrow> register_of db' = register_of db \<or> register_of db' = snd (spec (register_of db)))"

lemma implements_tx:
  assumes "\<And>a db'. body db = Inr (a, db') \<Longrightarrow> spec (register_of db) = (a, register_of db')"
  shows "implements (blocking env err (write_tx env err body db)) db spec"
  using assms by (cases "body db") (auto simp: implements_def blocking_def write_tx_def split: sum.splits if_splits)

text \<open>
  C22: The journal implements the register. Whatever the database does to a call, reserving and claiming on
  disk answer and change exactly what the register's operations do when they report success, and when
  they report a failure they have happened entirely or not at all; opening the journal and saving a
  payout never change the register.
\<close>

theorem ledger_refines_register:
  "implements (ledger_reserve env i site price db) db (reg_reserve i site price)
   \<and> implements (ledger_claim env i db) db (reg_claim i)
   \<and> register_of (snd (ledger_open env db)) = register_of db
   \<and> register_of (snd (ledger_save_payout to_json env st db)) = register_of db"
proof (intro conjI)
  show "implements (ledger_reserve env i site price db) db (reg_reserve i site price)"
    unfolding ledger_reserve_def
    by (rule implements_tx) (auto simp: reserve_body_def reg_reserve_def register_of_def split: option.splits if_splits)
  show "implements (ledger_claim env i db) db (reg_claim i)"
    unfolding ledger_claim_def
    by (rule implements_tx) (auto simp: claim_body_def reg_claim_def register_of_def split: option.splits if_splits bool.splits)
  show "register_of (snd (ledger_open env db)) = register_of db"
    using ledger_open_keeps [of env db] by (simp add: register_of_def prod_eq_iff)
  show "register_of (snd (ledger_save_payout to_json env st db)) = register_of db"
    using ledger_save_payout_keeps [of to_json env st db] by (simp add: register_of_def prod_eq_iff)
qed

section \<open>Witnesses\<close>

definition tx_ok :: tx_env where
  "tx_ok = \<lparr>tx_fails = (\<lambda>_. False), commit_persists = True\<rparr>"

definition ledger_empty :: ledger where
  "ledger_empty = \<lparr>ledger_version = None, payments_v1 = fmempty, payout_v1 = None\<rparr>"

lemma tx_ok_fails [simp]: "tx_fails tx_ok c = False"
  by (simp add: tx_ok_def)

lemmas ledger_eval = ledger_empty_def ledger_reserve_def ledger_claim_def reserve_body_def claim_body_def
  blocking_def write_tx_def ledger_open_def ledger_open_body_def

end
