(* ===== verification/Settlements.thy ===== *)
theory Settlements
  imports Lightning_Proofs Ledger
begin

text \<open>
  The settlement database of the Lightning payments: \<^verbatim>\<open>Lightning::database\<close>, \<^verbatim>\<open>settle\<close> and \<^verbatim>\<open>claim\<close>
  of \<^verbatim>\<open>payments/lightning/mod.rs\<close>, the minting and settling of L402 credentials
  (\<^verbatim>\<open>payments/lightning/l402.rs\<close>), the pruning and the record limit of
  \<^verbatim>\<open>payments/lightning/maintenance.rs\<close>, and the deposits of \<^verbatim>\<open>payments/lightning/cashu.rs\<close>.

  The four redb tables are finite maps; a transaction takes the fault oracle of the journal
  (\<open>tx_env\<close>), so every call may fail and a commit may persist without reporting it. The database is
  opened, and pruned, on first use; a restart forgets that it is open and keeps the tables. Clock
  readings, random bytes, the wallet's answers and the macaroon encoder are parameters.
\<close>

section \<open>The database\<close>

record lightning_db =
  spent :: "(string, nat) fmap"
  roots :: "(string, string \<times> nat) fmap"
  quotes :: "(string, string) fmap"
  mint_urls :: "string fset"

record lightning =
  ln_db :: lightning_db
  ln_open :: bool

datatype ln_error = Invalid | Unavailable

record ln_env =
  e_open :: tx_env
  e_open_now :: "nat option"
  e_read :: tx_env
  e_time :: "nat option"
  e_tx :: tx_env
  e_now :: "nat option"

definition MAX_CHALLENGE_RECORDS :: nat where "MAX_CHALLENGE_RECORDS = 10000"

definition retain_fm :: "('v \<Rightarrow> bool) \<Rightarrow> ('k, 'v) fmap \<Rightarrow> ('k, 'v) fmap" where
  "retain_fm keep m = fmfilter (\<lambda>k. case fmlookup m k of Some v \<Rightarrow> keep v | None \<Rightarrow> False) m"

definition prune :: "tx_env \<Rightarrow> nat \<Rightarrow> lightning_db \<Rightarrow> ln_error + lightning_db" where
  "prune env time db =
     (if tx_fails env (Open_table ''l402_roots_v1'') \<or> tx_fails env (Open_table ''lightning_spent_v1'') \<or> tx_fails env Retain
      then Inl Unavailable
      else Inr (db\<lparr>roots := retain_fm (\<lambda>(_, expiry). time < expiry) (roots db),
                   spent := retain_fm (\<lambda>expiry. time < expiry) (spent db)\<rparr>))"

definition open_body :: "tx_env \<Rightarrow> nat option \<Rightarrow> lightning_db \<Rightarrow> ln_error + (unit \<times> lightning_db)" where
  "open_body env now db =
     bind_result (ensure (list_all (\<lambda>t. \<not> tx_fails env (Open_table t))
         [''lightning_spent_v1'', ''l402_roots_v1'', ''l402_cashu_quotes_v1'', ''l402_cashu_mints_v1'']) Unavailable) (\<lambda>_.
     bind_result (ok_or Unavailable now) (\<lambda>time.
     bind_result (prune env time db) (\<lambda>db'. Inr ((), db'))))"

definition ln_database :: "tx_env \<Rightarrow> nat option \<Rightarrow> lightning \<Rightarrow> (ln_error + unit) \<times> lightning" where
  "ln_database env now s =
     (if ln_open s then (Inr (), s)
      else if tx_fails env Create then (Inl Unavailable, s)
      else (case write_tx env Unavailable (open_body env now) (ln_db s) of
              (Inl e, db) \<Rightarrow> (Inl e, s\<lparr>ln_db := db\<rparr>)
            | (Inr _, db) \<Rightarrow>
                if tx_fails env Sync_directory \<or> tx_fails env Join then (Inl Unavailable, s\<lparr>ln_db := db\<rparr>)
                else (Inr (), s\<lparr>ln_db := db, ln_open := True\<rparr>)))"

definition ln_restart :: "lightning \<Rightarrow> lightning" where
  "ln_restart s = s\<lparr>ln_open := False\<rparr>"

text \<open>A write transaction on the database once it is open.\<close>

definition ln_write :: "tx_env \<Rightarrow> (lightning_db \<Rightarrow> ln_error + ('a \<times> lightning_db)) \<Rightarrow> lightning \<Rightarrow> (ln_error + 'a) \<times> lightning" where
  "ln_write env body s =
     (case blocking env Unavailable (write_tx env Unavailable body (ln_db s)) of
        (r, db) \<Rightarrow> (r, s\<lparr>ln_db := db\<rparr>))"

section \<open>Maintenance\<close>

definition check_capacity :: "tx_env \<Rightarrow> nat \<Rightarrow> lightning_db \<Rightarrow> ln_error + unit" where
  "check_capacity env needed db =
     bind_result (ensure (\<not> tx_fails env (Open_table ''l402_roots_v1'') \<and> \<not> tx_fails env (Open_table ''l402_cashu_quotes_v1'')
         \<and> \<not> tx_fails env Count) Unavailable) (\<lambda>_.
     ensure (saturating_add 64 (saturating_add 64 (fmlen (roots db)) (fmlen (quotes db))) needed \<le> MAX_CHALLENGE_RECORDS)
       Unavailable)"

text \<open>The transaction of the early check is dropped without a commit.\<close>

definition check_challenge_capacity :: "ln_env \<Rightarrow> nat \<Rightarrow> lightning \<Rightarrow> (ln_error + unit) \<times> lightning" where
  "check_challenge_capacity e needed s =
     (case ln_database (e_open e) (e_open_now e) s of
        (Inl err, s') \<Rightarrow> (Inl err, s')
      | (Inr _, s') \<Rightarrow>
          if tx_fails (e_read e) Begin_write \<or> tx_fails (e_read e) Join then (Inl Unavailable, s')
          else (check_capacity (e_read e) needed (ln_db s'), s'))"

definition prune_expired :: "ln_env \<Rightarrow> bool \<Rightarrow> lightning \<Rightarrow> (ln_error + unit) \<times> lightning" where
  "prune_expired e path_exists s =
     (if \<not> path_exists then (Inr (), s)
      else (case ln_database (e_open e) (e_open_now e) s of
              (Inl err, s') \<Rightarrow> (Inl err, s')
            | (Inr _, s') \<Rightarrow>
                ln_write (e_tx e) (\<lambda>db. bind_result (ok_or Unavailable (e_now e)) (\<lambda>time.
                  bind_result (prune (e_tx e) time db) (\<lambda>db'. Inr ((), db')))) s'))"

section \<open>Claims and x402 settlement\<close>

definition claim_spent :: "tx_env \<Rightarrow> nat option \<Rightarrow> string \<Rightarrow> nat \<Rightarrow> lightning_db \<Rightarrow> ln_error + (bool \<times> lightning_db)" where
  "claim_spent env now key retain_until db =
     bind_result (ok_or Unavailable now) (\<lambda>time.
     bind_result (ensure (time < retain_until) Unavailable) (\<lambda>_.
     bind_result (ensure (\<not> tx_fails env (Open_table ''lightning_spent_v1'') \<and> \<not> tx_fails env Get) Unavailable) (\<lambda>_.
     if fmlookup (spent db) key \<noteq> None then Inr (False, db)
     else bind_result (ensure (\<not> tx_fails env Insert) Unavailable) (\<lambda>_.
       Inr (True, db\<lparr>spent := fmupd key retain_until (spent db)\<rparr>)))))"

definition ln_claim :: "ln_env \<Rightarrow> string \<Rightarrow> nat \<Rightarrow> lightning \<Rightarrow> (ln_error + unit) \<times> lightning" where
  "ln_claim e key retain_until s =
     (case ln_database (e_open e) (e_open_now e) s of
        (Inl _, s') \<Rightarrow> (Inl Unavailable, s')
      | (Inr _, s') \<Rightarrow>
          (case ln_write (e_tx e) (claim_spent (e_tx e) (e_now e) key retain_until) s' of
             (Inl _, s'') \<Rightarrow> (Inl Unavailable, s'')
           | (Inr claimed, s'') \<Rightarrow> (if claimed then Inr () else Inl Invalid, s'')))"

text \<open>The response names the payment hash and the network; its JSON and base64 form is left out.\<close>

definition ln_settle ::
  "ln_ext \<Rightarrow> ln_env \<Rightarrow> lightning_policy \<Rightarrow> string \<Rightarrow> string \<Rightarrow> lightning \<Rightarrow> (ln_error + (string \<times> string)) \<times> lightning" where
  "ln_settle x e p hash encoded s =
     (case e_time e of
        None \<Rightarrow> (Inl Unavailable, s)
      | Some time \<Rightarrow>
          (case x402_verify x p hash encoded time of
             Inl _ \<Rightarrow> (Inl Invalid, s)
           | Inr (key, payment_hash, retain_until) \<Rightarrow>
               (case ln_claim e key retain_until s of
                  (Inl err, s') \<Rightarrow> (Inl err, s')
                | (Inr _, s') \<Rightarrow> (Inr (payment_hash, receiver_network (lp_receiver p)), s'))))"

section \<open>L402 credentials and deposits\<close>

record deposit =
  dep_mint :: string
  dep_quote :: string
  dep_amount :: nat
  dep_invoice :: string
  dep_retired :: bool

record mint_quote =
  q_id :: string
  q_request :: string
  q_amount :: "nat option"
  q_unit :: currency_unit
  q_expiry :: nat

text \<open>The wallet, the macaroon encoder and the JSON of deposits.\<close>

record l402_ext =
  macaroon_init :: bool
  macaroon_build :: "string \<Rightarrow> string list \<Rightarrow> string \<Rightarrow> macaroon option"
  macaroon_text :: "macaroon \<Rightarrow> string option"
  deposit_json :: "deposit \<Rightarrow> string option"
  deposit_parse :: "string \<Rightarrow> deposit option"
  mint_invoice :: "string \<Rightarrow> nat \<Rightarrow> mint_quote option"
  collect_mint_invoice :: "string \<Rightarrow> string \<Rightarrow> nat \<Rightarrow> string \<Rightarrow> bool"

definition l402_valid_before :: "invoice \<Rightarrow> nat option" where
  "l402_valid_before i =
     Option.bind (checked_add 64 (inv_created i) (inv_expiry i)) (\<lambda>end. checked_add 64 end (SKEW + 1))"

definition l402_predicates :: "string \<Rightarrow> string \<Rightarrow> nat \<Rightarrow> string list" where
  "l402_predicates hash trms valid_before =
     [service_caveat, request_caveat hash, terms_caveat trms, until_prefix @ show_nat valid_before]"

fun sign_predicates :: "ln_ext \<Rightarrow> string \<Rightarrow> string list \<Rightarrow> string option" where
  "sign_predicates x signature [] = Some signature"
| "sign_predicates x signature (p # ps) = Option.bind (hmac_sha256 x signature p) (\<lambda>k. sign_predicates x k ps)"

definition root_body :: "tx_env \<Rightarrow> string \<Rightarrow> string \<Rightarrow> nat \<Rightarrow> lightning_db \<Rightarrow> ln_error + (unit \<times> lightning_db)" where
  "root_body env key root valid_before db =
     bind_result (check_capacity env 1 db) (\<lambda>_.
     bind_result (ensure (\<not> tx_fails env (Open_table ''l402_roots_v1'') \<and> \<not> tx_fails env Get) Unavailable) (\<lambda>_.
     bind_result (ensure (fmlookup (roots db) key = None) Unavailable) (\<lambda>_.
     bind_result (ensure (\<not> tx_fails env Insert) Unavailable) (\<lambda>_.
     Inr ((), db\<lparr>roots := fmupd key (root, valid_before) (roots db)\<rparr>)))))"

definition l402_identifier :: "invoice \<Rightarrow> string \<Rightarrow> string" where
  "l402_identifier i random = [char_of (0 :: nat), char_of (0 :: nat)] @ inv_payment_hash i @ random"

definition build_credential ::
  "ln_ext \<Rightarrow> l402_ext \<Rightarrow> lightning_policy \<Rightarrow> string \<Rightarrow> invoice \<Rightarrow> string \<Rightarrow> string \<Rightarrow> (macaroon \<times> string \<times> nat) option" where
  "build_credential x m p hash i root random =
     (case (l402_valid_before i, terms x p hash) of
        (Some valid_before, Some trms) \<Rightarrow>
          (let predicates = l402_predicates hash trms valid_before
           in Option.bind (hmac_sha256 x root (l402_identifier i random)) (\<lambda>signature.
              Option.bind (sign_predicates x signature predicates) (\<lambda>signature.
              Option.bind (macaroon_build m (l402_identifier i random) predicates signature) (\<lambda>mac.
              Option.bind (macaroon_text m mac) (\<lambda>encoded. Some (mac, encoded, valid_before))))))
      | _ \<Rightarrow> None)"

definition mint_l402 ::
  "ln_ext \<Rightarrow> l402_ext \<Rightarrow> ln_env \<Rightarrow> lightning_policy \<Rightarrow> string \<Rightarrow> string \<Rightarrow> invoice \<Rightarrow> string option \<Rightarrow> string option \<Rightarrow> lightning
     \<Rightarrow> (ln_error + (string \<times> string)) \<times> lightning" where
  "mint_l402 x m e p hash encoded_invoice i root random s =
     (if \<not> macaroon_init m then (Inl Unavailable, s)
      else case (root, random) of
        (Some root, Some random) \<Rightarrow>
          (case build_credential x m p hash i root random of
             None \<Rightarrow> (Inl Unavailable, s)
           | Some (mac, encoded, valid_before) \<Rightarrow>
               (case ln_database (e_open e) (e_open_now e) s of
                  (Inl err, s') \<Rightarrow> (Inl err, s')
                | (Inr _, s') \<Rightarrow>
                    (case ln_write (e_tx e) (root_body (e_tx e) (digest x (l402_identifier i random)) root valid_before) s' of
                       (Inl err, s'') \<Rightarrow> (Inl err, s'')
                     | (Inr _, s'') \<Rightarrow> (Inr (encoded, encoded_invoice), s''))))
      | _ \<Rightarrow> (Inl Unavailable, s))"

definition ln_read :: "tx_env \<Rightarrow> string \<Rightarrow> (lightning_db \<Rightarrow> ln_error + 'a) \<Rightarrow> lightning \<Rightarrow> ln_error + 'a" where
  "ln_read env table body s =
     (if tx_fails env Begin_read \<or> tx_fails env (Open_table table) \<or> tx_fails env Get \<or> tx_fails env Join
      then Inl Unavailable else body (ln_db s))"

definition collect_cashu_invoice ::
  "l402_ext \<Rightarrow> ln_env \<Rightarrow> lightning_policy \<Rightarrow> string \<Rightarrow> string \<Rightarrow> lightning \<Rightarrow> (ln_error + unit) \<times> lightning" where
  "collect_cashu_invoice m e p mint key s =
     (case ln_database (e_open e) (e_open_now e) s of
        (Inl _, s') \<Rightarrow> (Inl Unavailable, s')
      | (Inr _, s') \<Rightarrow>
          (bind_result (ln_read (e_read e) ''l402_cashu_quotes_v1'' (\<lambda>db.
              ok_or Unavailable (Option.bind (fmlookup (quotes db) key) (deposit_parse m))) s') (\<lambda>d.
           bind_result (ensure (dep_mint d = mint \<and> dep_amount d = lp_amount_msat p div 1000) Invalid) (\<lambda>_.
           ensure (collect_mint_invoice m mint (dep_quote d) (dep_amount d) (dep_invoice d)) Unavailable)), s'))"

definition read_root :: "ln_env \<Rightarrow> string \<Rightarrow> lightning \<Rightarrow> ln_error + (string \<times> nat)" where
  "read_root e key s =
     bind_result (ln_read (e_read e) ''l402_roots_v1'' (\<lambda>db.
        case fmlookup (roots db) key of
          None \<Rightarrow> Inr None
        | Some (root, expiry) \<Rightarrow> bind_result (ensure (length root = 32) Unavailable) (\<lambda>_. Inr (Some (root, expiry)))) s)
       (ok_or Invalid)"

text \<open>What an L402 credential is worth: the key it claims and how long the claim is kept.\<close>

definition l402_authorize ::
  "ln_ext \<Rightarrow> ln_env \<Rightarrow> lightning_policy \<Rightarrow> string \<Rightarrow> macaroon \<Rightarrow> string \<Rightarrow> lightning \<Rightarrow> ln_error + (string \<times> nat)" where
  "l402_authorize x e p hash mac preimage s =
     bind_result (read_root e (digest x (mac_identifier mac)) s) (\<lambda>(root, valid_before).
     bind_result (ok_or Unavailable (e_time e)) (\<lambda>time.
     bind_result (map_sum (\<lambda>_. Invalid) id (l402_verify x p hash mac preimage root valid_before time)) (\<lambda>_.
     Inr (settlement_key p (take 32 (drop 2 (mac_identifier mac))), saturating_add 64 valid_before 3599))))"

definition l402_collect :: "l402_ext \<Rightarrow> ln_env \<Rightarrow> lightning_policy \<Rightarrow> string \<Rightarrow> lightning \<Rightarrow> (ln_error + unit) \<times> lightning" where
  "l402_collect m e p key s =
     (case receiver_mint (lp_receiver p) of
        None \<Rightarrow> (Inr (), s)
      | Some mint \<Rightarrow> collect_cashu_invoice m e p mint key s)"

definition settle_l402 ::
  "ln_ext \<Rightarrow> l402_ext \<Rightarrow> ln_env \<Rightarrow> lightning_policy \<Rightarrow> string \<Rightarrow> string \<Rightarrow> lightning \<Rightarrow> (ln_error + unit) \<times> lightning" where
  "settle_l402 x m e p hash encoded s =
     (if \<not> macaroon_init m then (Inl Unavailable, s)
      else case parse_credential x encoded of
        Inl _ \<Rightarrow> (Inl Invalid, s)
      | Inr (mac, preimage) \<Rightarrow>
          (case ln_database (e_open e) (e_open_now e) s of
             (Inl _, s1) \<Rightarrow> (Inl Unavailable, s1)
           | (Inr _, s1) \<Rightarrow>
               (case l402_authorize x e p hash mac preimage s1 of
                  Inl err \<Rightarrow> (Inl err, s1)
                | Inr (key, retain_until) \<Rightarrow>
                    (case l402_collect m e p key s1 of
                       (Inl err, s2) \<Rightarrow> (Inl err, s2)
                     | (Inr _, s2) \<Rightarrow> ln_claim e key retain_until s2))))"

text \<open>The quote for an invoice: the mint is remembered in a transaction of its own before the wallet is asked.\<close>

definition mints_body :: "tx_env \<Rightarrow> string \<Rightarrow> lightning_db \<Rightarrow> ln_error + (unit \<times> lightning_db)" where
  "mints_body env mint db =
     bind_result (ensure (\<not> tx_fails env (Open_table ''l402_cashu_mints_v1'') \<and> \<not> tx_fails env Insert) Unavailable) (\<lambda>_.
     Inr ((), db\<lparr>mint_urls := finsert mint (mint_urls db)\<rparr>))"

definition quote_body :: "tx_env \<Rightarrow> string \<Rightarrow> string \<Rightarrow> lightning_db \<Rightarrow> ln_error + (unit \<times> lightning_db)" where
  "quote_body env key json db =
     bind_result (check_capacity env 1 db) (\<lambda>_.
     bind_result (ensure (\<not> tx_fails env (Open_table ''l402_cashu_quotes_v1'') \<and> \<not> tx_fails env Get) Unavailable) (\<lambda>_.
     bind_result (ensure (fmlookup (quotes db) key = None) Unavailable) (\<lambda>_.
     bind_result (ensure (\<not> tx_fails env Insert) Unavailable) (\<lambda>_.
     Inr ((), db\<lparr>quotes := fmupd key json (quotes db)\<rparr>)))))"

definition quoted_deposit ::
  "ln_ext \<Rightarrow> l402_ext \<Rightarrow> lightning_policy \<Rightarrow> string \<Rightarrow> string \<Rightarrow> nat option \<Rightarrow> nat option \<Rightarrow> ln_error + (string \<times> string \<times> string)" where
  "quoted_deposit x m p mint hash time later =
     (let amount = lp_amount_msat p div 1000
      in bind_result (ok_or Unavailable (mint_invoice m mint amount)) (\<lambda>quote.
         bind_result (ok_or Unavailable time) (\<lambda>time.
         bind_result (map_sum (\<lambda>_. Unavailable) id (validate_invoice x p hash (q_request quote) time 0)) (\<lambda>i.
         bind_result (ensure (q_amount quote = Some amount \<and> q_unit quote = Sat) Unavailable) (\<lambda>_.
         bind_result (ok_or Unavailable later) (\<lambda>later.
         bind_result (ok_or Unavailable (checked_add 64 (inv_created i) (inv_expiry i))) (\<lambda>end.
         bind_result (ensure (end \<le> q_expiry quote \<and> end \<le> saturating_add 64 later 86400) Unavailable) (\<lambda>_.
         bind_result (ok_or Unavailable (deposit_json m \<lparr>dep_mint = mint, dep_quote = q_id quote, dep_amount = amount,
             dep_invoice = q_request quote, dep_retired = False\<rparr>)) (\<lambda>json.
         Inr (settlement_key p (inv_payment_hash i), json, q_request quote))))))))))"

definition cashu_invoice ::
  "ln_ext \<Rightarrow> l402_ext \<Rightarrow> ln_env \<Rightarrow> lightning_policy \<Rightarrow> string \<Rightarrow> string \<Rightarrow> lightning \<Rightarrow> (ln_error + string) \<times> lightning" where
  "cashu_invoice x m e p mint hash s =
     (case ln_database (e_open e) (e_open_now e) s of
        (Inl err, s1) \<Rightarrow> (Inl err, s1)
      | (Inr _, s1) \<Rightarrow>
          (case ln_write (e_read e) (mints_body (e_read e) mint) s1 of
             (Inl err, s2) \<Rightarrow> (Inl err, s2)
           | (Inr _, s2) \<Rightarrow>
               (case quoted_deposit x m p mint hash (e_time e) (e_now e) of
                  Inl err \<Rightarrow> (Inl err, s2)
                | Inr (key, json, request) \<Rightarrow>
                    (case ln_write (e_tx e) (quote_body (e_tx e) key json) s2 of
                       (Inl err, s3) \<Rightarrow> (Inl err, s3)
                     | (Inr _, s3) \<Rightarrow> (Inr request, s3)))))"

section \<open>What the operations keep\<close>

lemma retain_fm_lookup: "fmlookup (retain_fm keep m) k = (case fmlookup m k of Some v \<Rightarrow> if keep v then Some v else None | None \<Rightarrow> None)"
  by (simp add: retain_fm_def split: option.splits)

text \<open>Pruning removes what has expired, and nothing else.\<close>

lemma prune_spent:
  "prune env time db = Inr db' \<Longrightarrow> fmlookup (spent db') k = filter_option (\<lambda>r. time < r) (fmlookup (spent db) k)"
  by (auto simp: prune_def retain_fm_lookup split: if_splits option.splits)

lemma prune_roots:
  "prune env time db = Inr db' \<Longrightarrow> fmlookup (roots db') k = filter_option (\<lambda>(_, r). time < r) (fmlookup (roots db) k)"
  by (auto simp: prune_def retain_fm_lookup split: if_splits option.splits)

lemma prune_others: "prune env time db = Inr db' \<Longrightarrow> quotes db' = quotes db \<and> mint_urls db' = mint_urls db"
  by (auto simp: prune_def split: if_splits)

lemma ln_write_keeps:
  assumes "ln_write env body s = (r, s')" "Q (ln_db s)" "\<And>a db'. body (ln_db s) = Inr (a, db') \<Longrightarrow> Q db'"
  shows "Q (ln_db s')"
  using assms blocking_write_tx_keeps [of env Unavailable body "ln_db s" r "ln_db s'" Q]
  by (auto simp: ln_write_def split: prod.splits)

lemma ln_write_Inr:
  assumes "ln_write env body s = (Inr a, s')"
  shows "body (ln_db s) = Inr (a, ln_db s') \<and> ln_open s' = ln_open s"
  using assms blocking_write_tx_Inr [of env Unavailable body "ln_db s" a "ln_db s'"]
  by (auto simp: ln_write_def split: prod.splits)

lemma ln_write_open: "ln_write env body s = (r, s') \<Longrightarrow> ln_open s' = ln_open s"
  by (auto simp: ln_write_def split: prod.splits)

lemma ln_database_cases:
  assumes "ln_database env now s = (r, s')"
  obtains "ln_db s' = ln_db s" | time where "now = Some time" "prune env time (ln_db s) = Inr (ln_db s')"
  using assms
  by (auto simp: ln_database_def write_tx_def open_body_def split: if_splits sum.splits prod.splits option.splits)

text \<open>\<open>barrier_kept\<close>: the entry of a key with retention \<open>R\<close> is still there, or one of the clock readings
  was at or past \<open>R\<close>; and the credentials' roots are among the old ones and \<open>N\<close>.\<close>

definition barrier_kept :: "string \<Rightarrow> nat \<Rightarrow> nat set \<Rightarrow> (string \<times> string \<times> nat) set \<Rightarrow> lightning_db \<Rightarrow> lightning_db \<Rightarrow> bool" where
  "barrier_kept k R clk N db db' \<longleftrightarrow>
     (fmlookup (spent db) k = Some R \<longrightarrow> fmlookup (spent db') k = Some R \<or> (\<exists>time\<in>clk. R \<le> time))
     \<and> (\<forall>key v. fmlookup (roots db') key = Some v \<longrightarrow> fmlookup (roots db) key = Some v \<or> (key, v) \<in> N)"

definition readings :: "ln_env \<Rightarrow> nat set" where
  "readings e = set_option (e_open_now e) \<union> set_option (e_now e)"

lemma barrier_refl [simp]: "barrier_kept k R clk N db db"
  by (simp add: barrier_kept_def)

lemma barrier_trans:
  "barrier_kept k R clk N a b \<Longrightarrow> barrier_kept k R clk N b c \<Longrightarrow> barrier_kept k R clk N a c"
  unfolding barrier_kept_def by metis

lemma barrier_mono: "barrier_kept k R clk N a b \<Longrightarrow> clk \<subseteq> clk' \<Longrightarrow> barrier_kept k R clk' N a b"
  unfolding barrier_kept_def by blast

lemma ln_database_keeps: "ln_database env now s = (r, s') \<Longrightarrow> barrier_kept k R (set_option now) N (ln_db s) (ln_db s')"
  by (erule ln_database_cases) (auto simp: barrier_kept_def prune_spent prune_roots filter_option_eq_Some)

lemma ln_database_open: "ln_database env now s = (Inr u, s') \<Longrightarrow> ln_open s'"
  by (auto simp: ln_database_def split: if_splits sum.splits prod.splits)

lemma ln_database_readings: "ln_database (e_open e) (e_open_now e) s = (r, s') \<Longrightarrow> barrier_kept k R (readings e) N (ln_db s) (ln_db s')"
  by (rule barrier_mono [OF ln_database_keeps]) (auto simp: readings_def)

lemma claim_spent_keeps:
  "claim_spent env now key ret db = Inr (b, db') \<Longrightarrow> fmlookup (spent db) k = Some R \<Longrightarrow> fmlookup (spent db') k = Some R"
  by (auto simp: claim_spent_def split: if_splits)

lemma claim_spent_roots: "claim_spent env now key ret db = Inr (b, db') \<Longrightarrow> roots db' = roots db"
  by (auto simp: claim_spent_def split: if_splits)

lemma claim_spent_barrier: "claim_spent env now key ret db = Inr (b, db') \<Longrightarrow> barrier_kept k R clk N db db'"
  using claim_spent_keeps [of env now key ret db b db' k R] claim_spent_roots [of env now key ret db b db']
  by (auto simp: barrier_kept_def)

text \<open>A transaction whose body keeps the entry.\<close>

lemma ln_write_barrier:
  assumes "ln_write env body s = (r, s')"
    and "\<And>a db'. body (ln_db s) = Inr (a, db') \<Longrightarrow> barrier_kept k R clk N (ln_db s) db'"
  shows "barrier_kept k R clk N (ln_db s) (ln_db s')"
  by (rule ln_write_keeps [OF assms(1)]) (auto intro: assms(2))

lemma ln_claim_keeps:
  assumes "ln_claim e key ret s = (r, s')"
  shows "barrier_kept k R (readings e) N (ln_db s) (ln_db s')"
proof -
  obtain r1 s1 where d: "ln_database (e_open e) (e_open_now e) s = (r1, s1)" by fastforce
  consider "s' = s1" | r2 where "ln_write (e_tx e) (claim_spent (e_tx e) (e_now e) key ret) s1 = (r2, s')"
    using assms d by (auto simp: ln_claim_def split: sum.splits prod.splits)
  then have "barrier_kept k R (readings e) N (ln_db s1) (ln_db s')"
    by cases (auto intro: ln_write_barrier [OF _ claim_spent_barrier])
  then show ?thesis using barrier_trans [OF ln_database_readings [OF d]] by blast
qed

lemma ln_claim_grant:
  assumes "ln_claim e key ret s = (Inr u, s')"
  shows "fmlookup (spent (ln_db s')) key = Some ret \<and> (\<exists>time. e_now e = Some time \<and> time < ret)
     \<and> (\<forall>R. fmlookup (spent (ln_db s)) key = Some R \<longrightarrow> (\<exists>time\<in>set_option (e_open_now e). R \<le> time))"
proof -
  obtain u1 s1 where d: "ln_database (e_open e) (e_open_now e) s = (Inr u1, s1)"
    and w: "ln_write (e_tx e) (claim_spent (e_tx e) (e_now e) key ret) s1 = (Inr True, s')"
    using assms by (auto simp: ln_claim_def split: sum.splits prod.splits if_splits)
  have c: "claim_spent (e_tx e) (e_now e) key ret (ln_db s1) = Inr (True, ln_db s')"
    using ln_write_Inr [OF w] by simp
  have "fmlookup (spent (ln_db s1)) key = None"
    using c by (auto simp: claim_spent_def split: if_splits)
  then have free: "\<forall>R. fmlookup (spent (ln_db s)) key = Some R \<longrightarrow> (\<exists>time\<in>set_option (e_open_now e). R \<le> time)"
    using ln_database_keeps [OF d, of key _ UNIV] by (simp add: barrier_kept_def)
  have "ln_db s' = (ln_db s1)\<lparr>spent := fmupd key ret (spent (ln_db s1))\<rparr>" "\<exists>time. e_now e = Some time \<and> time < ret"
    using c by (auto simp: claim_spent_def split: if_splits)
  then have "fmlookup (spent (ln_db s')) key = Some ret" "\<exists>time. e_now e = Some time \<and> time < ret"
    by simp_all
  with free show ?thesis by blast
qed

section \<open>A run of the database\<close>

text \<open>An operation carries the delays before its clock readings instead of the readings, so that a run
  is one over a clock that does not go back; what the clock reads is otherwise arbitrary.\<close>

datatype ln_op =
    Ln_settle ln_env lightning_policy string string
  | Ln_settle_l402 ln_env lightning_policy string string
  | Ln_mint ln_env lightning_policy string string invoice "string option" "string option"
  | Ln_cashu_invoice ln_env lightning_policy string string
  | Ln_capacity ln_env nat
  | Ln_prune ln_env bool
  | Ln_restart

datatype ln_result = Granted string | Not_granted

definition delay :: "nat option \<Rightarrow> nat" where
  "delay d = (case d of Some n \<Rightarrow> n | None \<Rightarrow> 0)"

definition at_clock :: "nat \<Rightarrow> ln_env \<Rightarrow> ln_env" where
  "at_clock t e = e\<lparr>e_open_now := map_option (\<lambda>d. t + d) (e_open_now e),
     e_time := map_option (\<lambda>d. t + d) (e_time e),
     e_now := map_option (\<lambda>d. t + delay (e_open_now e) + d) (e_now e)\<rparr>"

definition end_clock :: "nat \<Rightarrow> ln_env \<Rightarrow> nat" where
  "end_clock t e = t + delay (e_open_now e) + delay (e_time e) + delay (e_now e)"

definition grant_of :: "string \<Rightarrow> (ln_error + 'a) \<Rightarrow> ln_result" where
  "grant_of key r = (case r of Inr _ \<Rightarrow> Granted key | Inl _ \<Rightarrow> Not_granted)"

definition l402_key :: "ln_ext \<Rightarrow> lightning_policy \<Rightarrow> string \<Rightarrow> string" where
  "l402_key x p encoded =
     (case parse_credential x encoded of Inr (mac, _) \<Rightarrow> settlement_key p (take 32 (drop 2 (mac_identifier mac))) | Inl _ \<Rightarrow> [])"

fun ln_step :: "ln_ext \<Rightarrow> l402_ext \<Rightarrow> nat \<times> lightning \<Rightarrow> ln_op \<Rightarrow> ln_result \<times> (nat \<times> lightning)" where
  "ln_step x m (t, s) (Ln_settle e p hash encoded) =
     (case ln_settle x (at_clock t e) p hash encoded s of
        (Inr (h, network), s') \<Rightarrow> (Granted (network @ '':'' @ h), (end_clock t e, s'))
      | (Inl _, s') \<Rightarrow> (Not_granted, (end_clock t e, s')))"
| "ln_step x m (t, s) (Ln_settle_l402 e p hash encoded) =
     (case settle_l402 x m (at_clock t e) p hash encoded s of
        (r, s') \<Rightarrow> (grant_of (l402_key x p encoded) r, (end_clock t e, s')))"
| "ln_step x m (t, s) (Ln_mint e p hash encoded i root random) =
     (Not_granted, (end_clock t e, snd (mint_l402 x m (at_clock t e) p hash encoded i root random s)))"
| "ln_step x m (t, s) (Ln_cashu_invoice e p mint hash) =
     (Not_granted, (end_clock t e, snd (cashu_invoice x m (at_clock t e) p mint hash s)))"
| "ln_step x m (t, s) (Ln_capacity e needed) =
     (Not_granted, (end_clock t e, snd (check_challenge_capacity (at_clock t e) needed s)))"
| "ln_step x m (t, s) (Ln_prune e path_exists) =
     (Not_granted, (end_clock t e, snd (prune_expired (at_clock t e) path_exists s)))"
| "ln_step x m (t, s) Ln_restart = (Not_granted, (t, ln_restart s))"

section \<open>No barrier is lost\<close>

lemma root_body_keeps:
  "root_body env key root v db = Inr (u, db') \<Longrightarrow> (key, root, v) \<in> N \<Longrightarrow> barrier_kept k R clk N db db'"
  by (auto simp: root_body_def barrier_kept_def split: if_splits)

lemma mints_body_keeps: "mints_body env mint db = Inr (u, db') \<Longrightarrow> spent db' = spent db \<and> roots db' = roots db"
  by (auto simp: mints_body_def)

lemma quote_body_keeps: "quote_body env key json db = Inr (u, db') \<Longrightarrow> spent db' = spent db \<and> roots db' = roots db"
  by (auto simp: quote_body_def)

lemma same_spent: "spent db' = spent db \<and> roots db' = roots db \<Longrightarrow> barrier_kept k R clk N db db'"
  by (simp add: barrier_kept_def)

lemma ln_settle_keeps: "ln_settle x e p hash encoded s = (r, s') \<Longrightarrow> barrier_kept k R (readings e) N (ln_db s) (ln_db s')"
  by (auto simp: ln_settle_def split: option.splits sum.splits prod.splits dest: ln_claim_keeps)

lemma collect_cashu_keeps:
  "collect_cashu_invoice m e p mint key s = (r, s') \<Longrightarrow> barrier_kept k R (readings e) N (ln_db s) (ln_db s')"
  by (auto simp: collect_cashu_invoice_def split: sum.splits prod.splits dest: ln_database_readings)

lemma l402_collect_keeps:
  "l402_collect m e p key s = (r, s') \<Longrightarrow> barrier_kept k R (readings e) N (ln_db s) (ln_db s')"
  by (auto simp: l402_collect_def split: option.splits dest: collect_cashu_keeps)

lemma settle_l402_keeps:
  assumes "settle_l402 x m e p hash encoded s = (r, s')"
  shows "barrier_kept k R (readings e) N (ln_db s) (ln_db s')"
proof -
  obtain r1 s1 where d: "ln_database (e_open e) (e_open_now e) s = (r1, s1)" by fastforce
  have b: "barrier_kept k R (readings e) N (ln_db s) (ln_db s1)" by (rule ln_database_readings [OF d])
  consider "s' = s" | "s' = s1" | key r2 where "l402_collect m e p key s1 = (r2, s')"
    | key ret r2 s2 where "l402_collect m e p key s1 = (r2, s2)" "ln_claim e key ret s2 = (r, s')"
    using assms d by (auto simp: settle_l402_def split: if_splits sum.splits prod.splits)
  then show ?thesis
    by cases (use b in \<open>auto intro: barrier_trans [OF b] barrier_trans dest: l402_collect_keeps ln_claim_keeps\<close>)
qed

definition minted_roots :: "ln_ext \<Rightarrow> invoice \<Rightarrow> string option \<Rightarrow> (string \<times> string \<times> nat) set" where
  "minted_roots x i random =
     {(digest x (l402_identifier i bytes), root, v) | bytes root v. random = Some bytes \<and> l402_valid_before i = Some v}"

lemma build_credential_valid: "build_credential x m p hash i root random = Some (mac, encoded, v) \<Longrightarrow> l402_valid_before i = Some v"
  by (auto simp: build_credential_def Let_def bind_eq_Some_conv split: option.splits)

lemma mint_l402_keeps:
  assumes "mint_l402 x m e p hash encoded i root random s = (r, s')"
  shows "barrier_kept k R (readings e) (minted_roots x i random) (ln_db s) (ln_db s')"
proof -
  obtain r1 s1 where d: "ln_database (e_open e) (e_open_now e) s = (r1, s1)" by fastforce
  consider "s' = s" | "s' = s1"
    | rnd v rt r2 where "ln_write (e_tx e) (root_body (e_tx e) (digest x (l402_identifier i rnd)) rt v) s1 = (r2, s')"
        "l402_valid_before i = Some v" "random = Some rnd"
    using assms d by (auto simp: mint_l402_def split: if_splits sum.splits prod.splits option.splits dest: build_credential_valid)
  then have "s' = s \<or> barrier_kept k R (readings e) (minted_roots x i random) (ln_db s1) (ln_db s')"
  proof cases
    case 3
    then have "(digest x (l402_identifier i rnd), rt, v) \<in> minted_roots x i random" by (auto simp: minted_roots_def)
    then show ?thesis by (auto intro: ln_write_barrier [OF 3(1)] root_body_keeps)
  qed simp_all
  then show ?thesis using barrier_trans [OF ln_database_readings [OF d]] by auto
qed

lemma cashu_invoice_keeps:
  assumes "cashu_invoice x m e p mint hash s = (r, s')"
  shows "barrier_kept k R (readings e) N (ln_db s) (ln_db s')"
proof -
  obtain r1 s1 where d: "ln_database (e_open e) (e_open_now e) s = (r1, s1)" by fastforce
  obtain r2 s2 where w: "ln_write (e_read e) (mints_body (e_read e) mint) s1 = (r2, s2)" by fastforce
  have b: "barrier_kept k R (readings e) N (ln_db s) (ln_db s2)"
    using barrier_trans [OF ln_database_readings [OF d]] ln_write_barrier [OF w same_spent] mints_body_keeps by blast
  consider "s' = s1" | "s' = s2" | key json r3 where "ln_write (e_tx e) (quote_body (e_tx e) key json) s2 = (r3, s')"
    using assms d w by (auto simp: cashu_invoice_def split: sum.splits prod.splits)
  then show ?thesis
  proof cases
    case 3
    then show ?thesis using barrier_trans [OF b] ln_write_barrier [OF 3 same_spent] quote_body_keeps by blast
  qed (use b ln_database_readings [OF d] in simp_all)
qed

lemma prune_expired_keeps:
  assumes "prune_expired e path_exists s = (r, s')"
  shows "barrier_kept k R (readings e) N (ln_db s) (ln_db s')"
proof -
  obtain r1 s1 where d: "ln_database (e_open e) (e_open_now e) s = (r1, s1)" by fastforce
  let ?b = "\<lambda>db. bind_result (ok_or Unavailable (e_now e)) (\<lambda>time.
      bind_result (prune (e_tx e) time db) (\<lambda>db'. Inr ((), db')))"
  have p: "?b db = Inr (a, db') \<Longrightarrow> barrier_kept k R (readings e) N db db'" for a db db'
    by (auto simp: barrier_kept_def readings_def prune_spent prune_roots filter_option_eq_Some)
  consider "s' = s" | "s' = s1" | r2 where "ln_write (e_tx e) ?b s1 = (r2, s')"
    using assms d by (auto simp: prune_expired_def split: if_splits sum.splits prod.splits)
  then have "s' = s \<or> barrier_kept k R (readings e) N (ln_db s1) (ln_db s')"
    by cases (auto intro: ln_write_barrier [OF _ p])
  then show ?thesis using barrier_trans [OF ln_database_readings [OF d]] by auto
qed

lemma capacity_check_keeps:
  "check_challenge_capacity e n s = (r, s') \<Longrightarrow> barrier_kept k R (readings e) N (ln_db s) (ln_db s')"
  by (auto simp: check_challenge_capacity_def split: sum.splits prod.splits if_splits dest: ln_database_readings)

section \<open>A payment settles once\<close>

lemma l402_retention: "l402_valid_before i = Some v \<Longrightarrow> saturating_add 64 v 3599 = x402_retention i"
  by (auto simp: l402_valid_before_def x402_retention_def rust_arith SKEW_def bind_eq_Some_conv split: if_splits)

lemma readings_clock: "time \<in> readings (at_clock t e) \<Longrightarrow> t \<le> time \<and> time \<le> end_clock t e"
  by (auto simp: readings_def at_clock_def end_clock_def delay_def split: option.splits)

text \<open>The key is spent, or the time of its entry has come.\<close>

definition key_taken :: "nat \<Rightarrow> nat \<times> lightning \<Rightarrow> string \<Rightarrow> bool" where
  "key_taken R = (\<lambda>(t, s) k. fmlookup (spent (ln_db s)) k = Some R \<or> R \<le> t)"

text \<open>Every stored root of an identifier of \<open>I\<close> whose key is \<open>k\<close> is kept until \<open>R\<close>.\<close>

definition roots_agree :: "ln_ext \<Rightarrow> string set \<Rightarrow> nat \<Rightarrow> nat \<times> lightning \<Rightarrow> string \<Rightarrow> bool" where
  "roots_agree x I R = (\<lambda>(t, s) k. \<forall>ident\<in>I. \<forall>root v p. fmlookup (roots (ln_db s)) (digest x ident) = Some (root, v)
     \<and> settlement_key p (take 32 (drop 2 ident)) = k \<longrightarrow> saturating_add 64 v 3599 = R)"

text \<open>The invoices an operation brings in: the one a credential is minted for; and the one in an x402 payment,
  when it is signed by the node of the policy. The identifiers it brings in are those of the credential
  it mints or is presented.\<close>

fun op_invoices :: "ln_ext \<Rightarrow> ln_op \<Rightarrow> invoice set" where
  "op_invoices x (Ln_mint e p hash encoded i root random) = {i}"
| "op_invoices x (Ln_settle e p hash encoded) =
     {i. \<exists>pay node. Option.bind (base64_decode x encoded) (payment_json x) = Some pay
        \<and> bolt11 x (x_invoice (r_extra (pay_accepted pay))) = Some i \<and> inv_signature_ok i
        \<and> receiver_ldk (lp_receiver p) = Some node \<and> inv_payee i = ldk_pay_to node}"
| "op_invoices x _ = {}"

fun op_identifiers :: "ln_ext \<Rightarrow> ln_op \<Rightarrow> string set" where
  "op_identifiers x (Ln_mint e p hash encoded i root random) = l402_identifier i ` set_option random"
| "op_identifiers x (Ln_settle_l402 e p hash encoded) =
     {mac_identifier mac | mac pre. parse_credential x encoded = Inr (mac, pre)}"
| "op_identifiers x _ = {}"

text \<open>What is relied on for a key: the identifiers in use have distinct hashes; payment hashes have 32 bytes
  and the invoices of the key are kept equally long.\<close>

definition key_laws :: "ln_ext \<Rightarrow> string set \<Rightarrow> invoice set \<Rightarrow> nat \<Rightarrow> string \<Rightarrow> bool" where
  "key_laws x I V R k \<longleftrightarrow> inj_on (sha256 x) I
     \<and> (\<forall>i\<in>V. length (inv_payment_hash i) = 32 \<and> (\<forall>p. settlement_key p (inv_payment_hash i) = k \<longrightarrow> x402_retention i = R))"

definition ln_legal :: "ln_ext \<Rightarrow> string set \<Rightarrow> invoice set \<Rightarrow> nat \<Rightarrow> ln_op \<Rightarrow> string \<Rightarrow> bool" where
  "ln_legal x I V R opn k \<longleftrightarrow> key_laws x I V R k \<and> op_identifiers x opn \<subseteq> I \<and> op_invoices x opn \<subseteq> V"

lemma settlement_key_hash:
  assumes "settlement_key p h = settlement_key q h'" "length h = length h'"
  shows "h = h'"
proof -
  have "length (hex h) = length (hex h')" using assms(2) by simp
  then have "hex h = hex h'" using assms(1) by (simp add: settlement_key_def append_eq_append_conv)
  then show ?thesis by (rule hex_inj)
qed

text \<open>When a payment hash names one invoice, every key has a retention that the invoices agree on.\<close>

lemma key_laws_exist:
  assumes "inj_on (sha256 x) I" "inj_on inv_payment_hash V" "\<forall>i\<in>V. length (inv_payment_hash i) = 32"
  shows "\<exists>R. key_laws x I V R k"
proof (cases "\<exists>i\<in>V. \<exists>p. settlement_key p (inv_payment_hash i) = k")
  case True
  then obtain i p where i: "i \<in> V" "settlement_key p (inv_payment_hash i) = k" by blast
  have "j = i" if "j \<in> V" "settlement_key q (inv_payment_hash j) = k" for j q
  proof -
    have "inv_payment_hash j = inv_payment_hash i"
      by (rule settlement_key_hash [of q _ p]) (use i that assms(3) in simp_all)
    then show ?thesis using inj_onD [OF assms(2)] i(1) that(1) by blast
  qed
  then show ?thesis using assms(1,3) unfolding key_laws_def by blast
next
  case False
  then show ?thesis using assms(1,3) unfolding key_laws_def by blast
qed

definition ln_grants :: "ln_op \<Rightarrow> ln_result \<Rightarrow> string \<Rightarrow> bool" where
  "ln_grants opn r k \<longleftrightarrow> r = Granted k"

fun op_roots :: "ln_ext \<Rightarrow> ln_op \<Rightarrow> (string \<times> string \<times> nat) set" where
  "op_roots x (Ln_mint e p hash encoded i root random) = minted_roots x i random"
| "op_roots x _ = {}"

lemma clocked:
  assumes "\<And>e'. e' = at_clock t e \<Longrightarrow> barrier_kept k R (readings e') N a b"
  shows "t \<le> end_clock t e \<and> barrier_kept k R {t..end_clock t e} N a b"
proof
  show "t \<le> end_clock t e" by (simp add: end_clock_def)
  show "barrier_kept k R {t..end_clock t e} N a b"
    by (rule barrier_mono [OF assms [OF refl]]) (auto dest: readings_clock)
qed

lemma ln_step_keeps:
  assumes "ln_step x m (t, s) opn = (r, (t', s'))"
  shows "t \<le> t' \<and> barrier_kept k R {t..t'} (op_roots x opn) (ln_db s) (ln_db s')"
proof (cases opn)
  case (Ln_settle e p hash encoded)
  obtain r2 where "ln_settle x (at_clock t e) p hash encoded s = (r2, s')" "t' = end_clock t e"
    using assms by (auto simp: Ln_settle split: prod.splits sum.splits)
  then show ?thesis using clocked [OF ln_settle_keeps] by simp
next
  case (Ln_settle_l402 e p hash encoded)
  obtain r2 where "settle_l402 x m (at_clock t e) p hash encoded s = (r2, s')" "t' = end_clock t e"
    using assms by (auto simp: Ln_settle_l402 split: prod.splits)
  then show ?thesis using clocked [OF settle_l402_keeps] by simp
next
  case (Ln_mint e p hash encoded i root random)
  obtain r2 where "mint_l402 x m (at_clock t e) p hash encoded i root random s = (r2, s')" "t' = end_clock t e"
    using assms by (cases "mint_l402 x m (at_clock t e) p hash encoded i root random s") (auto simp: Ln_mint)
  then show ?thesis using clocked [OF mint_l402_keeps] by (simp add: Ln_mint)
next
  case (Ln_cashu_invoice e p mint hash)
  obtain r2 where "cashu_invoice x m (at_clock t e) p mint hash s = (r2, s')" "t' = end_clock t e"
    using assms by (cases "cashu_invoice x m (at_clock t e) p mint hash s") (auto simp: Ln_cashu_invoice)
  then show ?thesis using clocked [OF cashu_invoice_keeps] by simp
next
  case (Ln_capacity e n)
  obtain r2 where "check_challenge_capacity (at_clock t e) n s = (r2, s')" "t' = end_clock t e"
    using assms by (cases "check_challenge_capacity (at_clock t e) n s") (auto simp: Ln_capacity)
  then show ?thesis using clocked [OF capacity_check_keeps] by simp
next
  case (Ln_prune e path_exists)
  obtain r2 where "prune_expired (at_clock t e) path_exists s = (r2, s')" "t' = end_clock t e"
    using assms by (cases "prune_expired (at_clock t e) path_exists s") (auto simp: Ln_prune)
  then show ?thesis using clocked [OF prune_expired_keeps] by simp
next
  case Ln_restart
  then show ?thesis using assms by (auto simp: ln_restart_def)
qed

lemma settle_l402_grant:
  assumes "settle_l402 x m e p hash encoded s = (Inr u, s')"
  obtains mac pre root v and s1 s2 :: lightning where "parse_credential x encoded = Inr (mac, pre)"
    "barrier_kept k R (readings e) {} (ln_db s) (ln_db s1)" "fmlookup (roots (ln_db s1)) (digest x (mac_identifier mac)) = Some (root, v)"
    "barrier_kept k R (readings e) {} (ln_db s1) (ln_db s2)"
    "ln_claim e (settlement_key p (take 32 (drop 2 (mac_identifier mac)))) (saturating_add 64 v 3599) s2 = (Inr u, s')"
proof -
  obtain mac pre u1 s1 key ret u2 s2 where s: "parse_credential x encoded = Inr (mac, pre)"
    "ln_database (e_open e) (e_open_now e) s = (Inr u1, s1)" "l402_authorize x e p hash mac pre s1 = Inr (key, ret)"
    "l402_collect m e p key s1 = (Inr u2, s2)" "ln_claim e key ret s2 = (Inr u, s')"
    using assms by (auto simp: settle_l402_def split: if_splits sum.splits prod.splits)
  obtain root v where r: "fmlookup (roots (ln_db s1)) (digest x (mac_identifier mac)) = Some (root, v)"
    "key = settlement_key p (take 32 (drop 2 (mac_identifier mac)))" "ret = saturating_add 64 v 3599"
    using s(3) by (auto simp: l402_authorize_def read_root_def ln_read_def split: if_splits option.splits prod.splits)
  show ?thesis
    by (rule that [OF s(1) ln_database_readings [OF s(2)] r(1) l402_collect_keeps [OF s(4)] s(5) [unfolded r(2,3)]])
qed

lemma roots_agree_kept:
  assumes "barrier_kept k R clk {} (ln_db s) (ln_db s')" "roots_agree x I R (t, s) k"
  shows "roots_agree x I R (t', s') k"
  using assms unfolding barrier_kept_def roots_agree_def by fastforce

text \<open>What a granting operation has claimed.\<close>

lemma ln_step_grant:
  assumes "ln_step x m (t, s) opn = (Granted k, (t', s'))" "ln_legal x I V R opn k" "roots_agree x I R (t, s) k"
  obtains e s2 where "barrier_kept k R (readings (at_clock t e)) {} (ln_db s) (ln_db s2)"
    "ln_claim (at_clock t e) k R s2 = (Inr (), s')"
proof (cases opn)
  case (Ln_settle e p hash encoded)
  obtain key h ret time where v: "x402_verify x p hash encoded time = Inr (key, h, ret)"
    "ln_claim (at_clock t e) key ret s = (Inr (), s')" "k = receiver_network (lp_receiver p) @ '':'' @ h"
    using assms(1) by (auto simp: Ln_settle ln_settle_def split: prod.splits sum.splits option.splits)
  obtain node i and pay :: payment where i: "receiver_ldk (lp_receiver p) = Some node"
    "Option.bind (base64_decode x encoded) (payment_json x) = Some pay"
    "validate_invoice x p hash (x_invoice (r_extra (pay_accepted pay))) time SKEW = Inr i"
    "key = settlement_key p (inv_payment_hash i)" "h = hex (inv_payment_hash i)" "ret = x402_retention i"
    by (rule x402_verify_cases [OF v(1)]) blast
  have "key = k" using i v(3) by (simp add: settlement_key_def)
  moreover have "i \<in> op_invoices x opn"
    using i(1,2) validate_invoice_sound [OF i(3)] validate_invoice_ldk [OF i(3,1)] by (simp add: Ln_settle)
  then have "ret = R"
    using assms(2) i(4,6) \<open>key = k\<close> unfolding ln_legal_def key_laws_def by blast
  ultimately show ?thesis using that [of e s] v(2) by simp
next
  case (Ln_settle_l402 e p hash encoded)
  have g: "settle_l402 x m (at_clock t e) p hash encoded s = (Inr (), s')" and k: "k = l402_key x p encoded"
    using assms(1) by (auto simp: Ln_settle_l402 grant_of_def split: prod.splits sum.splits)
  obtain mac pre root v and s1 s2 :: lightning where c: "parse_credential x encoded = Inr (mac, pre)"
    "barrier_kept k R (readings (at_clock t e)) {} (ln_db s) (ln_db s1)"
    "fmlookup (roots (ln_db s1)) (digest x (mac_identifier mac)) = Some (root, v)"
    "barrier_kept k R (readings (at_clock t e)) {} (ln_db s1) (ln_db s2)"
    "ln_claim (at_clock t e) (settlement_key p (take 32 (drop 2 (mac_identifier mac)))) (saturating_add 64 v 3599) s2 = (Inr (), s')"
    by (rule settle_l402_grant [OF g])
  have k': "settlement_key p (take 32 (drop 2 (mac_identifier mac))) = k" using c(1) by (simp add: k l402_key_def)
  have "mac_identifier mac \<in> I" using assms(2) c(1) by (auto simp: Ln_settle_l402 ln_legal_def subset_iff)
  then have "saturating_add 64 v 3599 = R"
    using roots_agree_kept [OF c(2) assms(3)] c(3) k' unfolding roots_agree_def by fastforce
  then show ?thesis using that [of e s2] barrier_trans [OF c(2,4)] c(5) k' by simp
qed (use assms(1) in auto)

lemma identifier_hash: "length (inv_payment_hash i) = 32 \<Longrightarrow> take 32 (drop 2 (l402_identifier i bytes)) = inv_payment_hash i"
  by (simp add: l402_identifier_def)

lemma minted_root_agrees:
  assumes "key_laws x I V R k" "i \<in> V" "l402_identifier i bytes \<in> I" "l402_valid_before i = Some v"
    and "ident \<in> I" "digest x ident = digest x (l402_identifier i bytes)" "settlement_key p (take 32 (drop 2 ident)) = k"
  shows "saturating_add 64 v 3599 = R"
proof -
  have "sha256 x ident = sha256 x (l402_identifier i bytes)" using assms(6) by (simp add: digest_def hex_inj)
  then have "ident = l402_identifier i bytes" using assms(1,3,5) unfolding key_laws_def by (blast dest: inj_onD)
  moreover have "length (inv_payment_hash i) = 32" using assms(1,2) unfolding key_laws_def by blast
  ultimately have "settlement_key p (inv_payment_hash i) = k" using assms(7) identifier_hash by simp
  then have "x402_retention i = R" using assms(1,2) unfolding key_laws_def by blast
  then show ?thesis using l402_retention [OF assms(4)] by simp
qed

lemma ln_step_roots_agree:
  assumes "ln_step x m (t, s) opn = (r, (t', s'))" "ln_legal x I V R opn k" "roots_agree x I R (t, s) k"
  shows "roots_agree x I R (t', s') k"
proof -
  have b: "\<forall>key w. fmlookup (roots (ln_db s')) key = Some w \<longrightarrow> fmlookup (roots (ln_db s)) key = Some w \<or> (key, w) \<in> op_roots x opn"
    using ln_step_keeps [OF assms(1), of k R] unfolding barrier_kept_def by blast
  have "saturating_add 64 v 3599 = R" if a: "ident \<in> I" "fmlookup (roots (ln_db s')) (digest x ident) = Some (root, v)"
      "settlement_key p (take 32 (drop 2 ident)) = k" for ident root v p
  proof (cases "fmlookup (roots (ln_db s)) (digest x ident) = Some (root, v)")
    case True
    then show ?thesis using assms(3) a unfolding roots_agree_def by fastforce
  next
    case False
    then have "(digest x ident, root, v) \<in> op_roots x opn" using b a(2) by blast
    then obtain e q hash encoded i rt bytes where o: "opn = Ln_mint e q hash encoded i rt (Some bytes)"
      "digest x ident = digest x (l402_identifier i bytes)" "l402_valid_before i = Some v"
      by (cases opn) (auto simp: minted_roots_def)
    show ?thesis
      by (rule minted_root_agrees [where V = V, OF _ _ _ o(3) a(1) o(2) a(3)])
        (use assms(2) in \<open>auto simp: o(1) ln_legal_def\<close>)
  qed
  then show ?thesis unfolding roots_agree_def by auto
qed

lemma ln_step_taken:
  assumes "ln_step x m (t, s) opn = (r, (t', s'))" "key_taken R (t, s) k"
  shows "key_taken R (t', s') k"
  using ln_step_keeps [OF assms(1), of k R] assms(2) by (auto simp: key_taken_def barrier_kept_def)

lemma ln_step_grant_free:
  assumes "ln_step x m (t, s) opn = (Granted k, (t', s'))" "ln_legal x I V R opn k" "roots_agree x I R (t, s) k"
  shows "\<not> key_taken R (t, s) k \<and> key_taken R (t', s') k"
proof -
  obtain e s2 where g: "barrier_kept k R (readings (at_clock t e)) {} (ln_db s) (ln_db s2)"
    "ln_claim (at_clock t e) k R s2 = (Inr (), s')"
    by (rule ln_step_grant [OF assms])
  obtain now where c: "fmlookup (spent (ln_db s')) k = Some R" "e_now (at_clock t e) = Some now" "now < R"
    "fmlookup (spent (ln_db s2)) k = Some R \<Longrightarrow> \<exists>time\<in>set_option (e_open_now (at_clock t e)). R \<le> time"
    using ln_claim_grant [OF g(2)] by blast
  have late: "time \<le> now" if "time \<in> readings (at_clock t e)" for time
    using c(2) that by (auto simp: readings_def at_clock_def delay_def)
  have "t \<le> now" using c(2) by (auto simp: at_clock_def)
  then have "\<not> R \<le> t" using c(3) by simp
  moreover have "fmlookup (spent (ln_db s)) k \<noteq> Some R"
  proof
    assume "fmlookup (spent (ln_db s)) k = Some R"
    then have "\<exists>time\<in>readings (at_clock t e). R \<le> time"
      using g(1) c(4) unfolding barrier_kept_def readings_def by blast
    then show False using late c(3) by fastforce
  qed
  ultimately show ?thesis using c(1) by (simp add: key_taken_def)
qed

section \<open>Records\<close>

text \<open>A predicate on the tables that the bodies of the transactions keep is kept by every operation; it
  may depend on pruning at readings of the clock in \<open>T\<close> only.\<close>

locale table_invariant =
  fixes Q :: "lightning_db \<Rightarrow> bool" and T :: "nat set"
  assumes prune_inv: "\<lbrakk>prune env time db = Inr db'; time \<in> T; Q db\<rbrakk> \<Longrightarrow> Q db'"
    and claim_inv: "\<lbrakk>claim_spent env now key ret db = Inr (b, db'); Q db\<rbrakk> \<Longrightarrow> Q db'"
    and root_inv: "\<lbrakk>root_body env key root v db = Inr (u, db'); Q db\<rbrakk> \<Longrightarrow> Q db'"
    and mints_inv: "\<lbrakk>mints_body env mint db = Inr (u, db'); Q db\<rbrakk> \<Longrightarrow> Q db'"
    and quote_inv: "\<lbrakk>quote_body env key json db = Inr (u, db'); Q db\<rbrakk> \<Longrightarrow> Q db'"
begin

lemma database_inv: "ln_database env now s = (r, s') \<Longrightarrow> set_option now \<subseteq> T \<Longrightarrow> Q (ln_db s) \<Longrightarrow> Q (ln_db s')"
  by (erule ln_database_cases) (auto intro: prune_inv)

lemma database_readings_inv:
  "ln_database (e_open e) (e_open_now e) s = (r, s') \<Longrightarrow> readings e \<subseteq> T \<Longrightarrow> Q (ln_db s) \<Longrightarrow> Q (ln_db s')"
  by (rule database_inv) (auto simp: readings_def)

lemmas write_inv = ln_write_keeps [where Q = Q]

lemma claim_op_inv: "ln_claim e key ret s = (r, s') \<Longrightarrow> readings e \<subseteq> T \<Longrightarrow> Q (ln_db s) \<Longrightarrow> Q (ln_db s')"
  by (auto simp: ln_claim_def split: sum.splits prod.splits elim!: write_inv intro: claim_inv dest: database_readings_inv)

lemma settle_inv: "ln_settle x e p hash encoded s = (r, s') \<Longrightarrow> readings e \<subseteq> T \<Longrightarrow> Q (ln_db s) \<Longrightarrow> Q (ln_db s')"
  by (auto simp: ln_settle_def split: option.splits sum.splits prod.splits dest: claim_op_inv)

lemma collect_inv: "l402_collect m e p key s = (r, s') \<Longrightarrow> readings e \<subseteq> T \<Longrightarrow> Q (ln_db s) \<Longrightarrow> Q (ln_db s')"
  by (auto simp: l402_collect_def collect_cashu_invoice_def split: option.splits sum.splits prod.splits dest: database_readings_inv)

lemma settle_l402_inv: "settle_l402 x m e p hash encoded s = (r, s') \<Longrightarrow> readings e \<subseteq> T \<Longrightarrow> Q (ln_db s) \<Longrightarrow> Q (ln_db s')"
  by (auto simp: settle_l402_def split: if_splits sum.splits prod.splits dest!: database_readings_inv collect_inv claim_op_inv)

lemma mint_inv: "mint_l402 x m e p hash encoded i root random s = (r, s') \<Longrightarrow> readings e \<subseteq> T \<Longrightarrow> Q (ln_db s) \<Longrightarrow> Q (ln_db s')"
  by (auto simp: mint_l402_def split: if_splits sum.splits prod.splits option.splits elim!: write_inv intro: root_inv
      dest!: database_readings_inv)

lemma quote_op_inv: "cashu_invoice x m e p mint hash s = (r, s') \<Longrightarrow> readings e \<subseteq> T \<Longrightarrow> Q (ln_db s) \<Longrightarrow> Q (ln_db s')"
  by (auto simp: cashu_invoice_def split: sum.splits prod.splits elim!: write_inv intro: quote_inv mints_inv dest!: database_readings_inv)

lemma capacity_op_inv: "check_challenge_capacity e n s = (r, s') \<Longrightarrow> readings e \<subseteq> T \<Longrightarrow> Q (ln_db s) \<Longrightarrow> Q (ln_db s')"
  by (auto simp: check_challenge_capacity_def split: sum.splits prod.splits if_splits dest: database_readings_inv)

lemma prune_op_inv: "prune_expired e path_exists s = (r, s') \<Longrightarrow> readings e \<subseteq> T \<Longrightarrow> Q (ln_db s) \<Longrightarrow> Q (ln_db s')"
  by (auto simp: prune_expired_def split: sum.splits prod.splits if_splits elim!: write_inv dest!: database_readings_inv)
    (auto simp: readings_def intro: prune_inv)

lemma readings_within: "{t..end_clock t e} \<subseteq> T \<Longrightarrow> readings (at_clock t e) \<subseteq> T"
  using readings_clock by fastforce

lemmas op_inv = settle_inv [OF _ readings_within] settle_l402_inv [OF _ readings_within]
  mint_inv [OF prod.collapse [symmetric] readings_within] quote_op_inv [OF prod.collapse [symmetric] readings_within]
  capacity_op_inv [OF prod.collapse [symmetric] readings_within] prune_op_inv [OF prod.collapse [symmetric] readings_within]

lemma op_step_inv: "ln_step x m (t, s) opn = (r, (t', s')) \<Longrightarrow> {t..t'} \<subseteq> T \<Longrightarrow> Q (ln_db s) \<Longrightarrow> Q (ln_db s')"
  by (cases opn) (auto simp: ln_restart_def split: prod.splits sum.splits dest: op_inv)

end

lemma retain_fm_len: "fmlen (retain_fm keep m) \<le> fmlen m"
  by (simp add: retain_fm_def fmlen_filter_le)

definition records_ok :: "lightning_db \<Rightarrow> bool" where
  "records_ok db \<longleftrightarrow> fmlen (roots db) + fmlen (quotes db) \<le> MAX_CHALLENGE_RECORDS"

lemma check_capacity_ok: "check_capacity env 1 db = Inr () \<Longrightarrow> fmlen (roots db) + fmlen (quotes db) < MAX_CHALLENGE_RECORDS"
  by (auto simp: check_capacity_def saturating_add_def MAX_CHALLENGE_RECORDS_def)

interpretation records: table_invariant records_ok UNIV
proof
  show "records_ok db'" if "prune env time db = Inr db'" "records_ok db" for env time db db'
    using that order_trans [OF add_right_mono [OF retain_fm_len]] by (auto simp: prune_def records_ok_def split: if_splits)
  show "records_ok db'" if "claim_spent env now key ret db = Inr (b, db')" "records_ok db" for env now key ret b db db'
    using that by (auto simp: claim_spent_def records_ok_def split: if_splits)
  show "records_ok db'" if "root_body env key root v db = Inr (u, db')" "records_ok db" for env key root v u db db'
  proof -
    have "check_capacity env 1 db = Inr ()" using that(1) by (auto simp: root_body_def)
    then show ?thesis using check_capacity_ok [of env db] that(1) by (auto simp: root_body_def records_ok_def fmlen_upd)
  qed
  show "records_ok db'" if "mints_body env mint db = Inr (u, db')" "records_ok db" for env mint u db db'
    using that by (auto simp: mints_body_def records_ok_def)
  show "records_ok db'" if "quote_body env key json db = Inr (u, db')" "records_ok db" for env key json u db db'
  proof -
    have "check_capacity env 1 db = Inr ()" using that(1) by (auto simp: quote_body_def)
    then show ?thesis using check_capacity_ok [of env db] that(1) by (auto simp: quote_body_def records_ok_def fmlen_upd)
  qed
qed

section \<open>Credentials work\<close>

lemma ascii_digits: "list_all is_ascii (show_nat n)"
  using show_nat_digits [of n] by (auto simp: list_all_iff is_ascii_digit_def is_ascii_def)

lemma lowercase_hex_chars: "lowercase_hex s \<Longrightarrow> list_all is_ascii s \<and> to_ascii_lowercase s = s"
  by (induction s) (auto simp: lowercase_hex_def is_ascii_digit_def is_ascii_def to_ascii_lowercase_def ascii_lower_def is_ascii_upper_def)

lemmas ascii_hex = lowercase_hex_chars [OF lowercase_hex_hex]

lemma predicates_utf8:
  "list_all is_ascii hash \<Longrightarrow> list_all is_ascii trms \<Longrightarrow> p \<in> set (l402_predicates hash trms v) \<Longrightarrow> utf8_valid p"
  by (rule utf8_valid_ascii) (auto simp: l402_predicates_def service_caveat_def request_caveat_def terms_caveat_def
      until_prefix_def ascii_digits is_ascii_def)

lemma caveats_distinct:
  "service_caveat \<noteq> request_caveat h" "service_caveat \<noteq> terms_caveat t" "request_caveat h \<noteq> terms_caveat t"
  "request_caveat h \<noteq> service_caveat" "terms_caveat t \<noteq> service_caveat" "terms_caveat t \<noteq> request_caveat h"
  "until_prefix @ v \<noteq> service_caveat" "until_prefix @ v \<noteq> request_caveat h" "until_prefix @ v \<noteq> terms_caveat t"
  by (simp_all add: service_caveat_def request_caveat_def terms_caveat_def until_prefix_def)

lemma minted_verifies:
  assumes "terms x p hash = Some trms" "list_all is_ascii hash" "time < v" "v < 2 ^ 64"
    and "hmac_sha256 x root (mac_identifier mac) = Some key"
    and "sign_predicates x key (l402_predicates hash trms v) = Some (mac_signature mac)"
    and "mac_caveats mac = map First_party (l402_predicates hash trms v)"
    and "macaroon_verify x mac root (l402_predicates hash trms v)"
  shows "l402_verify x p hash mac preimage root v time = Inr ()"
proof -
  have t: "list_all is_ascii trms" using assms(1) by (auto simp: terms_def digest_def ascii_hex)
  have u: "utf8_valid service_caveat" "utf8_valid (request_caveat hash)" "utf8_valid (terms_caveat trms)"
    "utf8_valid (until_prefix @ show_nat v)"
    using predicates_utf8 [OF assms(2) t, of _ v] by (simp_all add: l402_predicates_def)
  have s: "strip_prefix until_prefix (until_prefix @ w) = Some w" for w by (simp add: strip_prefix_eq_Some)
  have n: "parse_uint 64 (show_nat v) = Some v" by (rule parse_uint_show_nat [OF assms(4)])
  obtain k1 k2 k3 where h: "hmac_sha256 x key service_caveat = Some k1" "hmac_sha256 x k1 (request_caveat hash) = Some k2"
    "hmac_sha256 x k2 (terms_caveat trms) = Some k3" "hmac_sha256 x k3 (until_prefix @ show_nat v) = Some (mac_signature mac)"
    using assms(6) by (auto simp: l402_predicates_def bind_eq_Some_conv)
  show ?thesis
    using assms(1,3,5,7,8) h
    by (simp add: l402_verify_def l402_predicates_def caveat_step_def caveat_admit_def caveats_distinct s u n show_nat_digits)
qed

definition env_ok :: "ln_env \<Rightarrow> bool" where
  "env_ok e \<longleftrightarrow> (\<forall>c. \<not> tx_fails (e_open e) c \<and> \<not> tx_fails (e_read e) c \<and> \<not> tx_fails (e_tx e) c)"

text \<open>What the macaroon library is relied on for: a credential is built with the identifier, caveats and
  signature it is given, its text parses back to it, and it verifies under the root that signed it.\<close>

definition macaroon_laws :: "ln_ext \<Rightarrow> l402_ext \<Rightarrow> bool" where
  "macaroon_laws x m \<longleftrightarrow> macaroon_init m
     \<and> (\<forall>ident ps sig mac. macaroon_build m ident ps sig = Some mac \<longrightarrow>
          mac_identifier mac = ident \<and> mac_caveats mac = map First_party ps \<and> mac_signature mac = sig)
     \<and> (\<forall>mac text. macaroon_text m mac = Some text \<longrightarrow> CHR '':'' \<notin> set text
          \<and> (\<exists>bytes. base64_decode x text = Some bytes \<and> bytes \<noteq> [] \<and> of_char (hd bytes) = (2 :: nat) \<and> macaroon_parse x bytes = Some mac))
     \<and> (\<forall>mac root key ps. mac_caveats mac = map First_party ps \<and> hmac_sha256 x root (mac_identifier mac) = Some key
          \<and> sign_predicates x key ps = Some (mac_signature mac) \<longrightarrow> macaroon_verify x mac root ps)"

lemma macaroon_law_build:
  "macaroon_laws x m \<Longrightarrow> macaroon_build m ident ps sig = Some mac \<Longrightarrow>
    mac_identifier mac = ident \<and> mac_caveats mac = map First_party ps \<and> mac_signature mac = sig"
  by (simp add: macaroon_laws_def)

lemma macaroon_law_text:
  assumes "macaroon_laws x m" "macaroon_text m mac = Some text"
  shows "CHR '':'' \<notin> set text
    \<and> (\<exists>bytes. base64_decode x text = Some bytes \<and> bytes \<noteq> [] \<and> of_char (hd bytes) = (2 :: nat) \<and> macaroon_parse x bytes = Some mac)"
  using assms unfolding macaroon_laws_def by blast

lemma macaroon_law_verify:
  assumes "macaroon_laws x m" "mac_caveats mac = map First_party ps" "hmac_sha256 x root (mac_identifier mac) = Some key"
    "sign_predicates x key ps = Some (mac_signature mac)"
  shows "macaroon_verify x mac root ps"
  using assms unfolding macaroon_laws_def by blast

lemma split_once_first: "c \<notin> set a \<Longrightarrow> split_once c (a @ c # b) = Some (a, b)"
  by (induction a) auto

lemma minted_parses:
  assumes "macaroon_laws x m" "build_credential x m p hash i root random = Some (mac, encoded, v)"
    and "length (inv_payment_hash i) = 32" "length random = 32" "length pre = 32" "sha256 x pre = inv_payment_hash i"
    and "length encoded + 65 \<le> MAX_PAYMENT_HEADER"
  shows "parse_credential x (encoded @ '':'' @ hex pre) = Inr (mac, pre)"
proof -
  obtain trms key sig where b: "macaroon_build m (l402_identifier i random) (l402_predicates hash trms v) sig = Some mac"
    "macaroon_text m mac = Some encoded"
    using assms(2) by (auto simp: build_credential_def Let_def bind_eq_Some_conv split: option.splits)
  have c: "mac_identifier mac = l402_identifier i random" "mac_caveats mac = map First_party (l402_predicates hash trms v)"
    using macaroon_law_build [OF assms(1) b(1)] by simp_all
  obtain bytes where t: "CHR '':'' \<notin> set encoded" "base64_decode x encoded = Some bytes"
    "bytes \<noteq> []" "of_char (hd bytes) = (2 :: nat)" "macaroon_parse x bytes = Some mac"
    using macaroon_law_text [OF assms(1) b(2)] by blast
  have l: "length (mac_identifier mac) = 66" "take 2 (mac_identifier mac) = [char_of (0 :: nat), char_of (0 :: nat)]"
    "take 32 (drop 2 (mac_identifier mac)) = inv_payment_hash i"
    using assms(3,4) by (simp_all add: c(1) l402_identifier_def)
  have d: "decode_hash (to_ascii_lowercase (hex pre)) = Some pre"
    using decode_hash_hex [OF assms(5)] by (simp add: ascii_hex)
  have n: "Third_party \<notin> set (mac_caveats mac)" "length (mac_caveats mac) = 4"
    by (simp_all add: c(2) l402_predicates_def)
  show ?thesis
    using t(2-5) l n d assms(5-7) split_once_first [OF t(1), of "hex pre"]
    by (simp add: parse_credential_def)
qed

lemma write_tx_ok: "(\<And>c. \<not> tx_fails env c) \<Longrightarrow> body db = Inr (a, db') \<Longrightarrow> write_tx env err body db = (Inr a, db')"
  by (simp add: write_tx_def)

lemma ln_claim_ok:
  assumes "ln_open s" "env_ok e" "e_now e = Some now" "now < ret" "fmlookup (spent (ln_db s)) key = None"
  shows "\<exists>s'. ln_claim e key ret s = (Inr (), s') \<and> fmlookup (spent (ln_db s')) key = Some ret"
  using assms by (simp add: ln_claim_def ln_database_def ln_write_def blocking_def claim_spent_def write_tx_def env_ok_def)

text \<open>What minting leaves behind: a root that the credential verifies under until it expires.\<close>

lemma mint_l402_root:
  assumes "macaroon_laws x m" "mint_l402 x m e p hash text i (Some root) (Some random) s = (Inr (encoded, text'), s1)"
    and "l402_valid_before i = Some v"
  obtains mac trms key where "build_credential x m p hash i root random = Some (mac, encoded, v)"
    "mac_identifier mac = l402_identifier i random" "terms x p hash = Some trms"
    "hmac_sha256 x root (l402_identifier i random) = Some key" "mac_caveats mac = map First_party (l402_predicates hash trms v)"
    "sign_predicates x key (l402_predicates hash trms v) = Some (mac_signature mac)"
    "macaroon_verify x mac root (l402_predicates hash trms v)"
    "fmlookup (roots (ln_db s1)) (digest x (l402_identifier i random)) = Some (root, v)"
proof -
  obtain mac v' u s0 where b: "build_credential x m p hash i root random = Some (mac, encoded, v')"
    "ln_write (e_tx e) (root_body (e_tx e) (digest x (l402_identifier i random)) root v') s0 = (Inr u, s1)"
    using assms(2) by (auto simp: mint_l402_def split: if_splits sum.splits prod.splits option.splits)
  have v: "v' = v" using build_credential_valid [OF b(1)] assms(3) by simp
  obtain trms key where c: "terms x p hash = Some trms" "hmac_sha256 x root (l402_identifier i random) = Some key"
    "\<exists>sig. sign_predicates x key (l402_predicates hash trms v) = Some sig
       \<and> macaroon_build m (l402_identifier i random) (l402_predicates hash trms v) sig = Some mac"
    using b(1) v by (auto simp: build_credential_def Let_def bind_eq_Some_conv split: option.splits)
  have d: "mac_identifier mac = l402_identifier i random" "mac_caveats mac = map First_party (l402_predicates hash trms v)"
    "sign_predicates x key (l402_predicates hash trms v) = Some (mac_signature mac)"
    using c(3) macaroon_law_build [OF assms(1)] by auto
  have "macaroon_verify x mac root (l402_predicates hash trms v)"
    by (rule macaroon_law_verify [OF assms(1) d(2) _ d(3)]) (simp add: d(1) c(2))
  moreover have "fmlookup (roots (ln_db s1)) (digest x (l402_identifier i random)) = Some (root, v)"
    using ln_write_Inr [OF b(2)] v by (auto simp: root_body_def eq_commute [of _ "ln_db s1"])
  ultimately show thesis using that [of mac trms key] b(1) c(1,2) d unfolding v by blast
qed

lemma ln_database_ok:
  assumes "\<And>c. \<not> tx_fails env c"
  shows "\<exists>s'. ln_database env (Some t) s = (Inr (), s') \<and> ln_open s'"
  using assms
  by (cases "ln_open s") (simp_all add: ln_database_def write_tx_def open_body_def prune_def)

text \<open>A database that answers keeps, on being opened before \<open>v\<close>, what a credential that ends at \<open>v\<close> needs.\<close>

lemma ln_database_prunes:
  assumes "ln_database env (Some t) s = (r, s')" "t < v"
  shows "fmlookup (roots (ln_db s)) k = Some (root, v) \<Longrightarrow> fmlookup (roots (ln_db s')) k = Some (root, v)"
    and "fmlookup (spent (ln_db s)) key = None \<Longrightarrow> fmlookup (spent (ln_db s')) key = None"
    and "quotes (ln_db s') = quotes (ln_db s)"
  using assms by (auto elim!: ln_database_cases simp: prune_roots prune_spent prune_others filter_option_eq_Some filter_option_def)

lemma credential_settles:
  assumes "macaroon_laws x m" "mint_l402 x m e p hash text i (Some root) (Some random) s = (Inr (encoded, text'), s1)"
    and "length root = 32" "length random = 32" "length (inv_payment_hash i) = 32" "length pre = 32" "sha256 x pre = inv_payment_hash i"
    and "list_all is_ascii hash" "length encoded + 65 \<le> MAX_PAYMENT_HEADER" "l402_valid_before i = Some v"
    and "fmlookup (roots (ln_db s2)) (digest x (l402_identifier i random)) = Some (root, v)"
    and "env_ok e'" "e_open_now e' = Some t" "e_time e' = Some time" "e_now e' = Some now" "t < v" "time < v" "now < v"
    and "key = settlement_key p (inv_payment_hash i)" "fmlookup (spent (ln_db s2)) key = None"
    and "\<And>mint. receiver_mint (lp_receiver p) = Some mint \<Longrightarrow>
      \<exists>d. Option.bind (fmlookup (quotes (ln_db s2)) key) (deposit_parse m) = Some d \<and> dep_mint d = mint
        \<and> dep_amount d = lp_amount_msat p div 1000 \<and> collect_mint_invoice m mint (dep_quote d) (dep_amount d) (dep_invoice d)"
  shows "\<exists>s3. settle_l402 x m e' p hash (encoded @ '':'' @ hex pre) s2 = (Inr (), s3)
    \<and> fmlookup (spent (ln_db s3)) key = Some (x402_retention i)"
proof -
  obtain mac trms k where c: "build_credential x m p hash i root random = Some (mac, encoded, v)"
    "mac_identifier mac = l402_identifier i random" "terms x p hash = Some trms"
    "hmac_sha256 x root (l402_identifier i random) = Some k" "mac_caveats mac = map First_party (l402_predicates hash trms v)"
    "sign_predicates x k (l402_predicates hash trms v) = Some (mac_signature mac)" "macaroon_verify x mac root (l402_predicates hash trms v)"
    by (rule mint_l402_root [OF assms(1,2,10)])
  have v: "v < 2 ^ 64" using assms(10) by (auto simp: l402_valid_before_def bind_eq_Some_conv checked_add_def split: if_splits)
  have ver: "l402_verify x p hash mac pre root v time = Inr ()"
    by (rule minted_verifies [OF c(3) assms(8,17) v _ c(6,5,7)]) (simp add: c(2,4))
  obtain s3 where o: "ln_database (e_open e') (e_open_now e') s2 = (Inr (), s3)" "ln_open s3"
    using ln_database_ok [of "e_open e'" t s2] assms(12,13) by (auto simp: env_ok_def)
  note kept = ln_database_prunes [OF o(1) [unfolded assms(13)] assms(16)]
  have key: "settlement_key p (take 32 (drop 2 (mac_identifier mac))) = key" using identifier_hash [OF assms(5)] assms(19) c(2) by simp
  have auth: "l402_authorize x e' p hash mac pre s3 = Inr (key, x402_retention i)"
    using kept(1) [OF assms(11)] ver assms(3,12,14) key l402_retention [OF assms(10)] c(2)
    by (simp add: l402_authorize_def read_root_def ln_read_def env_ok_def)
  have open3: "ln_database (e_open e') (e_open_now e') s3 = (Inr (), s3)" using o(2) by (simp add: ln_database_def)
  have coll: "l402_collect m e' p key s3 = (Inr (), s3)"
  proof (cases "receiver_mint (lp_receiver p)")
    case (Some mint)
    then show ?thesis
      using assms(21) [OF Some] kept(3) assms(12)
      by (auto simp: l402_collect_def collect_cashu_invoice_def open3 ln_read_def env_ok_def)
  qed (simp add: l402_collect_def)
  have "now < x402_retention i" using l402_retention [OF assms(10)] assms(18) v by (auto simp: saturating_add_def)
  then show ?thesis
    using ln_claim_ok [OF o(2) assms(12,15) _ kept(2) [OF assms(20)]] minted_parses [OF assms(1) c(1) assms(5,4,6,7,9)] auth o coll assms(1)
    by (simp add: settle_l402_def macaroon_laws_def)
qed

section \<open>Witnesses\<close>

definition demo_lightning_db :: lightning where
  "demo_lightning_db = \<lparr>ln_db = \<lparr>spent = fmempty, roots = fmempty, quotes = fmempty, mint_urls = {||}\<rparr>, ln_open = False\<rparr>"

definition demo_env :: "nat \<Rightarrow> ln_env" where
  "demo_env t = \<lparr>e_open = tx_ok, e_open_now = Some t, e_read = tx_ok, e_time = Some t, e_tx = tx_ok, e_now = Some t\<rparr>"

definition demo_random :: string where "demo_random = replicate 32 CHR ''r''"

definition demo_credential :: macaroon where
  "demo_credential = \<lparr>mac_identifier = l402_identifier demo_invoice demo_random,
     mac_caveats = map First_party (l402_predicates ''h'' (hex ''t'') 1361), mac_signature = ''''\<rparr>"

definition demo_l402_ln :: ln_ext where
  "demo_l402_ln = demo_ln\<lparr>base64_decode := (\<lambda>s. Some (char_of (2 :: nat) # s)), macaroon_parse := (\<lambda>_. Some demo_credential)\<rparr>"

definition demo_l402 :: l402_ext where
  "demo_l402 = \<lparr>macaroon_init = True,
     macaroon_build = (\<lambda>i ps k. Some \<lparr>mac_identifier = i, mac_caveats = map First_party ps, mac_signature = k\<rparr>),
     macaroon_text = (\<lambda>mac. if mac = demo_credential then Some ''m'' else None),
     deposit_json = (\<lambda>_. None), deposit_parse = (\<lambda>_. None), mint_invoice = (\<lambda>_ _. None), collect_mint_invoice = (\<lambda>_ _ _ _. False)\<rparr>"

lemma env_ok_demo [simp]: "env_ok (demo_env t)" "env_ok (at_clock u (demo_env t))"
  by (simp_all add: env_ok_def demo_env_def at_clock_def)

lemma demo_settle:
  "fst (ln_step demo_ln demo_l402 (1310, demo_lightning_db\<lparr>ln_open := True\<rparr>) (Ln_settle (demo_env 0) demo_x402 (hex demo_preimage) ''pay''))
     = Granted (settlement_key demo_x402 demo_preimage)"
proof -
  let ?s = "demo_lightning_db\<lparr>ln_open := True\<rparr>"
  obtain s' where "ln_claim (at_clock 1310 (demo_env 0)) (settlement_key demo_x402 demo_preimage) 4960 ?s = (Inr (), s')"
    using ln_claim_ok [of ?s "at_clock 1310 (demo_env 0)" 1310 4960 "settlement_key demo_x402 demo_preimage"]
    by (auto simp: demo_lightning_db_def) (auto simp: at_clock_def demo_env_def delay_def)
  moreover have "e_time (at_clock 1310 (demo_env 0)) = Some 1310" by (simp add: at_clock_def demo_env_def)
  ultimately show ?thesis by (simp add: ln_settle_def demo_x402_verify settlement_key_def)
qed

lemma demo_valid_before: "l402_valid_before demo_invoice = Some 1361"
  by (simp add: l402_valid_before_def demo_invoice_def checked_add_def SKEW_def)

lemma demo_build: "build_credential demo_l402_ln demo_l402 demo_x402 ''h'' demo_invoice demo_root demo_random
    = Some (demo_credential, ''m'', 1361)"
proof -
  have h: "hmac_sha256 demo_l402_ln k b = Some ''''" "terms demo_l402_ln demo_x402 ''h'' = Some (hex ''t'')" for k b
    by (simp_all add: demo_l402_ln_def demo_ln_def terms_def digest_def)
  have s: "sign_predicates demo_l402_ln '''' ps = Some ''''" for ps
    by (induction ps) (simp_all add: h)
  show ?thesis
    by (simp add: build_credential_def demo_valid_before h s) (simp add: demo_l402_def demo_credential_def)
qed

lemma demo_minted:
  "mint_l402 demo_l402_ln demo_l402 (demo_env 1310) demo_x402 ''h'' ''lnbc1'' demo_invoice (Some demo_root) (Some demo_random)
     (demo_lightning_db\<lparr>ln_open := True\<rparr>) = (Inr (''m'', ''lnbc1''),
     \<lparr>ln_db = \<lparr>spent = fmempty, roots = fmupd (digest demo_l402_ln (l402_identifier demo_invoice demo_random)) (demo_root, 1361) fmempty,
       quotes = fmempty, mint_urls = {||}\<rparr>, ln_open = True\<rparr>)"
  by (simp add: mint_l402_def demo_build)
    (simp add: demo_l402_def demo_lightning_db_def demo_env_def ln_database_def ln_write_def blocking_def write_tx_def root_body_def
      check_capacity_def saturating_add_def MAX_CHALLENGE_RECORDS_def)

lemma demo_macaroon_laws: "macaroon_laws demo_l402_ln demo_l402"
  by (auto simp: macaroon_laws_def demo_l402_def demo_l402_ln_def demo_ln_def MAX_PAYMENT_HEADER_def split: if_splits)

end
