(* ===== verification/Cashu_Payments.thy ===== *)
theory Cashu_Payments
  imports Payment_Policies Ledger "HOL-Library.Multiset"
begin

text \<open>
  Cashu payments: \<^verbatim>\<open>payments/mod.rs\<close>. A token is the record of the accessors the code calls on it; the
  CDK wallet (recovery, DLEQ check, keysets, fees, transactions, redemption) answers from the
  environment of a call, any answer it likes. The wallet of a mint is its journal, which survives a
  restart, and what the process keeps in memory: whether it is loaded and whether it needs recovery.

  The 30 second timeout of \<^verbatim>\<open>collect\<close> drops the future at an await. What that leaves behind is what
  the failing call leaves behind, since the journal's transactions run to their end on a blocking
  thread: \<open>cancel\<close> turns the call under way into one that fails.
\<close>

section \<open>Tokens\<close>

definition MAX_TOKEN_BYTES :: nat where "MAX_TOKEN_BYTES = 16 * 1024"

record cashu_token =
  tok_unit :: "currency_unit option"
  tok_mint :: "string option"
  tok_value :: "nat option"
  tok_conditions :: "string list option"
  tok_secrets :: "string list"

datatype payment_error = Payment_invalid | Payment_unavailable

definition validate_token :: "(string \<Rightarrow> cashu_token option) \<Rightarrow> payment_policy \<Rightarrow> string \<Rightarrow> payment_error + cashu_token" where
  "validate_token from_str p encoded =
     bind_result (ensure (length encoded \<le> MAX_TOKEN_BYTES \<and> prefix ''cashuB'' encoded) Payment_invalid) (\<lambda>_.
     bind_result (ok_or Payment_invalid (from_str encoded)) (\<lambda>tok.
     bind_result (ensure (tok_unit tok = Some Sat) Payment_invalid) (\<lambda>_.
     bind_result (ok_or Payment_invalid (tok_mint tok)) (\<lambda>mint.
     bind_result (ensure (mint = pp_mint p) Payment_invalid) (\<lambda>_.
     bind_result (ok_or Payment_invalid (tok_value tok)) (\<lambda>amount.
     bind_result (ensure (pp_price p \<le> amount) Payment_invalid) (\<lambda>_.
     bind_result (ok_or Payment_invalid (tok_conditions tok)) (\<lambda>conditions.
     bind_result (ensure (conditions = []) Payment_invalid) (\<lambda>_. Inr tok)))))))))"

fun be_bytes :: "nat \<Rightarrow> nat \<Rightarrow> string" where
  "be_bytes 0 n = []"
| "be_bytes (Suc k) n = be_bytes k (n div 256) @ [char_of (n mod 256)]"

fun secrets_input :: "string list \<Rightarrow> string" where
  "secrets_input [] = []"
| "secrets_input (secret # ss) = be_bytes 8 (truncate_to 64 (length secret)) @ secret @ secrets_input ss"

definition token_id :: "(string \<Rightarrow> string) \<Rightarrow> cashu_token \<Rightarrow> string" where
  "token_id sha tok = hex (sha (secrets_input (sort (tok_secrets tok))))"

section \<open>The wallet of a mint\<close>

datatype cdk_error = TokenAlreadySpent | CouldNotVerifyDleq | DleqProofNotProvided | AmountKey | Other_cdk_error

definition classify_error :: "cdk_error \<Rightarrow> payment_error" where
  "classify_error e =
     (case e of
        TokenAlreadySpent \<Rightarrow> Payment_invalid
      | CouldNotVerifyDleq \<Rightarrow> Payment_invalid
      | DleqProofNotProvided \<Rightarrow> Payment_invalid
      | AmountKey \<Rightarrow> Payment_invalid
      | Other_cdk_error \<Rightarrow> Payment_unavailable)"

record mint_wallet =
  mw_ledger :: ledger
  mw_loaded :: bool
  mw_needs_recovery :: bool
  mw_deposit_cursor :: "string option"

definition mint_wallet_default :: mint_wallet where
  "mint_wallet_default = \<lparr>mw_ledger = \<lparr>ledger_version = None, payments_v1 = fmempty, payout_v1 = None\<rparr>,
     mw_loaded = False, mw_needs_recovery = False, mw_deposit_cursor = None\<rparr>"

text \<open>Opening: whether the private files could be prepared, the journal's transaction, and whether the
  wallet database and the wallet could be set up.\<close>

record open_env =
  o_files :: bool
  o_ledger :: tx_env
  o_wallet :: bool

definition wallet_open :: "open_env \<Rightarrow> mint_wallet \<Rightarrow> (payment_error + unit) \<times> mint_wallet" where
  "wallet_open env s =
     (if \<not> o_files env then (Inl Payment_unavailable, s)
      else (case blocking (o_ledger env) Storage_failed (ledger_open (o_ledger env) (mw_ledger s)) of
              (Inl _, db) \<Rightarrow> (Inl Payment_unavailable, s\<lparr>mw_ledger := db\<rparr>)
            | (Inr _, db) \<Rightarrow>
                if \<not> o_wallet env then (Inl Payment_unavailable, s\<lparr>mw_ledger := db\<rparr>)
                else (Inr (), s\<lparr>mw_ledger := db, mw_loaded := True, mw_needs_recovery := True, mw_deposit_cursor := None\<rparr>)))"

definition wallet_load :: "open_env \<Rightarrow> mint_wallet \<Rightarrow> (payment_error + unit) \<times> mint_wallet" where
  "wallet_load env s = (if mw_loaded s then (Inr (), s) else wallet_open env s)"

definition mw_recover :: "cdk_error + (nat \<times> nat) \<Rightarrow> mint_wallet \<Rightarrow> (payment_error + unit) \<times> mint_wallet" where
  "mw_recover report s =
     (if \<not> mw_needs_recovery s then (Inr (), s)
      else (case report of
              Inl e \<Rightarrow> (Inl (classify_error e), s)
            | Inr (failed, skipped) \<Rightarrow>
                if failed \<noteq> 0 \<or> skipped \<noteq> 0 then (Inl Payment_unavailable, s)
                else (Inr (), s\<lparr>mw_needs_recovery := False\<rparr>)))"

definition mw_claim :: "tx_env \<Rightarrow> string \<Rightarrow> mint_wallet \<Rightarrow> (payment_error + unit) \<times> mint_wallet" where
  "mw_claim env i s =
     (case ledger_claim env i (mw_ledger s) of
        (Inl _, db) \<Rightarrow> (Inl Payment_unavailable, s\<lparr>mw_ledger := db\<rparr>)
      | (Inr claimed, db) \<Rightarrow> (if claimed then Inr () else Inl Payment_invalid, s\<lparr>mw_ledger := db\<rparr>))"

section \<open>Collecting\<close>

record wallet_tx =
  wtx_memo :: "string option"
  wtx_completed :: bool
  wtx_amount :: nat

record collect_env =
  c_locked :: bool
  c_open :: open_env
  c_recover :: "cdk_error + (nat \<times> nat)"
  c_dleq :: "cdk_error + unit"
  c_keysets :: bool
  c_proofs :: bool
  c_fees :: "cdk_error + nat"
  c_reserve :: tx_env
  c_transactions :: "cdk_error + wallet_tx list"
  c_receive :: "cdk_error + nat"
  c_claim :: tx_env

definition cdk :: "cdk_error + 'a \<Rightarrow> payment_error + 'a" where
  "cdk r = map_sum classify_error id r"

definition check_net :: "collect_env \<Rightarrow> payment_policy \<Rightarrow> cashu_token \<Rightarrow> payment_error + unit" where
  "check_net env p tok =
     bind_result (cdk (c_dleq env)) (\<lambda>_.
     bind_result (ensure (c_keysets env) Payment_unavailable) (\<lambda>_.
     bind_result (ensure (c_proofs env) Payment_invalid) (\<lambda>_.
     bind_result (cdk (c_fees env)) (\<lambda>fees.
     bind_result (ok_or Payment_invalid (tok_value tok)) (\<lambda>amount.
     bind_result (ok_or Payment_invalid (checked_sub amount fees)) (\<lambda>net.
     ensure (pp_price p \<le> net) Payment_invalid))))))"

definition payment_memo :: "string \<Rightarrow> string" where
  "payment_memo i = ''geata-payment:'' @ i"

definition already_redeemed :: "string \<Rightarrow> nat \<Rightarrow> wallet_tx list \<Rightarrow> bool" where
  "already_redeemed i price txs \<longleftrightarrow>
     list_ex (\<lambda>tx. wtx_memo tx = Some (payment_memo i) \<and> wtx_completed tx \<and> price \<le> wtx_amount tx) txs"

definition redeem :: "collect_env \<Rightarrow> payment_policy \<Rightarrow> string \<Rightarrow> mint_wallet \<Rightarrow> (payment_error + unit) \<times> mint_wallet" where
  "redeem env p i s =
     (let s1 = s\<lparr>mw_needs_recovery := True\<rparr>
      in case cdk (c_receive env) of
           Inl e \<Rightarrow> (Inl e, s1)
         | Inr received \<Rightarrow>
             if received < pp_price p then (Inl Payment_unavailable, s1)
             else mw_claim (c_claim env) i (s1\<lparr>mw_needs_recovery := False\<rparr>))"

definition admit ::
  "collect_env \<Rightarrow> string \<Rightarrow> payment_policy \<Rightarrow> string \<Rightarrow> mint_wallet \<Rightarrow> (payment_error + unit) \<times> mint_wallet" where
  "admit env site p i s =
     (case ledger_reserve (c_reserve env) i site (pp_price p) (mw_ledger s) of
        (Inl _, db) \<Rightarrow> (Inl Payment_unavailable, s\<lparr>mw_ledger := db\<rparr>)
      | (Inr reservation, db) \<Rightarrow>
          (let s1 = s\<lparr>mw_ledger := db\<rparr>
           in case reservation of
                Claimed \<Rightarrow> (Inl Payment_invalid, s1)
              | Mismatch \<Rightarrow> (Inl Payment_invalid, s1)
              | Pending \<Rightarrow>
                  (case cdk (c_transactions env) of
                     Inl e \<Rightarrow> (Inl e, s1)
                   | Inr txs \<Rightarrow>
                       if already_redeemed i (pp_price p) txs then mw_claim (c_claim env) i s1
                       else redeem env p i s1)
              | New \<Rightarrow> redeem env p i s1))"

record cashu_ext =
  token_from_str :: "string \<Rightarrow> cashu_token option"
  cashu_sha256 :: "string \<Rightarrow> string"

definition collect_wallet ::
  "cashu_ext \<Rightarrow> collect_env \<Rightarrow> string \<Rightarrow> payment_policy \<Rightarrow> cashu_token \<Rightarrow> mint_wallet \<Rightarrow> (payment_error + unit) \<times> mint_wallet" where
  "collect_wallet x env site p tok s =
     (if c_locked env then (Inl Payment_unavailable, s)
      else case wallet_load (c_open env) s of
        (Inl e, s1) \<Rightarrow> (Inl e, s1)
      | (Inr _, s1) \<Rightarrow>
          (case mw_recover (c_recover env) s1 of
             (Inl e, s2) \<Rightarrow> (Inl e, s2)
           | (Inr _, s2) \<Rightarrow>
               (case check_net env p tok of
                  Inl e \<Rightarrow> (Inl e, s2)
                | Inr _ \<Rightarrow> admit env site p (token_id (cashu_sha256 x) tok) s2)))"

text \<open>The wallets of a process by mint; an entry is created at its first use.\<close>

type_synonym payments = "(string, mint_wallet) fmap"

definition entry :: "payments \<Rightarrow> string \<Rightarrow> mint_wallet" where
  "entry ps mint = (case fmlookup ps mint of Some s \<Rightarrow> s | None \<Rightarrow> mint_wallet_default)"

definition collect_inner ::
  "cashu_ext \<Rightarrow> collect_env \<Rightarrow> string \<Rightarrow> payment_policy \<Rightarrow> string \<Rightarrow> payments \<Rightarrow> (payment_error + unit) \<times> payments" where
  "collect_inner x env site p encoded ps =
     (case validate_token (token_from_str x) p encoded of
        Inl e \<Rightarrow> (Inl e, ps)
      | Inr tok \<Rightarrow>
          (case collect_wallet x env site p tok (entry ps (pp_mint p)) of
             (r, s) \<Rightarrow> (r, fmupd (pp_mint p) s ps)))"

datatype await = At_open | At_recover | At_dleq | At_keysets | At_fees | At_reserve | At_transactions | At_receive | At_claim

definition lose_result :: "tx_env \<Rightarrow> tx_env" where
  "lose_result env = env\<lparr>tx_fails := (tx_fails env)(Join := True)\<rparr>"

fun cancel :: "await \<Rightarrow> collect_env \<Rightarrow> collect_env" where
  "cancel At_open env = env\<lparr>c_open := (c_open env)\<lparr>o_wallet := False\<rparr>\<rparr>"
| "cancel At_recover env = env\<lparr>c_recover := Inl Other_cdk_error\<rparr>"
| "cancel At_dleq env = env\<lparr>c_dleq := Inl Other_cdk_error\<rparr>"
| "cancel At_keysets env = env\<lparr>c_keysets := False\<rparr>"
| "cancel At_fees env = env\<lparr>c_fees := Inl Other_cdk_error\<rparr>"
| "cancel At_reserve env = env\<lparr>c_reserve := lose_result (c_reserve env)\<rparr>"
| "cancel At_transactions env = env\<lparr>c_transactions := Inl Other_cdk_error\<rparr>"
| "cancel At_receive env = env\<lparr>c_receive := Inl Other_cdk_error\<rparr>"
| "cancel At_claim env = env\<lparr>c_claim := lose_result (c_claim env)\<rparr>"

definition collect ::
  "cashu_ext \<Rightarrow> collect_env \<Rightarrow> await option \<Rightarrow> string \<Rightarrow> payment_policy \<Rightarrow> string \<Rightarrow> payments
     \<Rightarrow> (payment_error + unit) \<times> payments" where
  "collect x env timeout site p encoded ps =
     collect_inner x (case timeout of None \<Rightarrow> env | Some a \<Rightarrow> cancel a env) site p encoded ps"

definition restart_payments :: "payments \<Rightarrow> payments" where
  "restart_payments ps = fmmap (\<lambda>s. s\<lparr>mw_loaded := False, mw_needs_recovery := False, mw_deposit_cursor := None\<rparr>) ps"

text \<open>The commands of the operator: a wallet of their own is opened for one call.\<close>

definition wallet_balance :: "open_env \<Rightarrow> cdk_error + (nat \<times> nat) \<Rightarrow> nat option \<Rightarrow> mint_wallet \<Rightarrow> (payment_error + nat) \<times> mint_wallet" where
  "wallet_balance env report balance s =
     (case wallet_open env s of
        (Inl e, s1) \<Rightarrow> (Inl e, s1)
      | (Inr _, s1) \<Rightarrow>
          (case mw_recover report s1 of
             (Inl e, s2) \<Rightarrow> (Inl e, s2)
           | (Inr _, s2) \<Rightarrow> (ok_or Payment_unavailable balance, s2)))"

definition wallet_export ::
  "open_env \<Rightarrow> cdk_error + (nat \<times> nat) \<Rightarrow> bool \<Rightarrow> string option \<Rightarrow> mint_wallet \<Rightarrow> (payment_error + string) \<times> mint_wallet" where
  "wallet_export env report prepared confirmed s =
     (case wallet_open env s of
        (Inl e, s1) \<Rightarrow> (Inl e, s1)
      | (Inr _, s1) \<Rightarrow>
          (case mw_recover report s1 of
             (Inl e, s2) \<Rightarrow> (Inl e, s2)
           | (Inr _, s2) \<Rightarrow> (if \<not> prepared then Inl Payment_unavailable else ok_or Payment_unavailable confirmed, s2)))"

section \<open>Token identities\<close>

lemma be_bytes_length [simp]: "length (be_bytes k n) = k"
  by (induction k arbitrary: n) simp_all

lemma be_bytes_inj: "be_bytes k m = be_bytes k n \<Longrightarrow> m < 256 ^ k \<Longrightarrow> n < 256 ^ k \<Longrightarrow> m = n"
proof (induction k arbitrary: m n)
  case (Suc k)
  have "be_bytes k (m div 256) = be_bytes k (n div 256)" "char_of (m mod 256) = (char_of (n mod 256) :: char)"
    using Suc.prems(1) by simp_all
  moreover have "m div 256 < 256 ^ k" "n div 256 < 256 ^ k"
    using Suc.prems(2,3) by (simp_all add: div_less_iff_less_mult mult.commute)
  ultimately have "m div 256 = n div 256" "m mod 256 = n mod 256"
    using Suc.IH by (auto simp: char_of_eq_iff take_bit_eq_mod)
  then show ?case by (metis div_mult_mod_eq)
qed simp

lemma secrets_input_inj:
  assumes "secrets_input xs = secrets_input ys" "\<forall>s\<in>set xs \<union> set ys. length s < 2 ^ 64"
  shows "xs = ys"
  using assms
proof (induction xs arbitrary: ys)
  case Nil
  then show ?case by (cases ys) (auto dest: arg_cong [of _ _ length])
next
  case (Cons a xs)
  obtain b ys' where ys: "ys = b # ys'"
    using Cons.prems(1) by (cases ys) (auto dest: arg_cong [of _ _ length])
  have e: "be_bytes 8 (truncate_to 64 (length a)) = be_bytes 8 (truncate_to 64 (length b))"
    "a @ secrets_input xs = b @ secrets_input ys'"
    using Cons.prems(1) by (simp_all add: ys)
  have "length a = length b"
    using be_bytes_inj [OF e(1)] Cons.prems(2) by (simp add: ys truncate_to_def)
  then show ?case using e(2) Cons.IH [of ys'] Cons.prems(2) by (simp add: ys)
qed

text \<open>
  C21: A token's identity is its set of secrets. Two tokens, however encoded, have the same id exactly when
  they hold the same secrets with the same multiplicities; the order of the proofs, the memo and the
  encoding do not matter, and two different sets never share an id. Relied on: SHA-256 does not
  collide on the two texts hashed.
\<close>

theorem token_id_same_secrets:
  assumes "inj_on sha {secrets_input (sort (tok_secrets t)), secrets_input (sort (tok_secrets u))}"
    and "\<forall>s\<in>set (tok_secrets t) \<union> set (tok_secrets u). length s < 2 ^ 64"
  shows "token_id sha t = token_id sha u \<longleftrightarrow> mset (tok_secrets t) = mset (tok_secrets u)"
proof
  assume "token_id sha t = token_id sha u"
  then have "sha (secrets_input (sort (tok_secrets t))) = sha (secrets_input (sort (tok_secrets u)))"
    unfolding token_id_def by (rule hex_inj)
  then have "secrets_input (sort (tok_secrets t)) = secrets_input (sort (tok_secrets u))"
    by (rule inj_onD [OF assms(1)]) simp_all
  then have "sort (tok_secrets t) = sort (tok_secrets u)"
    by (rule secrets_input_inj) (use assms(2) in simp)
  then have "mset (sort (tok_secrets t)) = mset (sort (tok_secrets u))" by (rule arg_cong)
  then show "mset (tok_secrets t) = mset (tok_secrets u)" unfolding mset_sort .
next
  assume "mset (tok_secrets t) = mset (tok_secrets u)"
  then have "sort (tok_secrets t) = sort (tok_secrets u)" by (simp add: properties_for_sort)
  then show "token_id sha t = token_id sha u" by (simp add: token_id_def)
qed

section \<open>Admission\<close>

lemma wallet_open_keeps: "wallet_open env s = (r, s') \<Longrightarrow> payments_v1 (mw_ledger s') = payments_v1 (mw_ledger s)"
  using ledger_open_keeps [of "o_ledger env" "mw_ledger s"]
  by (cases "ledger_open (o_ledger env) (mw_ledger s)")
    (auto simp: wallet_open_def blocking_def split: if_splits sum.splits)

lemma wallet_load_keeps: "wallet_load env s = (r, s') \<Longrightarrow> payments_v1 (mw_ledger s') = payments_v1 (mw_ledger s)"
  by (auto simp: wallet_load_def split: if_splits dest: wallet_open_keeps)

lemma mw_recover_keeps: "mw_recover rep s = (r, s') \<Longrightarrow> mw_ledger s' = mw_ledger s"
  by (auto simp: mw_recover_def split: if_splits sum.splits prod.splits)

text \<open>What a step may do to the claim of an id: \<open>claims i granted s s'\<close> says that the claim is not lost,
  and that it is won when the step is granted.\<close>

definition claims :: "string \<Rightarrow> bool \<Rightarrow> mint_wallet \<Rightarrow> mint_wallet \<Rightarrow> bool" where
  "claims i granted s s' \<longleftrightarrow> (claimed_in (mw_ledger s) i \<longrightarrow> claimed_in (mw_ledger s') i)
     \<and> (granted \<longrightarrow> \<not> claimed_in (mw_ledger s) i \<and> claimed_in (mw_ledger s') i)"

lemma mw_claim_claims:
  assumes "mw_claim env j s = (r, s')"
  shows "claims i (r = Inr () \<and> i = j) s s'"
proof -
  obtain c where c: "ledger_claim env j (mw_ledger s) = (c, mw_ledger s')" "r = Inr () \<longrightarrow> c = Inr True"
    using assms by (auto simp: mw_claim_def split: sum.splits prod.splits if_splits)
  have s: "ledger_step (mw_ledger s) (Op_claim env j) = (Res_claim c, mw_ledger s')" using c(1) by simp
  have g: "claim_granted (Op_claim env j) (Res_claim c) i" if "r = Inr ()" "i = j" using that c(2) by simp
  show ?thesis
    unfolding claims_def using journal.taken_stays [OF s] journal.grant_free [OF s] journal.grant_taken [OF s] g by blast
qed

lemma claims_trans: "claims i False s t \<Longrightarrow> claims i g t u \<Longrightarrow> claims i g s u"
  by (auto simp: claims_def)

lemma claims_same: "payments_v1 (mw_ledger s') = payments_v1 (mw_ledger s) \<Longrightarrow> claims i False s s'"
  by (simp add: claims_def claimed_in_def)

lemma claims_ledger: "claims i g s s' \<Longrightarrow> mw_ledger t = mw_ledger s \<Longrightarrow> claims i g t s'"
  by (simp add: claims_def)

lemma redeem_claims: "redeem env p j s = (r, s') \<Longrightarrow> claims i (r = Inr () \<and> i = j) s s'"
  unfolding redeem_def Let_def
  by (auto split: sum.splits if_splits intro: claims_ledger [OF mw_claim_claims]) (auto simp: claims_def)

lemma admit_claims:
  assumes "admit env site p j s = (r, s')"
  shows "claims i (r = Inr () \<and> i = j) s s'"
proof -
  obtain v db where v: "ledger_reserve (c_reserve env) j site (pp_price p) (mw_ledger s) = (v, db)" by fastforce
  have st: "ledger_step (mw_ledger s) (Op_reserve (c_reserve env) j site (pp_price p)) = (Res_reserve v, db)" using v by simp
  have k: "claims i False s (s\<lparr>mw_ledger := db\<rparr>)"
    using journal.taken_stays [OF st] by (simp add: claims_def)
  consider "s' = s\<lparr>mw_ledger := db\<rparr>" "r \<noteq> Inr ()" | "mw_claim (c_claim env) j (s\<lparr>mw_ledger := db\<rparr>) = (r, s')"
    | "redeem env p j (s\<lparr>mw_ledger := db\<rparr>) = (r, s')"
    using assms v by (auto simp: admit_def Let_def split: sum.splits reservation.splits if_splits)
  then show ?thesis
  proof cases
    case 1
    then show ?thesis using k by simp
  qed (use claims_trans [OF k] mw_claim_claims redeem_claims in blast)+
qed

lemma collect_wallet_claims:
  assumes "collect_wallet x env site p tok s = (r, s')"
  shows "claims i (r = Inr () \<and> i = token_id (cashu_sha256 x) tok) s s'"
proof -
  obtain r1 s1 r2 s2 where l: "wallet_load (c_open env) s = (r1, s1)" "mw_recover (c_recover env) s1 = (r2, s2)" by fastforce
  have k: "payments_v1 (mw_ledger s1) = payments_v1 (mw_ledger s)" "mw_ledger s2 = mw_ledger s1"
    using wallet_load_keeps [OF l(1)] mw_recover_keeps [OF l(2)] by simp_all
  have c: "claims i False s s1" "claims i False s s2" using k by (simp_all add: claims_same)
  define n where "n = check_net env p tok"
  consider "s' = s" "r \<noteq> Inr ()" | "s' = s1" "r \<noteq> Inr ()" | "s' = s2" "r \<noteq> Inr ()"
    | "admit env site p (token_id (cashu_sha256 x) tok) s2 = (r, s')"
    using assms l by (cases n) (auto simp: collect_wallet_def simp flip: n_def split: sum.splits if_splits)
  then show ?thesis
  proof cases
    case 1
    then show ?thesis by (simp add: claims_def)
  next
    case 4
    then show ?thesis by (rule claims_trans [OF c(2) admit_claims])
  qed (use c in simp_all)
qed

lemma entry_upd [simp]: "entry (fmupd m s ps) n = (if n = m then s else entry ps n)"
  by (simp add: entry_def)

text \<open>The id under which a payment is admitted.\<close>

definition payment_id :: "cashu_ext \<Rightarrow> payment_policy \<Rightarrow> string \<Rightarrow> string option" where
  "payment_id x p encoded =
     (case validate_token (token_from_str x) p encoded of Inr tok \<Rightarrow> Some (token_id (cashu_sha256 x) tok) | Inl _ \<Rightarrow> None)"

lemma collect_claims:
  assumes "collect x env timeout site p encoded ps = (r, ps')"
  shows "claims i (r = Inr () \<and> mint = pp_mint p \<and> payment_id x p encoded = Some i) (entry ps mint) (entry ps' mint)"
proof -
  obtain env' where c: "collect_inner x env' site p encoded ps = (r, ps')"
    using assms unfolding collect_def by blast
  show ?thesis
  proof (cases "validate_token (token_from_str x) p encoded")
    case (Inl e)
    then show ?thesis using c by (auto simp: collect_inner_def claims_def)
  next
    case (Inr tok)
    obtain s where s: "collect_wallet x env' site p tok (entry ps (pp_mint p)) = (r, s)" "ps' = fmupd (pp_mint p) s ps"
      using c Inr by (auto simp: collect_inner_def split: prod.splits)
    show ?thesis
      using collect_wallet_claims [OF s(1), of i] by (auto simp: s(2) payment_id_def Inr claims_def)
  qed
qed

section \<open>Admission is paid for\<close>

lemma cdk_eq_Inr [simp]: "cdk r = Inr a \<longleftrightarrow> r = Inr a"
  by (cases r) (auto simp: cdk_def)

lemma validate_token_sound:
  "validate_token from_str p encoded = Inr tok \<Longrightarrow> from_str encoded = Some tok \<and> tok_mint tok = Some (pp_mint p)
     \<and> tok_unit tok = Some Sat \<and> tok_conditions tok = Some [] \<and> (\<exists>v. tok_value tok = Some v \<and> pp_price p \<le> v)"
  unfolding validate_token_def bind_result_eq_Inr ensure_eq_Inr ok_or_eq_Inr by (elim exE conjE) simp

lemma mw_claim_Inr: "mw_claim env i s = (Inr (), s') \<Longrightarrow> \<exists>site price. fmlookup (payments_v1 (mw_ledger s)) i = Some (site, price, False)"
  by (auto simp: mw_claim_def split: sum.splits prod.splits if_splits dest!: ledger_claim_granted)

lemma admit_Inr:
  assumes "admit env site p i s = (Inr (), s')"
  shows "(\<exists>n. c_receive env = Inr n \<and> pp_price p \<le> n) \<or> (\<exists>txs. c_transactions env = Inr txs \<and> already_redeemed i (pp_price p) txs)"
  using assms by (auto simp: admit_def redeem_def Let_def split: sum.splits prod.splits reservation.splits if_splits)

text \<open>
  C4: No request is admitted unpaid. When collecting a token succeeds, the token is in sats, of the
  site's mint, without spending conditions and worth its price after fees, and the wallet redeemed it:
  in this call it received at least the price, or an earlier, interrupted one has left a completed
  incoming transaction of at least the price under this token's id. Afterwards the id is claimed.
\<close>

theorem collect_paid:
  assumes "collect x env timeout site p encoded ps = (Inr (), ps')"
  shows "\<exists>tok v fees i. token_from_str x encoded = Some tok \<and> tok_mint tok = Some (pp_mint p) \<and> tok_unit tok = Some Sat
     \<and> tok_conditions tok = Some [] \<and> tok_value tok = Some v \<and> c_fees env = Inr fees \<and> pp_price p + fees \<le> v
     \<and> i = token_id (cashu_sha256 x) tok \<and> claimed_in (mw_ledger (entry ps' (pp_mint p))) i
     \<and> ((\<exists>n. c_receive env = Inr n \<and> pp_price p \<le> n)
        \<or> (\<exists>txs. c_transactions env = Inr txs \<and> already_redeemed i (pp_price p) txs))"
proof -
  define env' where "env' = (case timeout of None \<Rightarrow> env | Some a \<Rightarrow> cancel a env)"
  obtain tok where t: "validate_token (token_from_str x) p encoded = Inr tok"
    using assms by (auto simp: collect_def collect_inner_def split: sum.splits)
  obtain s where s: "collect_wallet x env' site p tok (entry ps (pp_mint p)) = (Inr (), s)"
    using assms t by (auto simp: collect_def collect_inner_def env'_def split: prod.splits)
  obtain s2 where a: "check_net env' p tok = Inr ()" "admit env' site p (token_id (cashu_sha256 x) tok) s2 = (Inr (), s)"
    using s by (auto simp: collect_wallet_def split: sum.splits prod.splits if_splits)
  obtain fees v where n: "c_fees env' = Inr fees" "tok_value tok = Some v" "pp_price p + fees \<le> v"
    using a(1) by (auto simp: check_net_def checked_sub_def split: if_splits)
  have e: "c_fees env' = Inr fees \<Longrightarrow> c_fees env = Inr fees" "c_receive env' = Inr k \<Longrightarrow> c_receive env = Inr k"
    "c_transactions env' = Inr txs \<Longrightarrow> c_transactions env = Inr txs" for k txs
    unfolding env'_def by (cases timeout; simp; rename_tac a, case_tac a; simp)+
  have c: "claimed_in (mw_ledger (entry ps' (pp_mint p))) (token_id (cashu_sha256 x) tok)"
    using collect_claims [OF assms, of "token_id (cashu_sha256 x) tok" "pp_mint p"] t by (simp add: claims_def payment_id_def)
  show ?thesis
    using validate_token_sound [OF t] n e(1) [OF n(1)] e(2,3) c admit_Inr [OF a(2)]
    by (intro exI [of _ tok] exI [of _ v] exI [of _ fees] exI [of _ "token_id (cashu_sha256 x) tok"]) blast
qed

section \<open>A payment is not lost\<close>

definition tx_quiet :: "tx_env \<Rightarrow> bool" where
  "tx_quiet env \<longleftrightarrow> (\<forall>c. \<not> tx_fails env c)"

text \<open>An environment in which the storage works and recovery has nothing left to do.\<close>

definition collect_ready :: "collect_env \<Rightarrow> bool" where
  "collect_ready env \<longleftrightarrow> \<not> c_locked env \<and> o_files (c_open env) \<and> tx_quiet (o_ledger (c_open env)) \<and> o_wallet (c_open env)
     \<and> c_recover env = Inr (0, 0) \<and> tx_quiet (c_reserve env) \<and> tx_quiet (c_claim env)"

lemma collect_ready_admits:
  assumes "collect_ready env" "ledger_version (mw_ledger s) = Some 1" "check_net env p tok = Inr ()"
  shows "\<exists>s2. payments_v1 (mw_ledger s2) = payments_v1 (mw_ledger s)
     \<and> collect_wallet x env site p tok s = admit env site p (token_id (cashu_sha256 x) tok) s2"
  using assms
  by ((cases "mw_loaded s"; cases "mw_needs_recovery s"),
    auto simp: collect_wallet_def wallet_load_def wallet_open_def mw_recover_def collect_ready_def tx_quiet_def ledger_open_def
      ledger_open_body_def write_tx_def blocking_def)
    ((rule exI, rule conjI [rotated], rule refl, simp)+)

lemma mw_claim_ready:
  "tx_quiet env \<Longrightarrow> fmlookup (payments_v1 (mw_ledger s)) i = Some (site, price, False) \<Longrightarrow> \<exists>s'. mw_claim env i s = (Inr (), s')"
  by (simp add: mw_claim_def ledger_claim_def blocking_def write_tx_def claim_body_def tx_quiet_def)

lemma admit_new:
  assumes "collect_ready env" "fmlookup (payments_v1 (mw_ledger s)) i = None" "c_receive env = Inr n" "pp_price p \<le> n"
  shows "\<exists>s'. admit env site p i s = (Inr (), s')"
proof -
  let ?db = "(mw_ledger s)\<lparr>payments_v1 := fmupd i (site, pp_price p, False) (payments_v1 (mw_ledger s))\<rparr>"
  have r: "ledger_reserve (c_reserve env) i site (pp_price p) (mw_ledger s) = (Inr New, ?db)"
    using assms(1,2) by (simp add: ledger_reserve_def blocking_def write_tx_def reserve_body_def collect_ready_def tx_quiet_def)
  have "\<exists>s'. mw_claim (c_claim env) i (s\<lparr>mw_ledger := ?db, mw_needs_recovery := False\<rparr>) = (Inr (), s')"
    by (rule mw_claim_ready) (use assms(1) in \<open>simp_all add: collect_ready_def\<close>)
  then show ?thesis using r assms(3,4) by (auto simp: admit_def redeem_def Let_def cdk_def)
qed

lemma admit_pending:
  assumes "collect_ready env" "fmlookup (payments_v1 (mw_ledger s)) i = Some (site, pp_price p, False)"
    and "c_transactions env = Inr txs" "already_redeemed i (pp_price p) txs"
  shows "\<exists>s'. admit env site p i s = (Inr (), s')"
proof -
  have r: "ledger_reserve (c_reserve env) i site (pp_price p) (mw_ledger s) = (Inr Pending, mw_ledger s)"
    using assms(1,2) by (simp add: ledger_reserve_def blocking_def write_tx_def reserve_body_def collect_ready_def tx_quiet_def)
  then show ?thesis
    using mw_claim_ready [of "c_claim env" s i site "pp_price p"] assms by (simp add: admit_def Let_def cdk_def collect_ready_def)
qed

text \<open>
  C23: A payment is not lost. Once the storage works, a valid token is admitted: a new one as soon as the
  mint redeems it, and one whose redemption completed in an earlier request that was cancelled, timed
  out or crashed before its claim, on being presented again for the same site and price, without
  being redeemed a second time.
\<close>

theorem collect_admits:
  assumes "collect_ready env" "validate_token (token_from_str x) p encoded = Inr tok" "check_net env p tok = Inr ()"
    and "ledger_version (mw_ledger (entry ps (pp_mint p))) = Some 1"
    and "fmlookup (payments_v1 (mw_ledger (entry ps (pp_mint p)))) (token_id (cashu_sha256 x) tok) = None
          \<and> c_receive env = Inr n \<and> pp_price p \<le> n
       \<or> fmlookup (payments_v1 (mw_ledger (entry ps (pp_mint p)))) (token_id (cashu_sha256 x) tok) = Some (site, pp_price p, False)
          \<and> c_transactions env = Inr txs \<and> already_redeemed (token_id (cashu_sha256 x) tok) (pp_price p) txs"
  shows "\<exists>ps'. collect x env None site p encoded ps = (Inr (), ps')"
proof -
  let ?i = "token_id (cashu_sha256 x) tok"
  obtain s2 where s: "payments_v1 (mw_ledger s2) = payments_v1 (mw_ledger (entry ps (pp_mint p)))"
    "collect_wallet x env site p tok (entry ps (pp_mint p)) = admit env site p ?i s2"
    using collect_ready_admits [OF assms(1,4,3)] by blast
  have "\<exists>s'. admit env site p ?i s2 = (Inr (), s')"
    using assms(5) admit_new [OF assms(1)] admit_pending [OF assms(1)] s(1) by metis
  then show ?thesis using assms(2) s(2) by (auto simp: collect_def collect_inner_def)
qed

section \<open>Witnesses\<close>

definition demo_token :: cashu_token where
  "demo_token = \<lparr>tok_unit = Some Sat, tok_mint = Some ''https://m'', tok_value = Some 3, tok_conditions = Some [], tok_secrets = [''b'', ''a'']\<rparr>"

definition demo_cashu :: cashu_ext where
  "demo_cashu = \<lparr>token_from_str = (\<lambda>s. if s = ''cashuB1'' then Some demo_token else None), cashu_sha256 = (\<lambda>s. s)\<rparr>"

definition demo_price :: payment_policy where
  "demo_price = \<lparr>pp_price = 2, pp_mint = ''https://m''\<rparr>"

definition demo_collect :: collect_env where
  "demo_collect = \<lparr>c_locked = False, c_open = \<lparr>o_files = True, o_ledger = tx_ok, o_wallet = True\<rparr>, c_recover = Inr (0, 0),
     c_dleq = Inr (), c_keysets = True, c_proofs = True, c_fees = Inr 1, c_reserve = tx_ok, c_transactions = Inr [],
     c_receive = Inr 2, c_claim = tx_ok\<rparr>"

definition demo_wallets :: payments where
  "demo_wallets = fmupd ''https://m'' (mint_wallet_default\<lparr>mw_ledger := ledger_empty\<lparr>ledger_version := Some 1\<rparr>\<rparr>) fmempty"

lemma demo_validate: "validate_token (token_from_str demo_cashu) demo_price ''cashuB1'' = Inr demo_token"
  by (simp add: validate_token_def demo_cashu_def demo_price_def demo_token_def MAX_TOKEN_BYTES_def)

lemma demo_ready: "collect_ready demo_collect" "check_net demo_collect demo_price demo_token = Inr ()"
  by (simp_all add: collect_ready_def demo_collect_def tx_quiet_def check_net_def cdk_def demo_token_def demo_price_def checked_sub_def)

theorem collect_admits_witness: "\<exists>ps'. collect demo_cashu demo_collect None ''site'' demo_price ''cashuB1'' demo_wallets = (Inr (), ps')"
proof (rule collect_admits [OF demo_ready(1) demo_validate demo_ready(2), where n = 2])
  show "ledger_version (mw_ledger (entry demo_wallets (pp_mint demo_price))) = Some 1"
    by (simp add: demo_wallets_def demo_price_def)
qed (simp add: demo_wallets_def demo_price_def demo_collect_def ledger_empty_def)

lemma demo_collected: "\<exists>ps'. collect demo_cashu demo_collect None site demo_price ''cashuB1'' demo_wallets = (Inr (), ps')"
proof -
  let ?i = "token_id (cashu_sha256 demo_cashu) demo_token"
  have w: "ledger_version (mw_ledger (entry demo_wallets (pp_mint demo_price))) = Some 1"
    "payments_v1 (mw_ledger (entry demo_wallets (pp_mint demo_price))) = fmempty"
    by (simp_all add: demo_wallets_def demo_price_def ledger_empty_def)
  obtain s2 where s: "payments_v1 (mw_ledger s2) = fmempty"
    "collect_wallet demo_cashu demo_collect site demo_price demo_token (entry demo_wallets (pp_mint demo_price))
       = admit demo_collect site demo_price ?i s2"
    using collect_ready_admits [OF demo_ready(1) w(1) demo_ready(2)] w(2) by metis
  obtain s' where "admit demo_collect site demo_price ?i s2 = (Inr (), s')"
    using admit_new [OF demo_ready(1), of s2 ?i 2 demo_price site] s(1) by (auto simp: demo_collect_def demo_price_def)
  then show ?thesis using s(2) demo_validate by (simp add: collect_def collect_inner_def)
qed

theorem collect_paid_witness:
  "\<exists>ps'. collect demo_cashu demo_collect None ''site'' demo_price ''cashuB1'' demo_wallets = (Inr (), ps')
     \<and> (\<exists>i. claimed_in (mw_ledger (entry ps' ''https://m'')) i)"
proof -
  obtain ps' where c: "collect demo_cashu demo_collect None ''site'' demo_price ''cashuB1'' demo_wallets = (Inr (), ps')"
    using demo_collected by blast
  show ?thesis using c collect_paid [OF c] by (auto simp: demo_price_def)
qed

theorem token_id_same_secrets_witness:
  "token_id (\<lambda>s. s) demo_token = token_id (\<lambda>s. s) (demo_token\<lparr>tok_secrets := [''a'', ''b'']\<rparr>)"
proof -
  have "mset (tok_secrets demo_token) = mset (tok_secrets (demo_token\<lparr>tok_secrets := [''a'', ''b'']\<rparr>))"
    by (simp add: demo_token_def)
  then show ?thesis
    using token_id_same_secrets [of "\<lambda>s. s" demo_token "demo_token\<lparr>tok_secrets := [''a'', ''b'']\<rparr>"]
    by (simp add: demo_token_def)
qed

end
