(* ===== verification/Deposits.thy ===== *)
theory Deposits
  imports Settlements Cashu_Payments
begin

text \<open>
  Mint deposits: \<^verbatim>\<open>payments/minting.rs\<close> and the recovery and pruning of \<^verbatim>\<open>payments/lightning/cashu.rs\<close>.
  The quotes and transactions of a wallet are the CDK's: each call on them answers from the
  environment, any answer or a failure, and the calls that change them are returned as a list. A
  timeout drops the future at an await and leaves behind what the failing call leaves behind; a
  transaction under way runs to its end (\<open>Join\<close> fails). Two sweeps share the bounded, rotating batch
  \<open>next_batch\<close>. At the end, the operations of the settlement database and the recovery of the deposits
  run together, in any order, over restarts (\<open>store_step\<close>).
\<close>

section \<open>Quotes\<close>

datatype payment_method = BOLT11 | Other_method string

datatype quote_state = Quote_unpaid | Quote_other string

record wallet_quote = mint_quote +
  q_state :: quote_state
  q_amount_paid :: nat
  q_amount_issued :: nat
  q_used_by :: "string option"
  q_method :: payment_method
  q_updated_at :: nat

record quote_response =
  qr_quote :: string
  qr_request :: string
  qr_amount :: "nat option"
  qr_unit :: "currency_unit option"
  qr_method :: payment_method
  qr_state :: quote_state
  qr_amount_paid :: nat
  qr_amount_issued :: nat
  qr_updated_at :: nat
  qr_expiry :: "nat option"

datatype status_response = Bolt11_response quote_response | Other_response

record incoming_tx =
  itx_quote :: "string option"
  itx_request :: "string option"
  itx_completed :: bool
  itx_unit :: currency_unit
  itx_amount :: nat

datatype deposit_error =
    Wallet_busy | Wallet_failed payment_error | Quote_capacity | Missing_quote | Quote_mismatch | Not_received
  | Cdk_failed | Clock_failed | Deposit_storage | Bad_deposit | Cleanup_busy | Timed_out

definition QUOTE_PRUNE_GRACE :: nat where "QUOTE_PRUNE_GRACE = SKEW + 3600"

definition past_quote_grace :: "nat \<Rightarrow> nat \<Rightarrow> bool" where
  "past_quote_grace expiry time \<longleftrightarrow>
     expiry \<noteq> 0 \<and> (case checked_add 64 expiry QUOTE_PRUNE_GRACE of Some end \<Rightarrow> end \<le> time | None \<Rightarrow> False)"

definition locally_unpaid :: "nat \<Rightarrow> wallet_quote \<Rightarrow> bool" where
  "locally_unpaid time q \<longleftrightarrow>
     q_state q = Quote_unpaid \<and> q_amount_paid q = 0 \<and> q_amount_issued q = 0 \<and> q_used_by q = None
     \<and> q_method q = BOLT11 \<and> q_unit q = Sat \<and> past_quote_grace (q_expiry q) time"

definition response_unpaid :: "nat \<Rightarrow> wallet_quote \<Rightarrow> quote_response \<Rightarrow> bool" where
  "response_unpaid time q r \<longleftrightarrow>
     qr_quote r = q_id q \<and> qr_request r = q_request q \<and> qr_amount r = q_amount q \<and> qr_unit r = Some (q_unit q)
     \<and> qr_method r = BOLT11 \<and> qr_state r = Quote_unpaid \<and> qr_amount_paid r = 0 \<and> qr_amount_issued r = 0
     \<and> q_updated_at q \<le> qr_updated_at r
     \<and> (case qr_expiry r of Some expiry \<Rightarrow> past_quote_grace expiry time | None \<Rightarrow> False)"

definition definitively_unpaid ::
  "ln_ext \<Rightarrow> nat option \<Rightarrow> status_response option \<Rightarrow> wallet_quote \<Rightarrow> deposit_error + bool" where
  "definitively_unpaid x now response q =
     (case now of
        None \<Rightarrow> Inl Clock_failed
      | Some time \<Rightarrow>
          if \<not> locally_unpaid time q then Inr False
          else (case bolt11 x (q_request q) of
                  None \<Rightarrow> Inr False
                | Some i \<Rightarrow>
                    if \<not> past_quote_grace (saturating_add 64 (inv_created i) (inv_expiry i)) time then Inr False
                    else (case response of
                            None \<Rightarrow> Inl Cdk_failed
                          | Some Other_response \<Rightarrow> Inr False
                          | Some (Bolt11_response r) \<Rightarrow> Inr (response_unpaid time q r))))"

definition has_mint_transaction :: "string \<Rightarrow> nat \<Rightarrow> string \<Rightarrow> incoming_tx list \<Rightarrow> bool" where
  "has_mint_transaction i amount invoice txs \<longleftrightarrow>
     list_ex (\<lambda>tx. itx_quote tx = Some i \<and> itx_request tx = Some invoice \<and> itx_completed tx
       \<and> itx_unit tx = Sat \<and> amount \<le> itx_amount tx) txs"

section \<open>The wallet\<close>

datatype wallet_call = Request_quote nat | Check_quote string | Mint_tokens string | Remove_quote string

record wallet_env =
  w_locked :: bool
  w_open :: open_env
  w_recover :: "cdk_error + (nat \<times> nat)"

text \<open>Every operation takes the lock of the wallet, opens it on first use and recovers it before anything else.\<close>

definition with_wallet ::
  "wallet_env \<Rightarrow> (mint_wallet \<Rightarrow> (deposit_error + 'a) \<times> wallet_call list \<times> mint_wallet) \<Rightarrow> mint_wallet
     \<Rightarrow> (deposit_error + 'a) \<times> wallet_call list \<times> mint_wallet" where
  "with_wallet env body s =
     (if w_locked env then (Inl Wallet_busy, [], s)
      else case wallet_load (w_open env) s of
        (Inl e, s1) \<Rightarrow> (Inl (Wallet_failed e), [], s1)
      | (Inr _, s1) \<Rightarrow>
          (case mw_recover (w_recover env) s1 of
             (Inl e, s2) \<Rightarrow> (Inl (Wallet_failed e), [], s2)
           | (Inr _, s2) \<Rightarrow> body s2))"

record invoice_env =
  i_wallet :: wallet_env
  i_quotes :: "nat option"
  i_quote :: "wallet_quote option"

definition wallet_mint_invoice ::
  "invoice_env \<Rightarrow> nat \<Rightarrow> mint_wallet \<Rightarrow> (deposit_error + wallet_quote) \<times> wallet_call list \<times> mint_wallet" where
  "wallet_mint_invoice env amount =
     with_wallet (i_wallet env) (\<lambda>s.
       case i_quotes env of
         None \<Rightarrow> (Inl Cdk_failed, [], s)
       | Some stored \<Rightarrow>
           if MAX_CHALLENGE_RECORDS \<le> stored then (Inl Quote_capacity, [], s)
           else (ok_or Cdk_failed (i_quote env), [Request_quote amount], s))"

record deposit_env =
  d_wallet :: wallet_env
  d_transactions :: "incoming_tx list option"
  d_quote :: "wallet_quote option option"
  d_status :: "wallet_quote option"
  d_mint :: bool
  d_received :: "incoming_tx list option"
  d_now :: "nat option"
  d_response :: "status_response option"

text \<open>\<open>mintable\<close> is the CDK's \<^verbatim>\<open>amount_mintable\<close>: what the mint has been paid and not yet issued.\<close>

definition claim_quote ::
  "(wallet_quote \<Rightarrow> nat) \<Rightarrow> deposit_env \<Rightarrow> string \<Rightarrow> nat \<Rightarrow> string \<Rightarrow> mint_wallet
     \<Rightarrow> (deposit_error + unit) \<times> wallet_call list \<times> mint_wallet" where
  "claim_quote mintable env i amount invoice s =
     (let s1 = s\<lparr>mw_needs_recovery := True\<rparr>
      in case d_status env of
           None \<Rightarrow> (Inl Cdk_failed, [Check_quote i], s1)
         | Some q \<Rightarrow>
             (let calls = Check_quote i # (if 0 < mintable q then [Mint_tokens i] else [])
              in if 0 < mintable q \<and> \<not> d_mint env then (Inl Cdk_failed, calls, s1)
                 else (case d_received env of
                         None \<Rightarrow> (Inl Cdk_failed, calls, s1)
                       | Some txs \<Rightarrow>
                           if has_mint_transaction i amount invoice txs
                           then (Inr (), calls, s1\<lparr>mw_needs_recovery := False\<rparr>)
                           else (Inl Not_received, calls, s1))))"

definition wallet_collect_mint_invoice ::
  "(wallet_quote \<Rightarrow> nat) \<Rightarrow> deposit_env \<Rightarrow> string \<Rightarrow> nat \<Rightarrow> string \<Rightarrow> mint_wallet
     \<Rightarrow> (deposit_error + unit) \<times> wallet_call list \<times> mint_wallet" where
  "wallet_collect_mint_invoice mintable env i amount invoice =
     with_wallet (d_wallet env) (\<lambda>s.
       case d_transactions env of
         None \<Rightarrow> (Inl Cdk_failed, [], s)
       | Some txs \<Rightarrow>
           if has_mint_transaction i amount invoice txs then (Inr (), [], s)
           else (case d_quote env of
                   None \<Rightarrow> (Inl Cdk_failed, [], s)
                 | Some None \<Rightarrow> (Inl Missing_quote, [], s)
                 | Some (Some q) \<Rightarrow>
                     if q_request q = invoice \<and> q_amount q = Some amount \<and> q_unit q = Sat
                     then claim_quote mintable env i amount invoice s
                     else (Inl Quote_mismatch, [], s)))"

definition can_prune_mint_deposit ::
  "ln_ext \<Rightarrow> deposit_env \<Rightarrow> string \<Rightarrow> nat \<Rightarrow> string \<Rightarrow> mint_wallet
     \<Rightarrow> (deposit_error + bool) \<times> wallet_call list \<times> mint_wallet" where
  "can_prune_mint_deposit x env i amount invoice =
     with_wallet (d_wallet env) (\<lambda>s.
       (case d_transactions env of
          None \<Rightarrow> Inl Cdk_failed
        | Some txs \<Rightarrow>
            if has_mint_transaction i amount invoice txs then Inr True
            else (case d_quote env of
                    None \<Rightarrow> Inl Cdk_failed
                  | Some None \<Rightarrow> Inr False
                  | Some (Some q) \<Rightarrow>
                      if q_request q \<noteq> invoice \<or> q_amount q \<noteq> Some amount then Inr False
                      else definitively_unpaid x (d_now env) (d_response env) q), [], s))"

definition remove_retired_mint_quote ::
  "wallet_env \<Rightarrow> bool \<Rightarrow> string \<Rightarrow> mint_wallet \<Rightarrow> (deposit_error + unit) \<times> wallet_call list \<times> mint_wallet" where
  "remove_retired_mint_quote env removes i =
     with_wallet env (\<lambda>s. (ensure removes Cdk_failed, [Remove_quote i], s))"

section \<open>The sweep of the unissued quotes\<close>

definition batch_start :: "('a \<Rightarrow> 'k :: linorder) \<Rightarrow> 'k option \<Rightarrow> 'a list \<Rightarrow> nat" where
  "batch_start key cursor xs = (case cursor of None \<Rightarrow> 0 | Some c \<Rightarrow> length (takeWhile (\<lambda>a. key a \<le> c) xs))"

definition next_batch :: "('a \<Rightarrow> 'k :: linorder) \<Rightarrow> 'k option \<Rightarrow> 'a list \<Rightarrow> 'a list" where
  "next_batch key cursor xs = take 32 (rotate (batch_start key cursor xs mod length xs) xs)"

record visit_env =
  v_status :: "wallet_quote option"
  v_now :: "nat option"
  v_response :: "status_response option"
  v_remove :: bool
  v_mint :: bool
  v_recover :: "cdk_error + (nat \<times> nat)"

definition visit_quote ::
  "ln_ext \<Rightarrow> (wallet_quote \<Rightarrow> nat) \<Rightarrow> visit_env \<Rightarrow> string set \<Rightarrow> string \<Rightarrow> (deposit_error + unit) \<times> wallet_call list" where
  "visit_quote x mintable env associated i =
     (case v_status env of
        None \<Rightarrow> (Inl Cdk_failed, [Check_quote i])
      | Some q \<Rightarrow>
          (case (if q_id q \<in> associated then Inr False else definitively_unpaid x (v_now env) (v_response env) q) of
             Inl e \<Rightarrow> (Inl e, [Check_quote i])
           | Inr True \<Rightarrow> (ensure (v_remove env) Cdk_failed, [Check_quote i, Remove_quote (q_id q)])
           | Inr False \<Rightarrow>
               if 0 < mintable q then (ensure (v_mint env) Cdk_failed, [Check_quote i, Mint_tokens (q_id q)])
               else (Inr (), [Check_quote i])))"

fun visit_quotes ::
  "ln_ext \<Rightarrow> (wallet_quote \<Rightarrow> nat) \<Rightarrow> (string \<Rightarrow> visit_env) \<Rightarrow> string set \<Rightarrow> wallet_quote list \<Rightarrow> mint_wallet
     \<Rightarrow> (deposit_error + unit) \<times> wallet_call list \<times> mint_wallet" where
  "visit_quotes x mintable env associated [] s = (Inr (), [], s)"
| "visit_quotes x mintable env associated (q # qs) s =
     (let i = q_id q; s1 = s\<lparr>mw_deposit_cursor := Some i, mw_needs_recovery := True\<rparr>
      in case visit_quote x mintable (env i) associated i of
           (Inl _, calls) \<Rightarrow>
             (case mw_recover (v_recover (env i)) s1 of
                (Inl e, s2) \<Rightarrow> (Inl (Wallet_failed e), calls, s2)
              | (Inr _, s2) \<Rightarrow>
                  (case visit_quotes x mintable env associated qs s2 of (r, later, s3) \<Rightarrow> (r, calls @ later, s3)))
         | (Inr _, calls) \<Rightarrow>
             (case visit_quotes x mintable env associated qs (s1\<lparr>mw_needs_recovery := False\<rparr>) of
                (r, later, s3) \<Rightarrow> (r, calls @ later, s3)))"

record sweep_env =
  u_wallet :: wallet_env
  u_quotes :: "wallet_quote list option"
  u_visits :: "string \<Rightarrow> visit_env"

definition recover_mint_deposits ::
  "ln_ext \<Rightarrow> (wallet_quote \<Rightarrow> nat) \<Rightarrow> sweep_env \<Rightarrow> string set \<Rightarrow> mint_wallet
     \<Rightarrow> (deposit_error + unit) \<times> wallet_call list \<times> mint_wallet" where
  "recover_mint_deposits x mintable env associated =
     with_wallet (u_wallet env) (\<lambda>s.
       case u_quotes env of
         None \<Rightarrow> (Inl Cdk_failed, [], s)
       | Some qs \<Rightarrow>
           visit_quotes x mintable (u_visits env) associated (next_batch q_id (mw_deposit_cursor s) (sort_key q_id qs)) s)"

section \<open>Pruning the deposits\<close>

record prune_env =
  pe_can :: deposit_env
  pe_retire :: tx_env
  pe_wallet :: wallet_env
  pe_removes :: bool
  pe_drop :: tx_env
  pe_cancel :: bool

definition retire_body :: "tx_env \<Rightarrow> string \<Rightarrow> string \<Rightarrow> lightning_db \<Rightarrow> ln_error + (unit \<times> lightning_db)" where
  "retire_body env key json db =
     bind_result (ensure (\<not> tx_fails env (Open_table ''l402_cashu_quotes_v1'') \<and> \<not> tx_fails env Insert) Unavailable) (\<lambda>_.
     Inr ((), db\<lparr>quotes := fmupd key json (quotes db)\<rparr>))"

definition drop_body :: "tx_env \<Rightarrow> string \<Rightarrow> lightning_db \<Rightarrow> ln_error + (unit \<times> lightning_db)" where
  "drop_body env key db =
     bind_result (ensure (\<not> tx_fails env (Open_table ''l402_cashu_quotes_v1'') \<and> \<not> tx_fails env Remove) Unavailable) (\<lambda>_.
     Inr ((), db\<lparr>quotes := fmdrop key (quotes db)\<rparr>))"

text \<open>Whether the quote of a deposit may go: it is already journalled as retired, or it is settled and
  gets journalled now. An operation that fails lets the pass go on with the next deposit, unless the
  timeout of the pass cut it off there.\<close>

definition retire_deposit ::
  "ln_ext \<Rightarrow> l402_ext \<Rightarrow> prune_env \<Rightarrow> string \<Rightarrow> deposit \<Rightarrow> lightning \<Rightarrow> payments
     \<Rightarrow> (deposit_error + bool) \<times> lightning \<times> payments" where
  "retire_deposit x m env key d s ps =
     (if dep_retired d then (Inr True, s, ps)
      else case can_prune_mint_deposit x (pe_can env) (dep_quote d) (dep_amount d) (dep_invoice d) (entry ps (dep_mint d)) of
        (r, _, w) \<Rightarrow>
          (let ps1 = fmupd (dep_mint d) w ps
           in case r of
                Inl _ \<Rightarrow> (if pe_cancel env then Inl Timed_out else Inr False, s, ps1)
              | Inr False \<Rightarrow> (Inr False, s, ps1)
              | Inr True \<Rightarrow>
                  (case deposit_json m (d\<lparr>dep_retired := True\<rparr>) of
                     None \<Rightarrow> (Inl Bad_deposit, s, ps1)
                   | Some json \<Rightarrow>
                       (case ln_write (pe_retire env) (retire_body (pe_retire env) key json) s of
                          (Inl _, s1) \<Rightarrow> (Inl Deposit_storage, s1, ps1)
                        | (Inr _, s1) \<Rightarrow> (Inr True, s1, ps1)))))"

definition deposit_retention :: "invoice \<Rightarrow> nat" where
  "deposit_retention i = saturating_add 64 (saturating_add 64 (inv_created i) (inv_expiry i)) (SKEW + 3600)"

definition prune_deposit ::
  "ln_ext \<Rightarrow> l402_ext \<Rightarrow> prune_env \<Rightarrow> nat \<Rightarrow> string \<Rightarrow> deposit \<Rightarrow> lightning \<Rightarrow> payments
     \<Rightarrow> (deposit_error + unit) \<times> (string \<times> wallet_call) list \<times> lightning \<times> payments" where
  "prune_deposit x m env time key d s ps =
     (case bolt11 x (dep_invoice d) of
        None \<Rightarrow> (Inl Bad_deposit, [], s, ps)
      | Some i \<Rightarrow>
          if time < deposit_retention i then (Inr (), [], s, ps)
          else (case retire_deposit x m env key d s ps of
                  (Inl e, s1, ps1) \<Rightarrow> (Inl e, [], s1, ps1)
                | (Inr False, s1, ps1) \<Rightarrow> (Inr (), [], s1, ps1)
                | (Inr True, s1, ps1) \<Rightarrow>
                    (case remove_retired_mint_quote (pe_wallet env) (pe_removes env) (dep_quote d) (entry ps1 (dep_mint d)) of
                       (Inl _, calls, w) \<Rightarrow>
                         (if pe_cancel env then Inl Timed_out else Inr (), map (Pair (dep_mint d)) calls, s1, fmupd (dep_mint d) w ps1)
                     | (Inr _, calls, w) \<Rightarrow>
                         (case ln_write (pe_drop env) (drop_body (pe_drop env) key) s1 of
                            (r, s2) \<Rightarrow>
                              (map_sum (\<lambda>_. Deposit_storage) id r, map (Pair (dep_mint d)) calls, s2, fmupd (dep_mint d) w ps1)))))"

fun prune_deposits ::
  "ln_ext \<Rightarrow> l402_ext \<Rightarrow> (string \<Rightarrow> prune_env) \<Rightarrow> nat \<Rightarrow> (string \<times> deposit) list \<Rightarrow> string option \<Rightarrow> lightning \<Rightarrow> payments
     \<Rightarrow> (deposit_error + unit) \<times> (string \<times> wallet_call) list \<times> string option \<times> lightning \<times> payments" where
  "prune_deposits x m env time [] cursor s ps = (Inr (), [], cursor, s, ps)"
| "prune_deposits x m env time ((key, d) # rows) cursor s ps =
     (case prune_deposit x m (env key) time key d s ps of
        (Inl e, calls, s1, ps1) \<Rightarrow> (Inl e, calls, Some key, s1, ps1)
      | (Inr _, calls, s1, ps1) \<Rightarrow>
          (case prune_deposits x m env time rows (Some key) s1 ps1 of
             (r, later, cursor', s2, ps2) \<Rightarrow> (r, calls @ later, cursor', s2, ps2)))"

fun read_rows :: "(string \<Rightarrow> deposit option) \<Rightarrow> (string, string) fmap \<Rightarrow> string list \<Rightarrow> (string \<times> deposit) list option" where
  "read_rows parse table [] = Some []"
| "read_rows parse table (key # keys) =
     (case Option.bind (fmlookup table key) parse of
        None \<Rightarrow> None
      | Some d \<Rightarrow> map_option (Cons (key, d)) (read_rows parse table keys))"

definition deposit_rows :: "l402_ext \<Rightarrow> tx_env \<Rightarrow> lightning \<Rightarrow> deposit_error + (string \<times> deposit) list" where
  "deposit_rows m env s =
     (if tx_fails env Begin_read \<or> tx_fails env (Open_table ''l402_cashu_quotes_v1'') \<or> tx_fails env Iterate \<or> tx_fails env Join
      then Inl Deposit_storage
      else ok_or Bad_deposit
        (read_rows (deposit_parse m) (quotes (ln_db s)) (sorted_list_of_fset (fmdom (quotes (ln_db s))))))"

record cleanup_env =
  cl_locked :: bool
  cl_ln :: ln_env
  cl_prune :: "string \<Rightarrow> prune_env"

definition prune_cashu_deposits ::
  "ln_ext \<Rightarrow> l402_ext \<Rightarrow> cleanup_env \<Rightarrow> string option \<Rightarrow> lightning \<Rightarrow> payments
     \<Rightarrow> (deposit_error + unit) \<times> (string \<times> wallet_call) list \<times> string option \<times> lightning \<times> payments" where
  "prune_cashu_deposits x m env cursor s ps =
     (if cl_locked env then (Inl Cleanup_busy, [], cursor, s, ps)
      else case ln_database (e_open (cl_ln env)) (e_open_now (cl_ln env)) s of
        (Inl _, s1) \<Rightarrow> (Inl Deposit_storage, [], cursor, s1, ps)
      | (Inr _, s1) \<Rightarrow>
          (case bind_result (deposit_rows m (e_read (cl_ln env)) s1) (\<lambda>rows.
                  bind_result (ok_or Clock_failed (e_now (cl_ln env))) (\<lambda>time. Inr (rows, time))) of
             Inl e \<Rightarrow> (Inl e, [], cursor, s1, ps)
           | Inr (rows, time) \<Rightarrow> prune_deposits x m (cl_prune env) time (next_batch fst cursor rows) cursor s1 ps))"

section \<open>The recovery of all deposits\<close>

text \<open>The quotes with a deposit, by mint; taking those of a mint out of the \<^verbatim>\<open>HashMap\<close> leaves none for a
  later row of the same mint.\<close>

fun assign_quotes :: "(string \<times> deposit) list \<Rightarrow> string list \<Rightarrow> (string \<times> string set) list" where
  "assign_quotes rows [] = []"
| "assign_quotes rows (mint # mints) =
     (mint, set (map (\<lambda>(key, d). dep_quote d) (filter (\<lambda>(key, d). dep_mint d = mint) rows)))
       # assign_quotes (filter (\<lambda>(key, d). dep_mint d \<noteq> mint) rows) mints"

fun parse_mints :: "externals \<Rightarrow> string list \<Rightarrow> string list option" where
  "parse_mints x [] = Some []"
| "parse_mints x (url # urls) =
     (case parse_mint x url of
        Inl _ \<Rightarrow> None
      | Inr mint \<Rightarrow> map_option (Cons mint) (parse_mints x urls))"

fun recover_mints ::
  "ln_ext \<Rightarrow> (wallet_quote \<Rightarrow> nat) \<Rightarrow> (string \<Rightarrow> sweep_env) \<Rightarrow> (string \<times> string set) list \<Rightarrow> payments
     \<Rightarrow> (string \<times> wallet_call) list \<times> payments" where
  "recover_mints x mintable env [] ps = ([], ps)"
| "recover_mints x mintable env ((mint, associated) # mints) ps =
     (case recover_mint_deposits x mintable (env mint) associated (entry ps mint) of
        (_, calls, w) \<Rightarrow>
          (case recover_mints x mintable env mints (fmupd mint w ps) of
             (later, ps') \<Rightarrow> (map (Pair mint) calls @ later, ps')))"

record recovery_env =
  rc_path :: "bool option"
  rc_ln :: ln_env
  rc_sweeps :: "string \<Rightarrow> sweep_env"
  rc_cleanup :: cleanup_env

definition mints_and_quotes ::
  "externals \<Rightarrow> l402_ext \<Rightarrow> tx_env \<Rightarrow> lightning \<Rightarrow> deposit_error + (string \<times> string set) list" where
  "mints_and_quotes ext m env s =
     bind_result (deposit_rows m env s) (\<lambda>rows.
     bind_result (ensure (\<not> tx_fails env (Open_table ''l402_cashu_mints_v1'')) Deposit_storage) (\<lambda>_.
     bind_result (ok_or Bad_deposit (parse_mints ext (sorted_list_of_fset (mint_urls (ln_db s))))) (\<lambda>mints.
     Inr (assign_quotes rows mints))))"

definition recover_cashu_deposits ::
  "externals \<Rightarrow> ln_ext \<Rightarrow> l402_ext \<Rightarrow> (wallet_quote \<Rightarrow> nat) \<Rightarrow> recovery_env \<Rightarrow> string option \<Rightarrow> lightning \<Rightarrow> payments
     \<Rightarrow> (deposit_error + unit) \<times> (string \<times> wallet_call) list \<times> string option \<times> lightning \<times> payments" where
  "recover_cashu_deposits ext x m mintable env cursor s ps =
     (case rc_path env of
        None \<Rightarrow> (Inl Deposit_storage, [], cursor, s, ps)
      | Some False \<Rightarrow> (Inr (), [], cursor, s, ps)
      | Some True \<Rightarrow>
          (case ln_database (e_open (rc_ln env)) (e_open_now (rc_ln env)) s of
             (Inl _, s1) \<Rightarrow> (Inl Deposit_storage, [], cursor, s1, ps)
           | (Inr _, s1) \<Rightarrow>
               (case mints_and_quotes ext m (e_read (rc_ln env)) s1 of
                  Inl e \<Rightarrow> (Inl e, [], cursor, s1, ps)
                | Inr mints \<Rightarrow>
                    (case recover_mints x mintable (rc_sweeps env) mints ps of
                       (calls, ps1) \<Rightarrow>
                         (case prune_cashu_deposits x m (rc_cleanup env) cursor s1 ps1 of
                            (r, later, cursor', s2, ps2) \<Rightarrow> (r, calls @ later, cursor', s2, ps2))))))"

section \<open>Fair sweeps\<close>

lemma wallet_load_cases:
  assumes "wallet_load env s = (r, s')"
  obtains (Loaded) "mw_loaded s" "r = Inr ()" "s' = s"
  | (Not_opened) e where "\<not> mw_loaded s" "r = Inl e" "\<not> mw_loaded s'" "mw_deposit_cursor s' = mw_deposit_cursor s"
  | (Opened) "\<not> mw_loaded s" "r = Inr ()" "mw_loaded s'" "mw_deposit_cursor s' = None"
proof (cases "mw_loaded s")
  case True
  with assms show thesis by (intro Loaded) (simp_all add: wallet_load_def)
next
  case False
  then have o: "wallet_open env s = (r, s')" using assms by (simp add: wallet_load_def)
  show thesis
  proof (cases r)
    case (Inl e)
    with o have "mw_loaded s' = mw_loaded s \<and> mw_deposit_cursor s' = mw_deposit_cursor s"
      by (simp add: wallet_open_def split: if_splits prod.splits sum.splits) auto
    with Inl False show thesis by (intro Not_opened) simp_all
  next
    case (Inr u)
    with o have "mw_loaded s' \<and> mw_deposit_cursor s' = None"
      by (auto simp: wallet_open_def split: if_splits prod.splits sum.splits)
    with Inr False show thesis by (intro Opened) simp_all
  qed
qed

lemma recover_keeps_cursor:
  "mw_recover report s = (r, s') \<Longrightarrow> mw_deposit_cursor s' = mw_deposit_cursor s \<and> mw_loaded s' = mw_loaded s
    \<and> (r = Inr () \<longrightarrow> \<not> mw_needs_recovery s')"
  by (auto simp: mw_recover_def split: if_splits sum.splits prod.splits)

definition live_cursor :: "mint_wallet \<Rightarrow> string option" where
  "live_cursor s = (if mw_loaded s then mw_deposit_cursor s else None)"

lemma with_wallet_cases:
  assumes "with_wallet env body s = (r, calls, s')"
  obtains (Failed) e where "r = Inl e" "calls = []" "live_cursor s' = live_cursor s"
  | (Ready) t where "body t = (r, calls, s')" "mw_loaded t" "\<not> mw_needs_recovery t" "mw_deposit_cursor t = live_cursor s"
proof (cases "w_locked env")
  case True
  with assms show thesis by (intro Failed) (auto simp: with_wallet_def)
next
  case False
  obtain r1 s1 where l: "wallet_load (w_open env) s = (r1, s1)" by force
  obtain r2 s2 where rec: "mw_recover (w_recover env) s1 = (r2, s2)" by force
  have ready: "mw_loaded s1" "mw_deposit_cursor s1 = live_cursor s" if "r1 = Inr ()"
    using l that by (cases rule: wallet_load_cases, simp_all add: live_cursor_def)+
  show thesis
  proof (cases r1)
    case (Inl e)
    moreover from l have "live_cursor s1 = live_cursor s"
      using Inl by (cases rule: wallet_load_cases) (simp_all add: live_cursor_def)
    ultimately show thesis using assms False l by (intro Failed) (auto simp: with_wallet_def)
  next
    case [simp]: (Inr u)
    show thesis
    proof (cases r2)
      case (Inl e)
      then show thesis using assms False l rec ready recover_keeps_cursor [OF rec] by (intro Failed) (auto simp: with_wallet_def live_cursor_def)
    next
      case (Inr u)
      then show thesis using assms False l rec ready recover_keeps_cursor [OF rec] by (intro Ready [of s2]) (auto simp: with_wallet_def)
    qed
  qed
qed

lemma takeWhile_sorted_nth:
  assumes "sorted_wrt (<) (map key xs)" "j < length xs"
  shows "length (takeWhile (\<lambda>a. key a \<le> (key (xs ! j) :: 'k :: linorder)) xs) = Suc j"
  using assms
proof (induction xs arbitrary: j)
  case (Cons a xs)
  show ?case
  proof (cases j)
    case 0
    then show ?thesis using Cons.prems by (cases xs) auto
  next
    case (Suc i)
    then have "key a \<le> key (xs ! i)" using Cons.prems by (auto simp: less_imp_le)
    then show ?thesis using Cons.IH [of i] Cons.prems Suc by simp
  qed
qed simp

lemma batch_start_nth:
  assumes "sorted_wrt (<) (map key xs)" "j < length xs"
  shows "batch_start key (Some (key (xs ! j))) xs = Suc j"
  using takeWhile_sorted_nth [OF assms] by (simp add: batch_start_def)

lemma next_batch_length [simp]: "length (next_batch key cursor xs) = min 32 (length xs)"
  by (simp add: next_batch_def)

text \<open>A batch is a stretch of the cyclic order; a cursor left at one of its entries continues after it.\<close>

lemma next_batch_nth:
  "i < length (next_batch key cursor xs) \<Longrightarrow> next_batch key cursor xs ! i = xs ! ((batch_start key cursor xs + i) mod length xs)"
  by (simp add: next_batch_def nth_rotate mod_simps)

lemma next_batch_continues:
  assumes "sorted_wrt (<) (map key xs)" "k < length (next_batch key cursor xs)"
  shows "batch_start key (Some (key (next_batch key cursor xs ! k))) xs mod length xs
    = (batch_start key cursor xs + Suc k) mod length xs"
proof -
  have "0 < length xs" using assms(2) by auto
  then show ?thesis
    using assms by (simp add: next_batch_nth batch_start_nth mod_Suc_eq del: next_batch_length)
qed

definition checks :: "wallet_call list \<Rightarrow> string list" where
  "checks calls = concat (map (\<lambda>c. case c of Check_quote i \<Rightarrow> [i] | _ \<Rightarrow> []) calls)"

lemma checks_simps [simp]:
  "checks [] = []" "checks (a @ b) = checks a @ checks b"
  "checks (Check_quote i # c) = i # checks c" "checks (Remove_quote i # c) = checks c" "checks (Mint_tokens i # c) = checks c"
  by (simp_all add: checks_def)

lemma visit_quote_checks: "visit_quote x mintable env associated i = (r, calls) \<Longrightarrow> checks calls = [i]"
  by (auto simp: visit_quote_def split: option.splits sum.splits bool.splits if_splits)

definition visited :: "wallet_quote list \<Rightarrow> mint_wallet \<Rightarrow> deposit_error + unit \<Rightarrow> wallet_call list \<Rightarrow> mint_wallet \<Rightarrow> nat \<Rightarrow> bool" where
  "visited qs s r calls s' k \<longleftrightarrow> k \<le> length qs \<and> checks calls = map q_id (take k qs) \<and> (r = Inr () \<longrightarrow> k = length qs)
    \<and> mw_loaded s' = mw_loaded s \<and> mw_deposit_cursor s' = (if k = 0 then mw_deposit_cursor s else Some (q_id (qs ! (k - 1))))"

lemma visited_Cons:
  assumes "visited qs t r c2 s' k" "checks c1 = [q_id q]" "mw_deposit_cursor t = Some (q_id q)" "mw_loaded t = mw_loaded s"
  shows "visited (q # qs) s r (c1 @ c2) s' (Suc k)"
  using assms by (cases k) (simp_all add: visited_def)

lemma visit_quotes_visits:
  "visit_quotes x mintable env associated qs s = (r, calls, s') \<Longrightarrow> \<exists>k. visited qs s r calls s' k"
proof (induction qs arbitrary: s r calls s')
  case Nil
  then show ?case by (simp add: visited_def)
next
  case (Cons q qs)
  define s1 where "s1 = s\<lparr>mw_deposit_cursor := Some (q_id q), mw_needs_recovery := True\<rparr>"
  obtain v c1 where v: "visit_quote x mintable (env (q_id q)) associated (q_id q) = (v, c1)" by force
  obtain w s2 where w: "mw_recover (v_recover (env (q_id q))) s1 = (w, s2)" by force
  note c1 = visit_quote_checks [OF v]
  have s2: "mw_deposit_cursor s2 = Some (q_id q)" "mw_loaded s2 = mw_loaded s"
    using recover_keeps_cursor [OF w] by (simp_all add: s1_def)
  define t where "t = (case v of Inl _ \<Rightarrow> s2 | Inr _ \<Rightarrow> s1\<lparr>mw_needs_recovery := False\<rparr>)"
  have t: "mw_deposit_cursor t = Some (q_id q)" "mw_loaded t = mw_loaded s"
    using s2 by (simp_all add: t_def s1_def split: sum.splits)
  obtain r2 c2 s3 where rest: "visit_quotes x mintable env associated qs t = (r2, c2, s3)" by (metis prod_cases3)
  obtain k where k: "visited qs t r2 c2 s3 k" using Cons.IH [OF rest] by blast
  have eq: "visit_quotes x mintable env associated (q # qs) s =
      (case v of
         Inl _ \<Rightarrow> (case w of Inl e \<Rightarrow> (Inl (Wallet_failed e), c1, s2) | Inr _ \<Rightarrow> (r2, c1 @ c2, s3))
       | Inr _ \<Rightarrow> (r2, c1 @ c2, s3))"
    using v w rest by (simp add: Let_def s1_def [symmetric] t_def split: sum.splits)
  show ?case
  proof (cases "\<exists>e d. v = Inl e \<and> w = Inl d")
    case True
    then have "visited (q # qs) s r calls s' 1"
      using Cons.prems eq c1 s2 by (auto simp: visited_def)
    then show ?thesis by blast
  next
    case False
    then have "(r, calls, s') = (r2, c1 @ c2, s3)"
      using Cons.prems eq by (auto split: sum.splits)
    then show ?thesis using visited_Cons [OF k c1 t] by auto
  qed
qed

lemma run_ops_result:
  "run_ops step s xs = (rs, s') \<Longrightarrow> r \<in> set rs \<Longrightarrow> \<exists>t a t'. a \<in> set xs \<and> step t a = (r, t')"
proof (induction xs arbitrary: s rs)
  case (Cons a xs)
  obtain r1 s1 where p: "step s a = (r1, s1)" by force
  obtain rs1 s2 where q: "run_ops step s1 xs = (rs1, s2)" by force
  have "rs = r1 # rs1" "s' = s2" using Cons.prems(1) p q by auto
  then show ?case using Cons.prems(2) Cons.IH [of s1 rs1] p q by auto
qed simp

text \<open>
  Passes that go round a list, each from where the last one stopped: once they have seen as many
  entries as the list has, they have seen all of them, however unevenly they advance.
\<close>

locale round_robin =
  fixes pass :: "'s \<Rightarrow> 'op \<Rightarrow> 'r \<times> 's"
    and seen :: "'r \<Rightarrow> 'a list"
    and ring :: "'a list"
    and pos :: "'s \<Rightarrow> nat"
    and legal :: "'op \<Rightarrow> bool"
  assumes pass_seen: "\<lbrakk>pass s a = (r, s'); legal a; n = length (seen r)\<rbrakk> \<Longrightarrow>
      seen r = map (\<lambda>i. ring ! ((pos s + i) mod length ring)) [0..<n]"
    and pass_pos: "\<lbrakk>pass s a = (r, s'); legal a\<rbrakk> \<Longrightarrow>
      pos s' mod length ring = (pos s + length (seen r)) mod length ring"
begin

lemma run_seen:
  assumes "run_ops pass s xs = (rs, s')" "\<forall>a\<in>set xs. legal a" "n = length (concat (map seen rs))"
  shows "concat (map seen rs) = map (\<lambda>i. ring ! ((pos s + i) mod length ring)) [0..<n]"
  using assms
proof (induction xs arbitrary: s rs n)
  case (Cons a xs)
  obtain r s1 where p: "pass s a = (r, s1)" by force
  obtain rs1 s2 where q: "run_ops pass s1 xs = (rs1, s2)" by force
  define j where "j = length (seen r)"
  define k where "k = length (concat (map seen rs1))"
  have rs: "rs = r # rs1" "s' = s2" using Cons.prems(1) p q by auto
  have h: "seen r = map (\<lambda>i. ring ! ((pos s + i) mod length ring)) [0..<j]"
    using pass_seen [OF p _ j_def] Cons.prems(2) by simp
  have t: "concat (map seen rs1) = map (\<lambda>i. ring ! ((pos s1 + i) mod length ring)) [0..<k]"
    using Cons.IH [of s1 rs1 k] q rs Cons.prems(2) by (simp add: k_def)
  have "(pos s1 + i) mod length ring = (pos s + (j + i)) mod length ring" for i
    using pass_pos [OF p] Cons.prems(2) by (simp add: j_def) (metis add.assoc mod_add_left_eq)
  then have "concat (map seen rs1) = map (\<lambda>i. ring ! ((pos s + i) mod length ring)) (map (\<lambda>i. i + j) [0..<k])"
    by (simp add: t comp_def add.commute)
  also have "map (\<lambda>i. i + j) [0..<k] = [j..<j + k]" by (simp add: map_add_upt add.commute)
  finally have "concat (map seen rs) = map (\<lambda>i. ring ! ((pos s + i) mod length ring)) ([0..<j] @ [j..<j + k])"
    by (simp only: rs list.map concat.simps map_append h [symmetric])
  moreover have "n = j + k" using Cons.prems(3) by (simp add: rs j_def k_def)
  ultimately show ?case by (simp add: upt_add_eq_append [of 0 j k, symmetric])
qed simp

lemma run_covers:
  assumes "run_ops pass s xs = (rs, s')" "\<forall>a\<in>set xs. legal a" "length ring \<le> length (concat (map seen rs))" "a \<in> set ring"
  shows "a \<in> set (concat (map seen rs))"
proof -
  let ?n = "length ring"
  obtain j where j: "j < ?n" "a = ring ! j" using assms(4) by (metis in_set_conv_nth)
  define i where "i = (j + ?n - pos s mod ?n) mod ?n"
  have "(pos s + i) mod ?n = (pos s mod ?n + (j + ?n - pos s mod ?n)) mod ?n"
    by (simp add: i_def mod_simps)
  also have "pos s mod ?n + (j + ?n - pos s mod ?n) = j + ?n"
    using j(1) mod_less_divisor [of ?n "pos s"] by linarith
  finally have "(pos s + i) mod ?n = j" using j(1) by simp
  moreover have "i < length (concat (map seen rs))" using j(1) assms(3) mod_less_divisor [of ?n "j + ?n - pos s mod ?n"] unfolding i_def by linarith
  ultimately show ?thesis using run_seen [OF assms(1,2) refl] j(2)
    by (metis (no_types, lifting) add_0 diff_zero length_map length_upt nth_map nth_mem nth_upt)
qed

end

definition sweep :: "ln_ext \<Rightarrow> (wallet_quote \<Rightarrow> nat) \<Rightarrow> string set \<Rightarrow> mint_wallet \<Rightarrow> sweep_env
    \<Rightarrow> ((deposit_error + unit) \<times> wallet_call list) \<times> mint_wallet" where
  "sweep x mintable associated s env =
     (case recover_mint_deposits x mintable env associated s of (r, calls, s') \<Rightarrow> ((r, calls), s'))"

definition quote_ring :: "wallet_quote list \<Rightarrow> string list" where
  "quote_ring qs = map q_id (sort_key q_id qs)"

definition ring_pos :: "wallet_quote list \<Rightarrow> mint_wallet \<Rightarrow> nat" where
  "ring_pos qs s = batch_start q_id (live_cursor s) (sort_key q_id qs)"

lemma sort_key_strict: "distinct (map key xs) \<Longrightarrow> sorted_wrt (<) (map key (sort_key key xs))"
  by (simp add: strict_sorted_iff) (metis mset_map mset_sort mset_eq_imp_distinct_iff)

lemma sweep_visits:
  assumes "sweep x mintable associated s env = ((r, calls), s')" "u_quotes env = Some qs" "distinct (map q_id qs)"
  shows "checks calls = map (\<lambda>i. quote_ring qs ! ((ring_pos qs s + i) mod length qs)) [0..<length (checks calls)]
    \<and> (r = Inr () \<longrightarrow> length (checks calls) = min 32 (length qs))
    \<and> ring_pos qs s' mod length qs = (ring_pos qs s + length (checks calls)) mod length qs"
proof -
  let ?sq = "sort_key q_id qs"
  have "recover_mint_deposits x mintable env associated s = (r, calls, s')"
    using assms(1) by (auto simp: sweep_def split: prod.splits)
  then have w: "with_wallet (u_wallet env) (\<lambda>s. visit_quotes x mintable (u_visits env) associated
      (next_batch q_id (mw_deposit_cursor s) ?sq) s) s = (r, calls, s')"
    by (simp add: recover_mint_deposits_def assms(2))
  then show ?thesis
  proof (cases rule: with_wallet_cases)
    case (Failed e)
    then show ?thesis by (simp add: ring_pos_def)
  next
    case (Ready t)
    let ?b = "next_batch q_id (live_cursor s) ?sq"
    obtain k where k: "visited ?b t r calls s' k" using visit_quotes_visits Ready(1,4) by metis
    then have c: "checks calls = map q_id (take k ?b)" and kb: "k \<le> length ?b" and l: "length (checks calls) = k"
      by (auto simp: visited_def)
    have "checks calls = map (\<lambda>i. quote_ring qs ! ((ring_pos qs s + i) mod length qs)) [0..<k]"
    proof (rule nth_equalityI)
      fix i assume "i < length (checks calls)"
      then have i: "i < k" "i < length ?b" "0 < length qs" using kb by (auto simp: l)
      then have "(batch_start q_id (live_cursor s) ?sq + i) mod length qs < length ?sq" by simp
      then show "checks calls ! i = map (\<lambda>i. quote_ring qs ! ((ring_pos qs s + i) mod length qs)) [0..<k] ! i"
        using i by (simp add: c next_batch_nth quote_ring_def ring_pos_def del: next_batch_length)
    qed (simp add: l)
    moreover have "r = Inr () \<longrightarrow> k = min 32 (length qs)" using k by (simp add: visited_def)
    moreover have "ring_pos qs s' mod length qs = (ring_pos qs s + k) mod length qs"
    proof (cases k)
      case 0
      then show ?thesis using k Ready by (simp add: visited_def ring_pos_def live_cursor_def)
    next
      case (Suc i)
      then have "live_cursor s' = Some (q_id (?b ! i))" using k Ready(2) by (simp add: visited_def live_cursor_def)
      then show ?thesis
        using next_batch_continues [OF sort_key_strict [OF assms(3)], of i "live_cursor s"] kb Suc by (simp add: ring_pos_def)
    qed
    ultimately show ?thesis by (simp add: l)
  qed
qed

interpretation sweeps: round_robin "sweep x mintable associated" "\<lambda>(r, calls). checks calls" "quote_ring qs" "ring_pos qs"
    "\<lambda>env. u_quotes env = Some qs \<and> distinct (map q_id qs)"
  for x :: ln_ext and mintable :: "wallet_quote \<Rightarrow> nat" and associated :: "string set" and qs :: "wallet_quote list"
proof
  have len: "length (quote_ring qs) = length qs" by (simp add: quote_ring_def)
  fix s s' :: mint_wallet and env :: sweep_env and out :: "(deposit_error + unit) \<times> wallet_call list" and n :: nat
  assume p: "sweep x mintable associated s env = (out, s')" and l: "u_quotes env = Some qs \<and> distinct (map q_id qs)"
  obtain r calls where out: "out = (r, calls)" by force
  note v = sweep_visits [OF p [unfolded out] conjunct1 [OF l] conjunct2 [OF l]]
  show "ring_pos qs s' mod length (quote_ring qs) =
      (ring_pos qs s + length (case out of (r, calls) \<Rightarrow> checks calls)) mod length (quote_ring qs)"
    using v by (simp add: out len)
  show "(case out of (r, calls) \<Rightarrow> checks calls) = map (\<lambda>i. quote_ring qs ! ((ring_pos qs s + i) mod length (quote_ring qs))) [0..<n]"
    if "n = length (case out of (r, calls) \<Rightarrow> checks calls)"
    using v that by (simp add: out len)
qed

text \<open>
  C24: No unissued quote is starved. While the wallet of a mint holds the same unissued quotes, its
  sweeps check them in turn: once they have made as many checks as there are quotes, every quote has
  been checked, whatever the mint answered, which sweeps failed and where they broke off; a sweep
  that ends well makes 32 checks, or one for each quote when there are fewer.
\<close>

theorem deposits_not_starved:
  assumes "run_ops (sweep x mintable associated) s envs = (results, s')"
    and "\<forall>env\<in>set envs. u_quotes env = Some qs" "distinct (map q_id qs)"
  shows "(length qs \<le> length (concat (map (\<lambda>(r, calls). checks calls) results)) \<longrightarrow>
        (\<forall>q\<in>set qs. q_id q \<in> set (concat (map (\<lambda>(r, calls). checks calls) results))))
    \<and> (\<forall>calls. (Inr (), calls) \<in> set results \<longrightarrow> length (checks calls) = min 32 (length qs))"
proof (intro conjI impI ballI allI)
  fix q assume n: "length qs \<le> length (concat (map (\<lambda>(r, calls). checks calls) results))" and "q \<in> set qs"
  then show "q_id q \<in> set (concat (map (\<lambda>(r, calls). checks calls) results))"
    using sweeps.run_covers [OF assms(1), of qs "q_id q"] assms(2,3) by (simp add: quote_ring_def)
next
  fix calls assume "(Inr (), calls) \<in> set results"
  then obtain t env t' where "env \<in> set envs" "sweep x mintable associated t env = ((Inr (), calls), t')"
    using run_ops_result [OF assms(1)] by blast
  then show "length (checks calls) = min 32 (length qs)"
    using sweep_visits assms(2,3) by blast
qed

section \<open>No funds are forgotten\<close>

text \<open>What the mint has to say before a quote counts as unpaid: asked now, more than an hour after both
  the invoice and the quote expired, it knows the quote and has been paid nothing for it.\<close>

definition mint_says_unpaid :: "ln_ext \<Rightarrow> nat option \<Rightarrow> status_response option \<Rightarrow> wallet_quote \<Rightarrow> bool" where
  "mint_says_unpaid x now response q \<longleftrightarrow>
     (\<exists>time i r expiry. now = Some time \<and> bolt11 x (q_request q) = Some i \<and> inv_created i + inv_expiry i + 3660 \<le> time
        \<and> q_amount_paid q = 0 \<and> q_amount_issued q = 0 \<and> q_used_by q = None \<and> q_expiry q + 3660 \<le> time
        \<and> response = Some (Bolt11_response r) \<and> qr_quote r = q_id q \<and> qr_request r = q_request q \<and> qr_state r = Quote_unpaid
        \<and> qr_amount_paid r = 0 \<and> qr_amount_issued r = 0 \<and> q_updated_at q \<le> qr_updated_at r
        \<and> qr_expiry r = Some expiry \<and> expiry + 3660 \<le> time)"

lemma past_quote_grace_le: "past_quote_grace expiry time \<Longrightarrow> expiry + 3660 \<le> time \<and> expiry + 3660 < 2 ^ 64"
  by (auto simp: past_quote_grace_def QUOTE_PRUNE_GRACE_def SKEW_def checked_add_def split: if_splits)

lemma past_quote_grace_saturated: "past_quote_grace (saturating_add 64 a b) time \<Longrightarrow> a + b + 3660 \<le> time"
  using past_quote_grace_le [of "saturating_add 64 a b" time] by (auto simp: saturating_add_def min_def split: if_splits)

lemma definitively_unpaid_sound:
  assumes "definitively_unpaid x now response q = Inr True"
  shows "mint_says_unpaid x now response q"
proof -
  obtain time i r where c: "now = Some time" "locally_unpaid time q" "bolt11 x (q_request q) = Some i"
    "past_quote_grace (saturating_add 64 (inv_created i) (inv_expiry i)) time" "response = Some (Bolt11_response r)"
    "response_unpaid time q r"
    using assms by (auto simp: definitively_unpaid_def split: option.splits status_response.splits if_splits)
  obtain expiry where e: "qr_expiry r = Some expiry" "past_quote_grace expiry time"
    using c(6) by (auto simp: response_unpaid_def split: option.splits)
  show ?thesis
    unfolding mint_says_unpaid_def
    using c(1-3,5,6) past_quote_grace_saturated [OF c(4)] past_quote_grace_le [OF e(2)] e(1)
      past_quote_grace_le [of "q_expiry q" time]
    by (intro exI [of _ time] exI [of _ i] exI [of _ r] exI [of _ expiry]) (simp add: locally_unpaid_def response_unpaid_def)
qed

definition deposit_settled :: "ln_ext \<Rightarrow> deposit_env \<Rightarrow> deposit \<Rightarrow> bool" where
  "deposit_settled x env d \<longleftrightarrow>
     (\<exists>txs. d_transactions env = Some txs \<and> has_mint_transaction (dep_quote d) (dep_amount d) (dep_invoice d) txs)
     \<or> (\<exists>q. d_quote env = Some (Some q) \<and> q_request q = dep_invoice d \<and> q_amount q = Some (dep_amount d)
          \<and> mint_says_unpaid x (d_now env) (d_response env) q)"

lemma can_prune_settled:
  assumes "can_prune_mint_deposit x env (dep_quote d) (dep_amount d) (dep_invoice d) s = (Inr True, calls, s')"
  shows "deposit_settled x env d"
  using assms unfolding can_prune_mint_deposit_def
  by (cases rule: with_wallet_cases)
    (auto simp: deposit_settled_def split: option.splits if_splits dest!: definitively_unpaid_sound)

text \<open>When a deposit may go, and what its row is once it does: gone, or marked as retired.\<close>

definition may_go :: "ln_ext \<Rightarrow> prune_env \<Rightarrow> nat \<Rightarrow> deposit \<Rightarrow> bool" where
  "may_go x env time d \<longleftrightarrow>
     (\<exists>i. bolt11 x (dep_invoice d) = Some i \<and> deposit_retention i \<le> time \<and> (dep_retired d \<or> deposit_settled x (pe_can env) d))"

definition row_of :: "l402_ext \<Rightarrow> lightning \<Rightarrow> string \<Rightarrow> deposit option" where
  "row_of m s key = Option.bind (fmlookup (quotes (ln_db s)) key) (deposit_parse m)"

definition row_retired :: "l402_ext \<Rightarrow> string \<Rightarrow> lightning \<Rightarrow> bool" where
  "row_retired m key s \<longleftrightarrow>
     fmlookup (quotes (ln_db s)) key = None \<or> (\<exists>d. row_of m s key = Some d \<and> dep_retired d)"

definition same_row :: "string \<Rightarrow> lightning \<Rightarrow> lightning \<Rightarrow> bool" where
  "same_row key s s' \<longleftrightarrow> fmlookup (quotes (ln_db s')) key = fmlookup (quotes (ln_db s)) key"

text \<open>What is relied on of \<^verbatim>\<open>serde_json\<close>: a deposit that was written reads back.\<close>

definition deposit_codec :: "l402_ext \<Rightarrow> bool" where
  "deposit_codec m \<longleftrightarrow> (\<forall>d json. deposit_json m d = Some json \<longrightarrow> deposit_parse m json = Some d)"

lemma row_write:
  assumes "ln_write env body s = (r, s')"
    and "\<And>a db. body (ln_db s) = Inr (a, db) \<Longrightarrow> \<forall>k. k \<noteq> key \<longrightarrow> fmlookup (quotes db) k = fmlookup (quotes (ln_db s)) k"
  shows "k \<noteq> key \<Longrightarrow> same_row k s s'"
  unfolding same_row_def
  by (rule ln_write_keeps [OF assms(1), where Q = "\<lambda>db. fmlookup (quotes db) k = fmlookup (quotes (ln_db s)) k"])
    (use assms(2) in auto)

lemma retire_deposit_effect:
  assumes "retire_deposit x m env key d s ps = (r, s', ps')" "deposit_codec m" "row_of m s key = Some d"
  shows "(\<forall>k. k \<noteq> key \<longrightarrow> same_row k s s') \<and> (s' = s \<or> deposit_settled x (pe_can env) d)
    \<and> (r = Inr True \<longrightarrow> row_retired m key s' \<and> (dep_retired d \<or> deposit_settled x (pe_can env) d))"
proof (cases "dep_retired d")
  case True
  then show ?thesis using assms by (auto simp: retire_deposit_def row_retired_def same_row_def)
next
  case False
  obtain c calls w where c: "can_prune_mint_deposit x (pe_can env) (dep_quote d) (dep_amount d) (dep_invoice d) (entry ps (dep_mint d)) = (c, calls, w)"
    by (metis prod_cases3)
  show ?thesis
  proof (cases "c = Inr True \<and> deposit_json m (d\<lparr>dep_retired := True\<rparr>) \<noteq> None")
    case True
    then obtain json where j: "deposit_json m (d\<lparr>dep_retired := True\<rparr>) = Some json" by blast
    obtain v s1 where w: "ln_write (pe_retire env) (retire_body (pe_retire env) key json) s = (v, s1)" by force
    have e: "s' = s1" "r = Inr True \<Longrightarrow> v = Inr ()"
      using assms(1) c True j w False by (auto simp: retire_deposit_def Let_def split: sum.splits)
    have "deposit_settled x (pe_can env) d" using c True by (auto intro: can_prune_settled)
    moreover have "\<forall>k. k \<noteq> key \<longrightarrow> same_row k s s1"
      by (intro allI impI row_write [OF w, of key]) (auto simp: retire_body_def)
    moreover have "row_retired m key s1" if "v = Inr ()"
    proof -
      have "ln_db s1 = (ln_db s)\<lparr>quotes := fmupd key json (quotes (ln_db s))\<rparr>"
        using ln_write_Inr [OF w [unfolded that]] by (auto simp: retire_body_def)
      moreover have "deposit_parse m json = Some (d\<lparr>dep_retired := True\<rparr>)" using assms(2) j by (simp add: deposit_codec_def)
      ultimately show ?thesis by (simp add: row_retired_def row_of_def)
    qed
    ultimately show ?thesis using e by blast
  next
    case no: False
    then have "s' = s \<and> r \<noteq> Inr True"
      using assms(1) c False by (cases c) (auto simp: retire_deposit_def Let_def split: if_splits bool.splits option.splits)
    then show ?thesis by (simp add: same_row_def)
  qed
qed

lemma remove_retired_calls:
  "remove_retired_mint_quote env b i s = (r, calls, s') \<Longrightarrow> set calls \<subseteq> {Remove_quote i}"
  unfolding remove_retired_mint_quote_def by (cases rule: with_wallet_cases) auto

lemma prune_deposit_effect:
  assumes "prune_deposit x m env time key d s ps = (r, calls, s', ps')" "deposit_codec m" "row_of m s key = Some d"
  shows "(\<forall>k. k \<noteq> key \<longrightarrow> same_row k s s') \<and> (\<not> same_row key s s' \<longrightarrow> may_go x env time d)
    \<and> (calls \<noteq> [] \<longrightarrow> may_go x env time d \<and> set calls = {(dep_mint d, Remove_quote (dep_quote d))} \<and> row_retired m key s')"
proof (cases "\<exists>i. bolt11 x (dep_invoice d) = Some i \<and> deposit_retention i \<le> time")
  case False
  then show ?thesis using assms(1) by (auto simp: prune_deposit_def same_row_def not_le split: option.splits if_splits)
next
  case True
  then obtain i where i: "bolt11 x (dep_invoice d) = Some i" "deposit_retention i \<le> time" by blast
  obtain v s1 ps1 where v: "retire_deposit x m env key d s ps = (v, s1, ps1)" by (metis prod_cases3)
  note e = retire_deposit_effect [OF v assms(2,3)]
  have go: "may_go x env time d" if "v = Inr True \<or> s1 \<noteq> s" using e that i by (auto simp: may_go_def)
  obtain u c w where u: "remove_retired_mint_quote (pe_wallet env) (pe_removes env) (dep_quote d) (entry ps1 (dep_mint d)) = (u, c, w)"
    by (metis prod_cases3)
  obtain b s2 where b: "ln_write (pe_drop env) (drop_body (pe_drop env) key) s1 = (b, s2)" by force
  show ?thesis
  proof (cases "v = Inr True")
    case False
    then have "s' = s1 \<and> calls = []"
      using assms(1) v i by (cases v) (auto simp: prune_deposit_def split: bool.splits)
    then show ?thesis using e go by (auto simp: same_row_def)
  next
    case True
    have o: "\<forall>k. k \<noteq> key \<longrightarrow> same_row k s1 s2" by (intro allI impI row_write [OF b, of key]) (auto simp: drop_body_def)
    have s2: "row_retired m key s2"
      unfolding row_retired_def row_of_def
      by (rule ln_write_keeps [OF b]) (use e True in \<open>auto simp: row_retired_def row_of_def drop_body_def\<close>)
    have "s' = s1 \<or> s' = s2" "calls = map (Pair (dep_mint d)) c"
      using assms(1) v i u b True by (auto simp: prune_deposit_def split: sum.splits if_splits)
    moreover have "set calls \<subseteq> {(dep_mint d, Remove_quote (dep_quote d))}"
      using calculation(2) remove_retired_calls [OF u] by auto
    ultimately show ?thesis using e o s2 go True by (cases calls) (auto simp: same_row_def)
  qed
qed

lemma removals_append:
  assumes "\<forall>(mint, c)\<in>set c1. mint = dep_mint d \<and> c = Remove_quote (dep_quote d) \<and> may_go x (env key) time d \<and> row_retired m key s"
    and "\<forall>(mint, c)\<in>set c2. \<exists>k d. (k, d) \<in> set rows \<and> mint = dep_mint d \<and> c = Remove_quote (dep_quote d)
        \<and> may_go x (env k) time d \<and> row_retired m k s"
  shows "\<forall>(mint, c)\<in>set (c1 @ c2). \<exists>k d'. (k, d') \<in> set ((key, d) # rows) \<and> mint = dep_mint d' \<and> c = Remove_quote (dep_quote d')
        \<and> may_go x (env k) time d' \<and> row_retired m k s"
proof (intro ballI, clarify)
  fix mint c assume "(mint, c) \<in> set (c1 @ c2)"
  then consider "(mint, c) \<in> set c1" | "(mint, c) \<in> set c2" by auto
  then show "\<exists>k d'. (k, d') \<in> set ((key, d) # rows) \<and> mint = dep_mint d' \<and> c = Remove_quote (dep_quote d')
      \<and> may_go x (env k) time d' \<and> row_retired m k s"
  proof cases
    case 1
    then show ?thesis using assms(1) by (intro exI [of _ key] exI [of _ d]) auto
  next
    case 2
    then obtain k d' where "(k, d') \<in> set rows" "mint = dep_mint d'" "c = Remove_quote (dep_quote d')" "may_go x (env k) time d'"
        "row_retired m k s"
      using assms(2) by blast
    then show ?thesis by (intro exI [of _ k] exI [of _ d']) simp
  qed
qed

lemma prune_deposits_effect:
  assumes "prune_deposits x m env time rows cursor s ps = (r, calls, cursor', s', ps')" "deposit_codec m"
    and "distinct (map fst rows)" "\<forall>(k, d)\<in>set rows. row_of m s k = Some d"
  shows "(\<forall>k. \<not> same_row k s s' \<longrightarrow> (\<exists>d. (k, d) \<in> set rows \<and> may_go x (env k) time d))
    \<and> (\<forall>(mint, c)\<in>set calls. \<exists>k d. (k, d) \<in> set rows \<and> mint = dep_mint d \<and> c = Remove_quote (dep_quote d)
        \<and> may_go x (env k) time d \<and> row_retired m k s')"
  using assms(1,3,4)
proof (induction rows arbitrary: cursor s ps calls)
  case Nil
  then show ?case by (auto simp: same_row_def)
next
  case (Cons kd rows)
  obtain key d where kd: "kd = (key, d)" by force
  obtain v c s1 ps1 where v: "prune_deposit x m (env key) time key d s ps = (v, c, s1, ps1)" by (metis prod_cases4)
  have row: "row_of m s key = Some d" using Cons.prems(3) by (simp add: kd)
  note e = prune_deposit_effect [OF v assms(2) row]
  have now: "\<forall>(mint, c)\<in>set c. mint = dep_mint d \<and> c = Remove_quote (dep_quote d) \<and> may_go x (env key) time d \<and> row_retired m key s1"
    using e by auto
  show ?case
  proof (cases v)
    case (Inl a)
    then have "s' = s1" "calls = c @ []" using Cons.prems(1) v by (auto simp: kd)
    moreover have "\<forall>k. \<not> same_row k s s1 \<longrightarrow> (\<exists>d'. (k, d') \<in> set (kd # rows) \<and> may_go x (env k) time d')"
      using e by (metis kd list.set_intros(1))
    ultimately show ?thesis using removals_append [where env = env, OF now, of "[]" rows] unfolding kd by simp
  next
    case (Inr u)
    obtain w l cu s2 ps2 where w: "prune_deposits x m env time rows (Some key) s1 ps1 = (w, l, cu, s2, ps2)" by (metis prod_cases5)
    have eq: "s' = s2" "calls = c @ l" "r = w" "cu = cursor'" "ps2 = ps'" using Cons.prems(1) v w Inr by (auto simp: kd)
    have keys: "key \<notin> fst ` set rows" using Cons.prems(2) by (simp add: kd)
    have "row_of m s1 k = row_of m s k" if "(k, d') \<in> set rows" for k d'
    proof -
      have "k \<noteq> key" using that keys by force
      then show ?thesis using e by (simp add: same_row_def row_of_def)
    qed
    then have "\<forall>(k, d)\<in>set rows. row_of m s1 k = Some d" using Cons.prems(3) by auto
    note IH = Cons.IH [OF w [unfolded eq(3) [symmetric] eq(1) [symmetric] eq(4) eq(5)] _ this]
    have IH1: "\<exists>d. (k, d) \<in> set rows \<and> may_go x (env k) time d" if "\<not> same_row k s1 s'" for k
      using IH Cons.prems(2) that by (simp add: kd)
    have "same_row key s1 s'" using IH1 [of key] keys by force
    then have "row_retired m key s' = row_retired m key s1" by (simp add: row_retired_def row_of_def same_row_def)
    then have "\<forall>(mint, c)\<in>set calls. \<exists>k d. (k, d) \<in> set (kd # rows) \<and> mint = dep_mint d \<and> c = Remove_quote (dep_quote d)
        \<and> may_go x (env k) time d \<and> row_retired m k s'"
      unfolding eq(2) kd by (intro removals_append [where env = env]) (use now IH Cons.prems(2) in \<open>simp_all add: kd\<close>)
    moreover have "\<forall>k. \<not> same_row k s s' \<longrightarrow> (\<exists>d'. (k, d') \<in> set (kd # rows) \<and> may_go x (env k) time d')"
      using e IH1 by (metis kd list.set_intros same_row_def)
    ultimately show ?thesis by blast
  qed
qed

lemma read_rows_sound:
  "read_rows parse table keys = Some rows \<Longrightarrow>
    map fst rows = keys \<and> (\<forall>(k, d)\<in>set rows. Option.bind (fmlookup table k) parse = Some d)"
  by (induction keys arbitrary: rows) (auto split: option.splits)

lemma deposit_rows_sound:
  assumes "deposit_rows m env s = Inr rows"
  shows "distinct (map fst rows)" "\<forall>(k, d)\<in>set rows. row_of m s k = Some d" "row_of m s k = Some d \<Longrightarrow> (k, d) \<in> set rows"
proof -
  let ?keys = "sorted_list_of_fset (fmdom (quotes (ln_db s)))"
  have "read_rows (deposit_parse m) (quotes (ln_db s)) ?keys = Some rows"
    using assms by (auto simp: deposit_rows_def split: if_splits)
  note r = read_rows_sound [OF this]
  show "distinct (map fst rows)" using r by (simp add: sorted_list_of_fset.rep_eq)
  show rows: "\<forall>(k, d)\<in>set rows. row_of m s k = Some d" using r by (simp add: row_of_def)
  show "(k, d) \<in> set rows" if d: "row_of m s k = Some d"
  proof -
    have "k \<in> set ?keys" using d by (auto simp: row_of_def bind_eq_Some_conv dest: fmdomI)
    then have "k \<in> fst ` set rows" using r by (metis list.set_map)
    then show ?thesis using rows d by force
  qed
qed

lemma next_batch_subset: "set (next_batch key cursor xs) \<subseteq> set xs"
  by (metis next_batch_def set_rotate set_take_subset)

lemma next_batch_distinct: "distinct (map key xs) \<Longrightarrow> distinct (map key (next_batch key' cursor xs))"
  by (simp add: next_batch_def take_map [symmetric] rotate_map [symmetric])

text \<open>One pass of the pruning, from a state in which the database is open or not.\<close>

lemma prune_quotes: "prune env time db = Inr db' \<Longrightarrow> quotes db' = quotes db \<and> mint_urls db' = mint_urls db"
  by (auto simp: prune_def split: if_splits)

lemma ln_database_quotes:
  "ln_database env now s = (r, s') \<Longrightarrow> quotes (ln_db s') = quotes (ln_db s) \<and> mint_urls (ln_db s') = mint_urls (ln_db s)"
  by (erule ln_database_cases) (auto dest: prune_quotes)

lemma same_quotes: "quotes (ln_db s) = quotes (ln_db t) \<Longrightarrow> row_of m s = row_of m t \<and> same_row k s = same_row k t"
  by (auto simp: row_of_def same_row_def fun_eq_iff)

lemma prune_cashu_deposits_effect:
  assumes "prune_cashu_deposits x m env cursor s ps = (r, calls, cursor', s', ps')" "deposit_codec m"
  shows "(\<forall>k. \<not> same_row k s s' \<longrightarrow> (\<exists>time d. e_now (cl_ln env) = Some time \<and> row_of m s k = Some d \<and> may_go x (cl_prune env k) time d))
    \<and> (\<forall>(mint, c)\<in>set calls. \<exists>time k d. e_now (cl_ln env) = Some time \<and> row_of m s k = Some d
        \<and> mint = dep_mint d \<and> c = Remove_quote (dep_quote d) \<and> may_go x (cl_prune env k) time d \<and> row_retired m k s')"
proof -
  obtain v s1 where v: "ln_database (e_open (cl_ln env)) (e_open_now (cl_ln env)) s = (v, s1)" by force
  note q = same_quotes [OF conjunct1 [OF ln_database_quotes [OF v]]]
  consider "calls = []" "s' = s \<or> s' = s1"
    | rows time where "deposit_rows m (e_read (cl_ln env)) s1 = Inr rows" "e_now (cl_ln env) = Some time"
        "prune_deposits x m (cl_prune env) time (next_batch fst cursor rows) cursor s1 ps = (r, calls, cursor', s', ps')"
    using assms(1) v
    by (cases "deposit_rows m (e_read (cl_ln env)) s1"; cases "e_now (cl_ln env)")
      (auto simp: prune_cashu_deposits_def split: if_splits sum.splits)
  then show ?thesis
  proof cases
    case 1
    then show ?thesis using ln_database_quotes [OF v] by (auto simp: same_row_def)
  next
    case 2
    have b: "distinct (map fst (next_batch fst cursor rows))" "\<forall>(k, d)\<in>set (next_batch fst cursor rows). row_of m s1 k = Some d"
      using next_batch_distinct deposit_rows_sound [OF 2(1)] next_batch_subset [of fst cursor rows] by auto
    show ?thesis using prune_deposits_effect [OF 2(3) assms(2) b] b(2) 2(2) q by fastforce
  qed
qed

text \<open>The sweep removes only quotes that no deposit refers to and that the mint says are unpaid.\<close>

definition orphan_unpaid :: "ln_ext \<Rightarrow> (string \<Rightarrow> visit_env) \<Rightarrow> string \<Rightarrow> bool" where
  "orphan_unpaid x env i \<longleftrightarrow>
     (\<exists>j q. v_status (env j) = Some q \<and> q_id q = i \<and> mint_says_unpaid x (v_now (env j)) (v_response (env j)) q)"

lemma visit_quote_removes:
  assumes "visit_quote x mintable (env j) associated j = (r, calls)" "Remove_quote i \<in> set calls"
  shows "i \<notin> associated \<and> orphan_unpaid x env i"
  using assms
  by (auto simp: visit_quote_def orphan_unpaid_def split: option.splits sum.splits bool.splits if_splits
      dest!: definitively_unpaid_sound intro!: exI [of _ j])

lemma visit_quotes_removes:
  "visit_quotes x mintable env associated qs s = (r, calls, s') \<Longrightarrow> Remove_quote i \<in> set calls \<Longrightarrow>
    i \<notin> associated \<and> orphan_unpaid x env i"
proof (induction qs arbitrary: s r calls s')
  case (Cons q qs)
  obtain v c1 where v: "visit_quote x mintable (env (q_id q)) associated (q_id q) = (v, c1)" by force
  have "calls = c1 \<or> (\<exists>t r' c2 s''. visit_quotes x mintable env associated qs t = (r', c2, s'') \<and> calls = c1 @ c2)"
    using Cons.prems(1) v by (auto simp: Let_def split: sum.splits prod.splits)
  then show ?case using Cons.IH Cons.prems(2) visit_quote_removes [where env = env and j = "q_id q", OF v] by auto
qed simp

lemma recover_mint_deposits_removes:
  assumes "recover_mint_deposits x mintable env associated s = (r, calls, s')" "Remove_quote i \<in> set calls"
  shows "i \<notin> associated \<and> orphan_unpaid x (u_visits env) i"
  using assms(1) unfolding recover_mint_deposits_def
proof (cases rule: with_wallet_cases)
  case (Ready t)
  then show ?thesis using assms(2) by (cases "u_quotes env") (auto dest: visit_quotes_removes)
qed (use assms(2) in simp)

lemma recover_mints_removes:
  "recover_mints x mintable env mints ps = (calls, ps') \<Longrightarrow> (mint, Remove_quote i) \<in> set calls \<Longrightarrow>
    \<exists>associated. (mint, associated) \<in> set mints \<and> i \<notin> associated \<and> orphan_unpaid x (u_visits (env mint)) i"
proof (induction mints arbitrary: ps calls)
  case (Cons ma mints)
  obtain a as where ma: "ma = (a, as)" by force
  obtain r c w where c: "recover_mint_deposits x mintable (env a) as (entry ps a) = (r, c, w)" by (metis prod_cases3)
  obtain c2 ps2 where c2: "recover_mints x mintable env mints (fmupd a w ps) = (c2, ps2)" by force
  have "calls = map (Pair a) c @ c2" "ps2 = ps'" using Cons.prems(1) c c2 by (auto simp: ma)
  then consider "mint = a" "Remove_quote i \<in> set c" | "(mint, Remove_quote i) \<in> set c2" using Cons.prems(2) by auto
  then show ?case
  proof cases
    case 1
    then show ?thesis using recover_mint_deposits_removes [OF c] by (auto simp: ma)
  next
    case 2
    then show ?thesis using Cons.IH c2 \<open>ps2 = ps'\<close> by (metis list.set_intros(2))
  qed
qed simp

lemma assign_quotes_complete:
  "\<lbrakk>distinct mints; (mint, associated) \<in> set (assign_quotes rows mints); (k, d) \<in> set rows; dep_mint d = mint\<rbrakk>
    \<Longrightarrow> dep_quote d \<in> associated"
proof (induction rows mints rule: assign_quotes.induct)
  case (2 rows a mints)
  show ?case
  proof (cases "mint = a")
    case True
    have "(a, as) \<notin> set (assign_quotes rs mints)" for as rs
      using 2(2) by (induction rs mints rule: assign_quotes.induct) auto
    then show ?thesis using 2(3-5) True by force
  next
    case False
    then show ?thesis using 2 by auto
  qed
qed simp

lemma parse_mints_canonical:
  "parse_mints ext urls = Some mints \<Longrightarrow> \<forall>u\<in>set urls. \<forall>v. parse_mint ext u = Inr v \<longrightarrow> v = u \<Longrightarrow> mints = urls"
  by (induction urls arbitrary: mints) (auto split: sum.splits)

lemma mints_and_quotes_complete:
  assumes "mints_and_quotes ext m env s = Inr mints" "(mint, associated) \<in> set mints" "row_of m s k = Some d" "dep_mint d = mint"
    and "\<forall>u v. u |\<in>| mint_urls (ln_db s) \<longrightarrow> parse_mint ext u = Inr v \<longrightarrow> v = u"
  shows "dep_quote d \<in> associated"
proof -
  let ?urls = "sorted_list_of_fset (mint_urls (ln_db s))"
  obtain rows urls where r: "deposit_rows m env s = Inr rows" "parse_mints ext ?urls = Some urls" "mints = assign_quotes rows urls"
    using assms(1) by (auto simp: mints_and_quotes_def)
  have "urls = ?urls" by (rule parse_mints_canonical [OF r(2)]) (use assms(5) in auto)
  then have "distinct urls" by (simp add: sorted_list_of_fset.rep_eq)
  then show ?thesis
    by (rule assign_quotes_complete) (use assms(2-4) r(3) deposit_rows_sound(3) [OF r(1)] in auto)
qed

lemma recover_cashu_deposits_cases:
  assumes "recover_cashu_deposits ext x m mintable env cursor s ps = (r, calls, cursor', s', ps')"
  obtains (Nothing) "calls = []" "quotes (ln_db s') = quotes (ln_db s)"
  | (Passes) s1 mints c1 ps1 c2 where "quotes (ln_db s1) = quotes (ln_db s)" "mint_urls (ln_db s1) = mint_urls (ln_db s)"
      "mints_and_quotes ext m (e_read (rc_ln env)) s1 = Inr mints"
      "recover_mints x mintable (rc_sweeps env) mints ps = (c1, ps1)"
      "prune_cashu_deposits x m (rc_cleanup env) cursor s1 ps1 = (r, c2, cursor', s', ps')" "calls = c1 @ c2"
proof -
  obtain v s1 where v: "ln_database (e_open (rc_ln env)) (e_open_now (rc_ln env)) s = (v, s1)" by force
  note q = ln_database_quotes [OF v]
  show thesis
  proof (cases "rc_path env = Some True \<and> v = Inr () \<and> (\<exists>mints. mints_and_quotes ext m (e_read (rc_ln env)) s1 = Inr mints)")
    case True
    then obtain mints where m: "mints_and_quotes ext m (e_read (rc_ln env)) s1 = Inr mints" by blast
    obtain c1 ps1 where c1: "recover_mints x mintable (rc_sweeps env) mints ps = (c1, ps1)" by force
    obtain r2 c2 cu s2 ps2 where c2: "prune_cashu_deposits x m (rc_cleanup env) cursor s1 ps1 = (r2, c2, cu, s2, ps2)"
      by (metis prod_cases5)
    have "r = r2 \<and> calls = c1 @ c2 \<and> cursor' = cu \<and> s' = s2 \<and> ps' = ps2"
      using assms True v m c1 c2 by (auto simp: recover_cashu_deposits_def)
    then show thesis using Passes [OF _ _ m c1, of c2] q c2 by simp
  next
    case False
    then have "calls = [] \<and> (s' = s \<or> s' = s1)"
      using assms v by (auto simp: recover_cashu_deposits_def split: option.splits bool.splits sum.splits)
    then show thesis using q by (intro Nothing) auto
  qed
qed

text \<open>
  C9: No deposit is forgotten before its outcome is known. When the recovery of the deposits removes a
  quote from a wallet, then either no stored deposit of that mint refers to it and the mint, asked
  just now, says it is unpaid more than an hour after everything expired; or it belongs to a stored
  deposit whose retention has passed, that was already journalled as retired or whose funds have
  arrived or that the mint says is unpaid, and the deposit is journalled as retired or gone when the
  pass ends. This holds when the stored mint URLs are in the form the parser gives them.
\<close>

theorem deposit_removal_safe:
  assumes "recover_cashu_deposits ext x m mintable env cursor s ps = (r, calls, cursor', s', ps')"
    and "(mint, Remove_quote i) \<in> set calls" "deposit_codec m"
    and "\<forall>u v. u |\<in>| mint_urls (ln_db s) \<longrightarrow> parse_mint ext u = Inr v \<longrightarrow> v = u"
  shows "(\<forall>k d. row_of m s k = Some d \<longrightarrow> dep_mint d = mint \<longrightarrow> dep_quote d \<noteq> i)
      \<and> orphan_unpaid x (u_visits (rc_sweeps env mint)) i
    \<or> (\<exists>time k d bill. e_now (cl_ln (rc_cleanup env)) = Some time \<and> row_of m s k = Some d \<and> dep_mint d = mint \<and> dep_quote d = i
      \<and> bolt11 x (dep_invoice d) = Some bill \<and> deposit_retention bill \<le> time
      \<and> (dep_retired d \<or> deposit_settled x (pe_can (cl_prune (rc_cleanup env) k)) d)
      \<and> row_retired m k s')"
  using assms(1)
proof (cases rule: recover_cashu_deposits_cases)
  case Nothing
  then show ?thesis using assms(2) by simp
next
  case (Passes s1 mints c1 ps1 c2)
  note q = same_quotes [OF Passes(1)]
  consider "(mint, Remove_quote i) \<in> set c1" | "(mint, Remove_quote i) \<in> set c2" using assms(2) Passes(6) by auto
  then show ?thesis
  proof cases
    case 1
    then obtain associated where a: "(mint, associated) \<in> set mints" "i \<notin> associated" "orphan_unpaid x (u_visits (rc_sweeps env mint)) i"
      using recover_mints_removes [OF Passes(4)] by blast
    then show ?thesis
      using mints_and_quotes_complete [OF Passes(3) a(1)] assms(4) q Passes(2) by auto
  next
    case 2
    then show ?thesis
      using prune_cashu_deposits_effect [OF Passes(5) assms(3)] q by (fastforce simp: may_go_def)
  qed
qed

lemma recover_keeps_row:
  assumes "recover_cashu_deposits ext x m mintable env cursor s ps = (r, calls, cursor', s', ps')" "deposit_codec m"
    and "row_of m s k = Some d" "bolt11 x (dep_invoice d) = Some bill" "l402_valid_before bill = Some valid_before"
    and "\<forall>time\<in>set_option (e_now (cl_ln (rc_cleanup env))). time < valid_before"
  shows "same_row k s s'"
proof -
  have "\<not> deposit_retention bill \<le> time" if "time < valid_before" for time
    using assms(5) that by (auto simp: deposit_retention_def l402_valid_before_def checked_add_def saturating_add_def SKEW_def
        bind_eq_Some_conv min_def split: if_splits)
  then have stays: "\<not> may_go x e time d" if "time < valid_before" for e time using assms(4) that by (simp add: may_go_def)
  show ?thesis
    using assms(1)
  proof (cases rule: recover_cashu_deposits_cases)
    case (Passes s1 mints c1 ps1 c2)
    then show ?thesis
      using prune_cashu_deposits_effect [OF Passes(5) assms(2)] same_quotes [OF Passes(1)] assms(3,6) stays
      by (metis option.inject option.set_intros)
  qed (simp add: same_row_def)
qed

text \<open>
  C25: A deposit outlives its credential. Recovering and pruning the deposits changes or removes the
  row of a deposit only when every L402 credential minted for its invoice has expired, so a client
  that pays in time and presents the credential finds the deposit its payment is collected from.
\<close>

theorem deposit_outlives_credential:
  assumes "recover_cashu_deposits ext x m mintable env cursor s ps = (r, calls, cursor', s', ps')" "deposit_codec m"
    and "row_of m s k = Some d" "bolt11 x (dep_invoice d) = Some bill" "l402_valid_before bill = Some valid_before"
    and "e_now (cl_ln (rc_cleanup env)) = Some time" "time < valid_before"
  shows "row_of m s' k = Some d"
proof -
  have "same_row k s s'" by (rule recover_keeps_row [OF assms(1-5)]) (simp add: assms(6,7))
  then show ?thesis using assms(3) by (simp add: row_of_def same_row_def)
qed

section \<open>Collecting a deposit\<close>

text \<open>The wallets answer the calls that the settlement database makes on them.\<close>

definition with_wallets ::
  "(wallet_quote \<Rightarrow> nat) \<Rightarrow> (string \<Rightarrow> invoice_env) \<Rightarrow> (string \<Rightarrow> string \<Rightarrow> deposit_env) \<Rightarrow> payments \<Rightarrow> l402_ext \<Rightarrow> l402_ext" where
  "with_wallets mintable quoting collecting ps m =
     m\<lparr>mint_invoice := \<lambda>mint amount.
         (case fst (wallet_mint_invoice (quoting mint) amount (entry ps mint)) of
            Inl _ \<Rightarrow> None
          | Inr q \<Rightarrow> Some (mint_quote.truncate q)),
       collect_mint_invoice := \<lambda>mint i amount invoice.
         fst (wallet_collect_mint_invoice mintable (collecting mint i) i amount invoice (entry ps mint)) = Inr ()\<rparr>"

lemma claim_quote_effect:
  assumes "claim_quote mintable env i amount invoice s = (r, calls, s')"
  shows "(r = Inr () \<longrightarrow> (\<exists>txs. d_received env = Some txs \<and> has_mint_transaction i amount invoice txs) \<and> \<not> mw_needs_recovery s')
    \<and> (r \<noteq> Inr () \<longrightarrow> mw_needs_recovery s') \<and> (Mint_tokens j \<in> set calls \<longrightarrow> j = i) \<and> Remove_quote j \<notin> set calls"
  using assms by (auto simp: claim_quote_def Let_def split: option.splits if_splits)

text \<open>
  A deposit counts as collected only when the wallet has its money. The collection of a deposit
  succeeds exactly on a completed incoming transaction for its quote and invoice of at least its
  amount; tokens are minted only for a stored quote with the invoice, the amount and the unit of the
  deposit; and when the collection fails after it has asked the mint, the wallet is left in need of
  recovery, which runs before anything else touches it.
\<close>

lemma collect_mint_invoice_sound:
  assumes "wallet_collect_mint_invoice mintable env i amount invoice s = (r, calls, s')"
  shows "(r = Inr () \<longrightarrow> (\<exists>txs. (d_transactions env = Some txs \<or> d_received env = Some txs) \<and> has_mint_transaction i amount invoice txs)
      \<and> \<not> mw_needs_recovery s')
    \<and> (\<forall>j. Mint_tokens j \<in> set calls \<longrightarrow> j = i \<and> (\<exists>q. d_quote env = Some (Some q) \<and> q_request q = invoice
        \<and> q_amount q = Some amount \<and> q_unit q = Sat))
    \<and> (calls \<noteq> [] \<and> r \<noteq> Inr () \<longrightarrow> mw_needs_recovery s')
    \<and> (\<forall>j. Remove_quote j \<notin> set calls)"
  using assms unfolding wallet_collect_mint_invoice_def
proof (cases rule: with_wallet_cases)
  case (Failed e)
  then show ?thesis by simp
next
  case (Ready t)
  show ?thesis
  proof (cases "\<exists>txs q. d_transactions env = Some txs \<and> \<not> has_mint_transaction i amount invoice txs \<and> d_quote env = Some (Some q)
      \<and> q_request q = invoice \<and> q_amount q = Some amount \<and> q_unit q = Sat")
    case True
    then have c: "claim_quote mintable env i amount invoice t = (r, calls, s')" using Ready(1) by auto
    show ?thesis using claim_quote_effect [OF c] True by blast
  next
    case False
    then have "calls = [] \<and> s' = t \<and> (r = Inr () \<longrightarrow> (\<exists>txs. d_transactions env = Some txs \<and> has_mint_transaction i amount invoice txs))"
      using Ready(1) by (auto split: option.splits if_splits)
    then show ?thesis using Ready(3) by auto
  qed
qed

lemma collect_wallets_received:
  assumes "collect_mint_invoice (with_wallets mintable quoting collecting ps m) mint i amount invoice"
  shows "\<exists>txs. (d_transactions (collecting mint i) = Some txs \<or> d_received (collecting mint i) = Some txs)
    \<and> has_mint_transaction i amount invoice txs"
proof -
  obtain calls s' where "wallet_collect_mint_invoice mintable (collecting mint i) i amount invoice (entry ps mint) = (Inr (), calls, s')"
    using assms by (auto simp: with_wallets_def) (metis prod.collapse)
  then show ?thesis unfolding wallet_collect_mint_invoice_def
    by (cases rule: with_wallet_cases) (auto split: option.splits if_splits dest: claim_quote_effect)
qed

lemma with_wallets_parse [simp]: "deposit_parse (with_wallets mintable quoting collecting ps m) = deposit_parse m"
  by (simp add: with_wallets_def)

text \<open>
  C8: An L402 payment to a mint is admitted only with its money in the wallet. When a credential of a
  policy that receives through a mint settles, the credential was presented with the preimage of the
  payment hash in its identifier; the database holds, under the network and that payment hash, a deposit
  of that mint for the price in full sats; and the mint's wallet lists a completed incoming transaction
  of at least that amount for the quote and the invoice of that deposit.
\<close>

theorem l402_deposit_received:
  assumes "settle_l402 x (with_wallets mintable quoting collecting ps m) e p hash encoded s = (Inr (), s')"
    and "receiver_mint (lp_receiver p) = Some mint"
  shows "\<exists>mac pre h d txs. parse_credential x encoded = Inr (mac, pre) \<and> h = take 32 (drop 2 (mac_identifier mac)) \<and> sha256 x pre = h
    \<and> row_of m s (receiver_network (lp_receiver p) @ '':'' @ hex h) = Some d
    \<and> dep_mint d = mint \<and> dep_amount d = lp_amount_msat p div 1000
    \<and> (d_transactions (collecting mint (dep_quote d)) = Some txs \<or> d_received (collecting mint (dep_quote d)) = Some txs)
    \<and> has_mint_transaction (dep_quote d) (dep_amount d) (dep_invoice d) txs"
proof -
  let ?m = "with_wallets mintable quoting collecting ps m"
  obtain mac pre u s1 key ret s2 where c: "parse_credential x encoded = Inr (mac, pre)"
    "ln_database (e_open e) (e_open_now e) s = (u, s1)" "l402_authorize x e p hash mac pre s1 = Inr (key, ret)"
    "collect_cashu_invoice ?m e p mint key s1 = (Inr (), s2)"
    using assms by (auto simp: settle_l402_def l402_collect_def split: if_splits sum.splits prod.splits)
  have key: "key = receiver_network (lp_receiver p) @ '':'' @ hex (take 32 (drop 2 (mac_identifier mac)))"
    using c(3) by (auto simp: l402_authorize_def settlement_key_def)
  have pre: "sha256 x pre = take 32 (drop 2 (mac_identifier mac))" using c(1) by (auto simp: parse_credential_def split: prod.splits)
  obtain v s3 where v: "ln_database (e_open e) (e_open_now e) s1 = (v, s3)" by force
  obtain d where d: "Option.bind (fmlookup (quotes (ln_db s3)) key) (deposit_parse m) = Some d" "dep_mint d = mint"
    "dep_amount d = lp_amount_msat p div 1000" "collect_mint_invoice ?m mint (dep_quote d) (dep_amount d) (dep_invoice d)"
    using c(4) v by (auto simp: collect_cashu_invoice_def ln_read_def split: sum.splits if_splits)
  have "row_of m s key = Some d"
    using d(1) ln_database_quotes [OF c(2)] ln_database_quotes [OF v] by (simp add: row_of_def)
  then show ?thesis using collect_wallets_received [OF d(4)] d(2,3) c(1) pre unfolding key by blast
qed

section \<open>Runs of the whole store\<close>

text \<open>What the passes over the deposits do to the tables: rows of \<open>K\<close> may change or go, none is added, and the
  other tables stay.\<close>

definition deposits_only :: "string set \<Rightarrow> lightning \<Rightarrow> lightning \<Rightarrow> bool" where
  "deposits_only K s s' \<longleftrightarrow> spent (ln_db s') = spent (ln_db s) \<and> roots (ln_db s') = roots (ln_db s)
     \<and> (\<forall>k. k \<notin> K \<longrightarrow> same_row k s s') \<and> fmdom (quotes (ln_db s')) |\<subseteq>| fmdom (quotes (ln_db s))"

lemma deposits_only_refl [simp]: "deposits_only K s s"
  by (simp add: deposits_only_def same_row_def)

lemma deposits_only_trans:
  assumes "deposits_only K a b" "deposits_only L b c"
  shows "deposits_only (K \<union> L) a c"
proof -
  have "fmdom (quotes (ln_db c)) |\<subseteq>| fmdom (quotes (ln_db a))"
    by (rule fsubset_trans [of _ "fmdom (quotes (ln_db b))"]) (use assms in \<open>simp_all add: deposits_only_def\<close>)
  then show ?thesis using assms by (simp add: deposits_only_def same_row_def)
qed

lemma deposits_only_UNIV: "deposits_only K a b \<Longrightarrow> deposits_only UNIV a b"
  by (simp add: deposits_only_def)

lemma deposits_only_write:
  assumes "ln_write env body s = (r, s')"
    and "\<And>a db. body (ln_db s) = Inr (a, db) \<Longrightarrow> \<exists>q. db = (ln_db s)\<lparr>quotes := q\<rparr> \<and> fmdom q |\<subseteq>| fmdom (quotes (ln_db s))
      \<and> (\<forall>k. k \<noteq> key \<longrightarrow> fmlookup q k = fmlookup (quotes (ln_db s)) k)"
  shows "deposits_only {key} s s'"
proof -
  let ?Q = "\<lambda>db. spent db = spent (ln_db s) \<and> roots db = roots (ln_db s)
      \<and> (\<forall>k. k \<notin> {key} \<longrightarrow> fmlookup (quotes db) k = fmlookup (quotes (ln_db s)) k) \<and> fmdom (quotes db) |\<subseteq>| fmdom (quotes (ln_db s))"
  have "?Q (ln_db s')"
  proof (rule ln_write_keeps [OF assms(1), where Q = ?Q])
    fix a db assume "body (ln_db s) = Inr (a, db)"
    from assms(2) [OF this] obtain q where "db = (ln_db s)\<lparr>quotes := q\<rparr>" "fmdom q |\<subseteq>| fmdom (quotes (ln_db s))"
      "\<forall>k. k \<noteq> key \<longrightarrow> fmlookup q k = fmlookup (quotes (ln_db s)) k" by blast
    then show "?Q db" by simp
  qed simp
  then show ?thesis by (simp add: deposits_only_def same_row_def)
qed

lemma retire_deposit_only:
  assumes "retire_deposit x m env key d s ps = (r, s', ps')" "key |\<in>| fmdom (quotes (ln_db s))"
  shows "deposits_only {key} s s'"
proof -
  consider "s' = s" | json v where "ln_write (pe_retire env) (retire_body (pe_retire env) key json) s = (v, s')"
    using assms(1) by (auto simp: retire_deposit_def Let_def split: if_splits prod.splits sum.splits bool.splits option.splits)
  then show ?thesis
  proof cases
    case 2
    show ?thesis by (rule deposits_only_write [OF 2]) (use assms(2) in \<open>auto simp: retire_body_def\<close>)
  qed simp
qed

lemma prune_deposit_only:
  assumes "prune_deposit x m env time key d s ps = (r, calls, s', ps')" "key |\<in>| fmdom (quotes (ln_db s))"
  shows "deposits_only {key} s s'"
proof -
  obtain v s1 ps1 where v: "retire_deposit x m env key d s ps = (v, s1, ps1)" by (metis prod_cases3)
  obtain b s2 where b: "ln_write (pe_drop env) (drop_body (pe_drop env) key) s1 = (b, s2)" by force
  have 1: "deposits_only {key} s s1" by (rule retire_deposit_only [OF v assms(2)])
  have "deposits_only {key} s1 s2" by (rule deposits_only_write [OF b]) (auto simp: drop_body_def)
  then have 2: "deposits_only {key} s s2" using deposits_only_trans [OF 1] by fastforce
  have "s' = s \<or> s' = s1 \<or> s' = s2"
    using assms(1) v b by (auto simp: prune_deposit_def split: option.splits if_splits sum.splits bool.splits prod.splits)
  then show ?thesis using 1 2 by auto
qed

lemma prune_deposits_only:
  "prune_deposits x m env time rows cursor s ps = (r, calls, cursor', s', ps') \<Longrightarrow> distinct (map fst rows) \<Longrightarrow>
    fst ` set rows \<subseteq> fset (fmdom (quotes (ln_db s))) \<Longrightarrow> deposits_only (fst ` set rows) s s'"
proof (induction rows arbitrary: cursor s ps calls)
  case (Cons kd rows)
  obtain key d where kd: "kd = (key, d)" by force
  obtain v c s1 ps1 where v: "prune_deposit x m (env key) time key d s ps = (v, c, s1, ps1)" by (metis prod_cases4)
  have 1: "deposits_only {key} s s1" by (rule prune_deposit_only [OF v]) (use Cons.prems(3) in \<open>simp add: kd\<close>)
  have dom: "fst ` set rows \<subseteq> fset (fmdom (quotes (ln_db s1)))"
  proof
    fix k assume k: "k \<in> fst ` set rows"
    then have "k \<noteq> key" using Cons.prems(2) by (auto simp: kd)
    then have "same_row k s s1" using 1 by (simp add: deposits_only_def)
    moreover have "k |\<in>| fmdom (quotes (ln_db s))" using k Cons.prems(3) by auto
    ultimately show "k \<in> fset (fmdom (quotes (ln_db s1)))" by (simp add: same_row_def fmlookup_dom_iff)
  qed
  show ?case
  proof (cases v)
    case (Inl e)
    then have "s' = s1" using Cons.prems(1) v by (simp add: kd)
    then show ?thesis using deposits_only_trans [OF 1 deposits_only_refl] by (simp add: kd)
  next
    case (Inr u)
    obtain w l cu s2 ps2 where w: "prune_deposits x m env time rows (Some key) s1 ps1 = (w, l, cu, s2, ps2)" by (metis prod_cases5)
    then have "r = w \<and> cursor' = cu \<and> s' = s2 \<and> ps' = ps2" using Cons.prems(1) v Inr by (simp add: kd)
    then have "deposits_only (fst ` set rows) s1 s'" using Cons.IH [of "Some key" s1 ps1 l] w Cons.prems(2) dom by simp
    then show ?thesis using deposits_only_trans [OF 1] by (simp add: kd)
  qed
qed simp

lemma prune_cashu_only:
  assumes "prune_cashu_deposits x m env cursor s ps = (r, calls, cursor', s', ps')"
  shows "\<exists>s1. (s1 = s \<or> (\<exists>v. ln_database (e_open (cl_ln env)) (e_open_now (cl_ln env)) s = (v, s1))) \<and> deposits_only UNIV s1 s'"
proof -
  obtain v s1 where v: "ln_database (e_open (cl_ln env)) (e_open_now (cl_ln env)) s = (v, s1)" by force
  consider "s' = s \<or> s' = s1"
    | rows time where "deposit_rows m (e_read (cl_ln env)) s1 = Inr rows"
        "prune_deposits x m (cl_prune env) time (next_batch fst cursor rows) cursor s1 ps = (r, calls, cursor', s', ps')"
    using assms v
    by (cases "deposit_rows m (e_read (cl_ln env)) s1"; cases "e_now (cl_ln env)")
      (auto simp: prune_cashu_deposits_def split: if_splits sum.splits)
  then show ?thesis
  proof cases
    case 1
    then show ?thesis using v deposits_only_refl by blast
  next
    case 2
    have "row_of m s1 k = Some d" if "(k, d) \<in> set (next_batch fst cursor rows)" for k d
      using that deposit_rows_sound(2) [OF 2(1)] next_batch_subset [of fst cursor rows] by blast
    then have "fst ` set (next_batch fst cursor rows) \<subseteq> fset (fmdom (quotes (ln_db s1)))"
      by (force simp: row_of_def bind_eq_Some_conv fmlookup_dom_iff)
    then have "deposits_only (fst ` set (next_batch fst cursor rows)) s1 s'"
      using prune_deposits_only [OF 2(2)] next_batch_distinct deposit_rows_sound(1) [OF 2(1)] by blast
    then show ?thesis using deposits_only_UNIV v by blast
  qed
qed

lemma recover_cashu_only:
  assumes "recover_cashu_deposits ext x m mintable env cursor s ps = (r, calls, cursor', s', ps')"
  shows "\<exists>s1 s2. (s1 = s \<or> (\<exists>v. ln_database (e_open (rc_ln env)) (e_open_now (rc_ln env)) s = (v, s1)))
    \<and> (s2 = s1 \<or> (\<exists>v. ln_database (e_open (cl_ln (rc_cleanup env))) (e_open_now (cl_ln (rc_cleanup env))) s1 = (v, s2)))
    \<and> deposits_only UNIV s2 s'"
proof -
  obtain v s1 where v: "ln_database (e_open (rc_ln env)) (e_open_now (rc_ln env)) s = (v, s1)" by force
  consider "s' = s \<or> s' = s1" | c2 ps1 where "prune_cashu_deposits x m (rc_cleanup env) cursor s1 ps1 = (r, c2, cursor', s', ps')"
    using assms v by (auto simp: recover_cashu_deposits_def split: option.splits bool.splits sum.splits prod.splits)
  then show ?thesis
  proof cases
    case 1
    then show ?thesis using v by (intro exI [of _ s'] conjI) auto
  next
    case 2
    obtain s2 where "s2 = s1 \<or> (\<exists>v. ln_database (e_open (cl_ln (rc_cleanup env))) (e_open_now (cl_ln (rc_cleanup env))) s1 = (v, s2))"
      "deposits_only UNIV s2 s'"
      using prune_cashu_only [OF 2] by blast
    then show ?thesis using v by (intro exI [of _ s1] exI [of _ s2] conjI) auto
  qed
qed

text \<open>A run works on the database, the cursor of the pruning and the wallets. The recovery reads the clock
  first for its own opening of the database and then for the pruning.\<close>

datatype store_op = Settlement ln_op | Recovery recovery_env | Store_restart

type_synonym store = "nat \<times> string option \<times> lightning \<times> payments"

definition recovery_at :: "nat \<Rightarrow> recovery_env \<Rightarrow> recovery_env" where
  "recovery_at t env = env\<lparr>rc_ln := at_clock t (rc_ln env),
     rc_cleanup := (rc_cleanup env)\<lparr>cl_ln := at_clock (end_clock t (rc_ln env)) (cl_ln (rc_cleanup env))\<rparr>\<rparr>"

definition recovery_end :: "nat \<Rightarrow> recovery_env \<Rightarrow> nat" where
  "recovery_end t env = end_clock (end_clock t (rc_ln env)) (cl_ln (rc_cleanup env))"

fun store_step :: "externals \<Rightarrow> ln_ext \<Rightarrow> l402_ext \<Rightarrow> (wallet_quote \<Rightarrow> nat) \<Rightarrow> store \<Rightarrow> store_op \<Rightarrow> ln_result \<times> store" where
  "store_step ext x m mintable (t, cursor, s, ps) (Settlement opn) =
     (case ln_step x m (t, s) opn of (r, (t', s')) \<Rightarrow> (r, (t', cursor, s', ps)))"
| "store_step ext x m mintable (t, cursor, s, ps) (Recovery env) =
     (case recover_cashu_deposits ext x m mintable (recovery_at t env) cursor s ps of
        (_, _, cursor', s', ps') \<Rightarrow> (Not_granted, (recovery_end t env, cursor', s', ps')))"
| "store_step ext x m mintable (t, cursor, s, ps) Store_restart = (Not_granted, (t, None, ln_restart s, restart_payments ps))"

definition recovery_readings :: "recovery_env \<Rightarrow> nat set" where
  "recovery_readings env = readings (rc_ln env) \<union> readings (cl_ln (rc_cleanup env))"

lemma recovery_clock: "t \<le> recovery_end t env" "recovery_readings (recovery_at t env) \<subseteq> {t..recovery_end t env}"
proof -
  have le: "u \<le> end_clock u e" for u e by (simp add: end_clock_def)
  show "t \<le> recovery_end t env" using le order_trans unfolding recovery_end_def by blast
  have "u \<in> {t..recovery_end t env}" if "u \<in> readings (at_clock t (rc_ln env))" for u
    using readings_clock [OF that] le [of "end_clock t (rc_ln env)" "cl_ln (rc_cleanup env)"] unfolding recovery_end_def by simp
  moreover have "u \<in> {t..recovery_end t env}" if "u \<in> readings (at_clock (end_clock t (rc_ln env)) (cl_ln (rc_cleanup env)))" for u
    using readings_clock [OF that] le [of t "rc_ln env"] unfolding recovery_end_def by simp
  ultimately show "recovery_readings (recovery_at t env) \<subseteq> {t..recovery_end t env}"
    unfolding recovery_readings_def recovery_at_def by auto
qed

lemma recover_cashu_barrier:
  assumes "recover_cashu_deposits ext x m mintable env cursor s ps = (r, calls, cursor', s', ps')"
  shows "barrier_kept k R (recovery_readings env) N (ln_db s) (ln_db s')"
proof -
  obtain s1 s2 where o: "s1 = s \<or> (\<exists>v. ln_database (e_open (rc_ln env)) (e_open_now (rc_ln env)) s = (v, s1))"
    "s2 = s1 \<or> (\<exists>v. ln_database (e_open (cl_ln (rc_cleanup env))) (e_open_now (cl_ln (rc_cleanup env))) s1 = (v, s2))"
    "deposits_only UNIV s2 s'"
    using recover_cashu_only [OF assms] by blast
  have sub: "readings (rc_ln env) \<subseteq> recovery_readings env" "readings (cl_ln (rc_cleanup env)) \<subseteq> recovery_readings env"
    by (auto simp: recovery_readings_def)
  have "barrier_kept k R (recovery_readings env) N (ln_db s) (ln_db s1)"
    "barrier_kept k R (recovery_readings env) N (ln_db s1) (ln_db s2)"
    using o(1,2) sub by (auto intro: barrier_mono [OF ln_database_readings])
  moreover have "barrier_kept k R (recovery_readings env) N (ln_db s2) (ln_db s')"
    by (rule same_spent) (use o(3) in \<open>simp add: deposits_only_def\<close>)
  ultimately show ?thesis by (blast intro: barrier_trans)
qed

lemma store_step_cases:
  assumes "store_step ext x m mintable (t, cursor, s, ps) opn = (r, (t', cursor', s', ps'))"
  obtains (Settled) a where "opn = Settlement a" "ln_step x m (t, s) a = (r, (t', s'))"
  | (Other) "r = Not_granted" "t \<le> t'" "barrier_kept k R {t..t'} {} (ln_db s) (ln_db s')"
proof (cases opn)
  case (Settlement a)
  then show thesis using assms by (intro Settled [of a]) (auto split: prod.splits)
next
  case (Recovery env)
  obtain v calls c2 s2 ps2 where v: "recover_cashu_deposits ext x m mintable (recovery_at t env) cursor s ps = (v, calls, c2, s2, ps2)"
    by (metis prod_cases5)
  have "r = Not_granted \<and> t' = recovery_end t env \<and> s' = s2" using assms v by (simp add: Recovery)
  then show thesis
    using recovery_clock [of t env] barrier_mono [OF recover_cashu_barrier [OF v]] by (intro Other) auto
next
  case Store_restart
  then show thesis using assms by (intro Other) (auto simp: ln_restart_def)
qed

section \<open>A payment settles once\<close>

fun store_identifiers :: "ln_ext \<Rightarrow> store_op \<Rightarrow> string set" where
  "store_identifiers x (Settlement opn) = op_identifiers x opn"
| "store_identifiers x _ = {}"

fun store_invoices :: "ln_ext \<Rightarrow> store_op \<Rightarrow> invoice set" where
  "store_invoices x (Settlement opn) = op_invoices x opn"
| "store_invoices x _ = {}"

definition store_legal :: "ln_ext \<Rightarrow> string set \<Rightarrow> invoice set \<Rightarrow> nat \<Rightarrow> store_op \<Rightarrow> string \<Rightarrow> bool" where
  "store_legal x I V R opn k \<longleftrightarrow> key_laws x I V R k \<and> store_identifiers x opn \<subseteq> I \<and> store_invoices x opn \<subseteq> V"

definition store_taken :: "nat \<Rightarrow> store \<Rightarrow> string \<Rightarrow> bool" where
  "store_taken R = (\<lambda>(t, cursor, s, ps). key_taken R (t, s))"

definition store_agrees :: "ln_ext \<Rightarrow> string set \<Rightarrow> nat \<Rightarrow> store \<Rightarrow> string \<Rightarrow> bool" where
  "store_agrees x I R = (\<lambda>(t, cursor, s, ps). roots_agree x I R (t, s))"

lemma barrier_taken:
  "barrier_kept k R {t..t'} N (ln_db s) (ln_db s') \<Longrightarrow> t \<le> t' \<Longrightarrow> key_taken R (t, s) k \<Longrightarrow> key_taken R (t', s') k"
  by (auto simp: key_taken_def barrier_kept_def)

interpretation store_run: single_use "store_step ext x m mintable" "\<lambda>opn r k. r = Granted k" "store_taken R" "store_legal x I V R"
    "store_agrees x I R"
  for ext :: externals and x :: ln_ext and m :: l402_ext and mintable :: "wallet_quote \<Rightarrow> nat" and R :: nat and I :: "string set"
    and V :: "invoice set"
proof
  fix st st' :: store and opn r k
  assume p: "store_step ext x m mintable st opn = (r, st')" and l: "store_legal x I V R opn k" and a: "store_agrees x I R st k"
  obtain t cursor s ps t' cursor' s' ps' where st: "st = (t, cursor, s, ps)" "st' = (t', cursor', s', ps')" by (metis prod_cases4)
  note d = st store_taken_def store_agrees_def prod.case
  from p [unfolded st] consider (Settled) b where "ln_step x m (t, s) b = (r, (t', s'))" "ln_legal x I V R b k"
    | (Other) "r = Not_granted" "t \<le> t'" "barrier_kept k R {t..t'} {} (ln_db s) (ln_db s')"
  proof (cases rule: store_step_cases [where k = k and R = R])
    case (Settled b)
    then show thesis using l that(1) [of b] by (simp add: store_legal_def ln_legal_def)
  next
    case Other
    then show thesis by (rule that(2))
  qed
  note cases = this
  show "store_agrees x I R st' k"
  proof (cases rule: cases)
    case (Settled b)
    then show ?thesis using ln_step_roots_agree a unfolding d by blast
  next
    case Other
    then show ?thesis using roots_agree_kept [OF Other(3)] a unfolding d by blast
  qed
  show "store_taken R st' k" if "store_taken R st k"
    using that unfolding d by (cases rule: cases) (auto intro: ln_step_taken barrier_taken)
  assume g: "r = Granted k"
  show "\<not> store_taken R st k" "store_taken R st' k"
    using a ln_step_grant_free unfolding d by (cases rule: cases; use g in blast)+
qed

text \<open>
  C2: A Lightning payment is admitted once. Start from a database that holds no credentials yet and run x402
  settlements, L402 settlements, mintings, quotes, capacity checks, prunings, recoveries of the deposits
  and restarts, in any order, with whatever database calls failing or committing unreported and a clock
  that does not go back: at most one settlement under a key (a network and a payment hash) succeeds. Both
  protocols share the key, and no pruning drops its entry while a proof for it can still be accepted.
  Relied on: SHA-256 does not collide on the identifiers of the credentials minted and presented in the
  run; and among the invoices of the run, those that credentials were minted for and those presented over
  x402 with the signature of the policy's own node, no two have the same payment hash, which has 32 bytes.
\<close>

theorem lightning_settles_once:
  assumes "roots (ln_db s) = fmempty"
    and "inj_on (sha256 x) (\<Union>opn\<in>set ops. store_identifiers x opn)"
    and "inj_on inv_payment_hash (\<Union>opn\<in>set ops. store_invoices x opn)"
    and "\<forall>i\<in>(\<Union>opn\<in>set ops. store_invoices x opn). length (inv_payment_hash i) = 32"
  shows "length (filter (\<lambda>(_, r). r = Granted k)
    (zip ops (fst (run_ops (store_step ext x m mintable) (t, cursor, s, ps) ops)))) \<le> 1"
proof -
  let ?I = "\<Union>opn\<in>set ops. store_identifiers x opn" and ?V = "\<Union>opn\<in>set ops. store_invoices x opn"
  obtain R where "key_laws x ?I ?V R k" using key_laws_exist [OF assms(2-4)] by blast
  then have "\<forall>opn\<in>set ops. store_legal x ?I ?V R opn k" unfolding store_legal_def by blast
  moreover have "store_agrees x ?I R (t, cursor, s, ps) k" using assms(1) by (simp add: store_agrees_def roots_agree_def)
  ultimately show ?thesis by (rule store_run.granted_once [OF prod.collapse [symmetric]])
qed

section \<open>Invariants of the tables\<close>

lemma store_clock: "store_step ext x m mintable (t, cursor, s, ps) opn = (r, (t', cursor', s', ps')) \<Longrightarrow> t \<le> t'"
  by (erule store_step_cases [where k = "[]" and R = 0]) (auto dest: ln_step_keeps)

lemma run_clock: "fst st \<le> fst (snd (run_ops (store_step ext x m mintable) st ops))"
proof (induction ops arbitrary: st)
  case (Cons opn ops)
  obtain r st1 where p: "store_step ext x m mintable st opn = (r, st1)" by (metis prod.collapse)
  have "fst st \<le> fst st1" using p store_clock by (cases st; cases st1) auto
  then show ?case using Cons.IH [of st1] p by (auto simp: Let_def split: prod.splits intro: order_trans)
qed simp

text \<open>What every operation on the tables keeps, and the recovery of the deposits too, is kept by the runs.\<close>

locale store_invariant = table_invariant Q T for Q :: "lightning_db \<Rightarrow> bool" and T :: "nat set" +
  fixes ext :: externals and x :: ln_ext and m :: l402_ext and mintable :: "wallet_quote \<Rightarrow> nat"
  assumes recover_inv: "\<lbrakk>recover_cashu_deposits ext x m mintable env cursor s ps = (r, calls, cursor', s', ps');
      recovery_readings env \<subseteq> T; Q (ln_db s)\<rbrakk> \<Longrightarrow> Q (ln_db s')"
begin

lemma store_step_inv:
  assumes "store_step ext x m mintable (t, cursor, s, ps) opn = (r, (t', cursor', s', ps'))" "{t..t'} \<subseteq> T" "Q (ln_db s)"
  shows "Q (ln_db s')"
proof (cases opn)
  case (Settlement a)
  then show ?thesis using assms by (auto split: prod.splits intro: op_step_inv)
next
  case (Recovery env)
  obtain v calls c2 s2 ps2 where v: "recover_cashu_deposits ext x m mintable (recovery_at t env) cursor s ps = (v, calls, c2, s2, ps2)"
    by (metis prod_cases5)
  have "t' = recovery_end t env" "s' = s2" using assms(1) v by (simp_all add: Recovery)
  then show ?thesis using recover_inv [OF v] recovery_clock(2) [of t env] assms(2,3) by blast
next
  case Store_restart
  then show ?thesis using assms by (auto simp: ln_restart_def)
qed

lemma run_store_inv:
  "run_ops (store_step ext x m mintable) (t, cursor, s, ps) ops = (rs, (t', cursor', s', ps')) \<Longrightarrow> {t..t'} \<subseteq> T \<Longrightarrow> Q (ln_db s) \<Longrightarrow>
    Q (ln_db s')"
proof (induction ops arbitrary: t cursor s ps rs)
  case (Cons opn ops)
  obtain r t1 c1 s1 ps1 where p: "store_step ext x m mintable (t, cursor, s, ps) opn = (r, (t1, c1, s1, ps1))" by (metis prod_cases5)
  obtain rs1 st where q: "run_ops (store_step ext x m mintable) (t1, c1, s1, ps1) ops = (rs1, st)" by (metis prod.collapse)
  have st: "st = (t', cursor', s', ps')" using Cons.prems(1) p q by simp
  have t: "t \<le> t1" "t1 \<le> t'" using store_clock [OF p] run_clock [of "(t1, c1, s1, ps1)" ext x m mintable ops] by (simp_all add: q st)
  have "Q (ln_db s1)" by (rule store_step_inv [OF p]) (use t Cons.prems(2,3) in auto)
  moreover have "{t1..t'} \<subseteq> T" using t(1) Cons.prems(2) by auto
  ultimately show ?case using Cons.IH q [unfolded st] by blast
qed simp

end

lemma recover_tables_inv:
  assumes "recover_cashu_deposits ext x m mintable env cursor s ps = (r, calls, cursor', s', ps')"
    and "\<And>e t t' v. e = rc_ln env \<or> e = cl_ln (rc_cleanup env) \<Longrightarrow> ln_database (e_open e) (e_open_now e) t = (v, t') \<Longrightarrow> P t \<Longrightarrow> P t'"
    and "\<And>t. deposits_only UNIV t s' \<Longrightarrow> P t \<Longrightarrow> P s'" "P s"
  shows "P s'"
  using recover_cashu_only [OF assms(1)] assms(2-4) by metis

interpretation record_run: store_invariant records_ok UNIV ext x m mintable
  for ext :: externals and x :: ln_ext and m :: l402_ext and mintable :: "wallet_quote \<Rightarrow> nat"
proof
  fix env cursor s ps r calls cursor' s' ps'
  assume p: "recover_cashu_deposits ext x m mintable env cursor s ps = (r, calls, cursor', s', ps')" and q: "records_ok (ln_db s)"
  show "records_ok (ln_db s')"
  proof (rule recover_tables_inv [OF p, where P = "\<lambda>s. records_ok (ln_db s)"])
    fix t assume "deposits_only UNIV t s'" "records_ok (ln_db t)"
    then show "records_ok (ln_db s')"
      using fcard_mono [of "fmdom (quotes (ln_db s'))" "fmdom (quotes (ln_db t))"] by (auto simp: deposits_only_def records_ok_def fmlen_def)
  qed (use q in \<open>auto intro: records.database_inv\<close>)
qed

text \<open>
  C27: The challenge records stay within their limit. Whichever settlements, mintings, quotes, capacity
  checks, prunings, recoveries of the deposits and restarts run, and however their transactions fail,
  credentials and deposits together never come to more than 10,000 records.
\<close>

theorem challenge_records_bounded:
  assumes "fmlen (roots (ln_db s)) + fmlen (quotes (ln_db s)) \<le> 10000"
    and "run_ops (store_step ext x m mintable) (t, cursor, s, ps) ops = (rs, (t', cursor', s', ps'))"
  shows "fmlen (roots (ln_db s')) + fmlen (quotes (ln_db s')) \<le> 10000"
  using record_run.run_store_inv [OF assms(2)] assms(1) by (simp add: records_ok_def MAX_CHALLENGE_RECORDS_def)

section \<open>Credentials work until they expire\<close>

definition root_stored :: "string \<Rightarrow> string \<Rightarrow> nat \<Rightarrow> lightning_db \<Rightarrow> bool" where
  "root_stored k root v db \<longleftrightarrow> fmlookup (roots db) k = Some (root, v)"

interpretation root_table: table_invariant "root_stored k root v" "{..<v}" for k root :: string and v :: nat
proof
  show "root_stored k root v db'" if "prune env time db = Inr db'" "time \<in> {..<v}" "root_stored k root v db" for env time db db'
    using that by (simp add: root_stored_def prune_roots)
  show "root_stored k root v db'" if "claim_spent env now key ret db = Inr (b, db')" "root_stored k root v db" for env now key ret b db db'
    using that by (simp add: root_stored_def claim_spent_roots)
  show "root_stored k root v db'" if "root_body env key rt w db = Inr (u, db')" "root_stored k root v db" for env key rt w u db db'
    using that by (auto simp: root_stored_def root_body_def)
  show "root_stored k root v db'" if "mints_body env mint db = Inr (u, db')" "root_stored k root v db" for env mint u db db'
    using that by (auto simp: root_stored_def mints_body_def)
  show "root_stored k root v db'" if "quote_body env key json db = Inr (u, db')" "root_stored k root v db" for env key json u db db'
    using that by (auto simp: root_stored_def quote_body_def)
qed

interpretation root_run: store_invariant "root_stored k root v" "{..<v}" ext x m mintable
  for k root :: string and v :: nat and ext :: externals and x :: ln_ext and m :: l402_ext and mintable :: "wallet_quote \<Rightarrow> nat"
proof
  fix env cursor s ps r calls cursor' s' ps'
  assume p: "recover_cashu_deposits ext x m mintable env cursor s ps = (r, calls, cursor', s', ps')" and q: "root_stored k root v (ln_db s)"
    and t: "recovery_readings env \<subseteq> {..<v}"
  show "root_stored k root v (ln_db s')"
  proof (rule recover_tables_inv [OF p, where P = "\<lambda>s. root_stored k root v (ln_db s)"])
    fix e a b r assume e: "e = rc_ln env \<or> e = cl_ln (rc_cleanup env)" and o: "ln_database (e_open e) (e_open_now e) a = (r, b)"
      "root_stored k root v (ln_db a)"
    have "readings e \<subseteq> {..<v}" using e t by (auto simp: recovery_readings_def)
    then show "root_stored k root v (ln_db b)" by (rule root_table.database_readings_inv [OF o(1) _ o(2)])
  qed (use q in \<open>auto simp: deposits_only_def root_stored_def\<close>)
qed

text \<open>The row of a deposit whose credentials end at \<open>v\<close>.\<close>

definition deposit_ends :: "ln_ext \<Rightarrow> l402_ext \<Rightarrow> string \<Rightarrow> nat \<Rightarrow> bool" where
  "deposit_ends x m json v \<longleftrightarrow> deposit_codec m
     \<and> (\<exists>d i. deposit_parse m json = Some d \<and> bolt11 x (dep_invoice d) = Some i \<and> l402_valid_before i = Some v)"

definition row_stored :: "ln_ext \<Rightarrow> l402_ext \<Rightarrow> string \<Rightarrow> string \<Rightarrow> nat \<Rightarrow> lightning_db \<Rightarrow> bool" where
  "row_stored x m k json v db \<longleftrightarrow> deposit_ends x m json v \<longrightarrow> fmlookup (quotes db) k = Some json"

interpretation row_table: table_invariant "row_stored x m k json v" "{..<v}"
  for x :: ln_ext and m :: l402_ext and k json :: string and v :: nat
proof
  show "row_stored x m k json v db'" if "prune env time db = Inr db'" "row_stored x m k json v db" for env time db db'
    using that by (simp add: row_stored_def prune_others)
  show "row_stored x m k json v db'" if "claim_spent env now key ret db = Inr (b, db')" "row_stored x m k json v db"
    for env now key ret b db db'
    using that by (auto simp: row_stored_def claim_spent_def split: if_splits)
  show "row_stored x m k json v db'" if "root_body env key rt w db = Inr (u, db')" "row_stored x m k json v db" for env key rt w u db db'
    using that by (auto simp: row_stored_def root_body_def)
  show "row_stored x m k json v db'" if "mints_body env mint db = Inr (u, db')" "row_stored x m k json v db" for env mint u db db'
    using that by (auto simp: row_stored_def mints_body_def)
  show "row_stored x m k json v db'" if "quote_body env key j db = Inr (u, db')" "row_stored x m k json v db" for env key j u db db'
    using that by (auto simp: row_stored_def quote_body_def)
qed

interpretation row_run: store_invariant "row_stored x m k json v" "{..<v}" ext x m mintable
  for k json :: string and v :: nat and ext :: externals and x :: ln_ext and m :: l402_ext and mintable :: "wallet_quote \<Rightarrow> nat"
proof
  fix env cursor s ps r calls cursor' s' ps'
  assume p: "recover_cashu_deposits ext x m mintable env cursor s ps = (r, calls, cursor', s', ps')" and q: "row_stored x m k json v (ln_db s)"
    and t: "recovery_readings env \<subseteq> {..<v}"
  show "row_stored x m k json v (ln_db s')"
    unfolding row_stored_def
  proof
    assume e: "deposit_ends x m json v"
    then obtain d i where d: "deposit_parse m json = Some d" "bolt11 x (dep_invoice d) = Some i" "l402_valid_before i = Some v" "deposit_codec m"
      by (auto simp: deposit_ends_def)
    have j: "fmlookup (quotes (ln_db s)) k = Some json" using q e by (simp add: row_stored_def)
    have "same_row k s s'"
      by (rule recover_keeps_row [OF p d(4) _ d(2,3)]) (use t j d(1) in \<open>auto simp: row_of_def recovery_readings_def readings_def\<close>)
    then show "fmlookup (quotes (ln_db s')) k = Some json" using j by (simp add: same_row_def)
  qed
qed

text \<open>
  C26: A minted credential is accepted until it expires. A credential is minted for an invoice; then other
  operations run on the store, in any order: settlements, mintings, prunings, recoveries of the deposits,
  restarts. While the clock is before the end of the credential, presenting it with the preimage of the
  payment hash, for the request and under the policy it was minted for, to a database that answers and in
  which the payment is not claimed, settles the payment; for a policy that receives through a mint, when
  the deposit for the invoice was stored at the minting and the wallet reports it as paid. The credential
  with the preimage has to fit the header limit of 24 KiB. Relied on: the laws of the macaroon library.
\<close>

theorem l402_minted_settles:
  assumes "macaroon_laws x m" "mint_l402 x m (at_clock t0 e) p hash text i (Some root) (Some random) s = (Inr (encoded, text'), s1)"
    and "length root = 32" "length random = 32" "length (inv_payment_hash i) = 32" "length pre = 32" "sha256 x pre = inv_payment_hash i"
    and "list_all is_ascii hash" "length encoded + 65 \<le> 24576" "l402_valid_before i = Some v"
    and "key = receiver_network (lp_receiver p) @ '':'' @ hex (inv_payment_hash i)"
    and "\<And>mint. receiver_mint (lp_receiver p) = Some mint \<Longrightarrow> deposit_codec m
      \<and> (\<exists>d. row_of m s1 key = Some d \<and> dep_mint d = mint \<and> dep_amount d = lp_amount_msat p div 1000
           \<and> bolt11 x (dep_invoice d) = Some i \<and> collect_mint_invoice m mint (dep_quote d) (dep_amount d) (dep_invoice d))"
    and "run_ops (store_step ext x m mintable) (end_clock t0 e, cursor, s1, ps) ops = (rs, (t2, cursor2, s2, ps2))"
    and "env_ok e'" "e_open_now e' \<noteq> None" "e_time e' \<noteq> None" "e_now e' \<noteq> None" "end_clock t2 e' < v"
    and "fmlookup (spent (ln_db s2)) key = None"
  shows "fst (store_step ext x m mintable (t2, cursor2, s2, ps2) (Settlement (Ln_settle_l402 e' p hash (encoded @ '':'' @ hex pre))))
    = Granted key"
proof -
  have t2: "{end_clock t0 e..t2} \<subseteq> {..<v}" using assms(18) by (auto simp: end_clock_def)
  obtain d1 d2 d3 where "e_open_now e' = Some d1" "e_time e' = Some d2" "e_now e' = Some d3" using assms(15-17) by auto
  then have clk: "e_open_now (at_clock t2 e') = Some (t2 + d1)" "e_time (at_clock t2 e') = Some (t2 + d2)"
    "e_now (at_clock t2 e') = Some (t2 + d1 + d3)" "t2 + d1 < v" "t2 + d2 < v" "t2 + d1 + d3 < v"
    using assms(18) by (simp_all add: at_clock_def end_clock_def delay_def)
  have ok: "env_ok (at_clock t2 e')" using assms(14) by (simp add: env_ok_def at_clock_def)
  have "fmlookup (roots (ln_db s1)) (digest x (l402_identifier i random)) = Some (root, v)"
    by (rule mint_l402_root [OF assms(1,2,10)])
  then have root: "fmlookup (roots (ln_db s2)) (digest x (l402_identifier i random)) = Some (root, v)"
    using root_run.run_store_inv [OF assms(13), of v "digest x (l402_identifier i random)" root] t2 by (auto simp: root_stored_def)
  have key: "key = settlement_key p (inv_payment_hash i)" by (simp add: assms(11) settlement_key_def)
  have dep: "\<exists>d. Option.bind (fmlookup (quotes (ln_db s2)) key) (deposit_parse m) = Some d \<and> dep_mint d = mint
        \<and> dep_amount d = lp_amount_msat p div 1000 \<and> collect_mint_invoice m mint (dep_quote d) (dep_amount d) (dep_invoice d)"
    if mint: "receiver_mint (lp_receiver p) = Some mint" for mint
  proof -
    obtain d json where d: "fmlookup (quotes (ln_db s1)) key = Some json" "deposit_parse m json = Some d" "dep_mint d = mint"
      "dep_amount d = lp_amount_msat p div 1000" "bolt11 x (dep_invoice d) = Some i"
      "collect_mint_invoice m mint (dep_quote d) (dep_amount d) (dep_invoice d)" "deposit_codec m"
      using assms(12) [OF mint] by (auto simp: row_of_def bind_eq_Some_conv)
    have "deposit_ends x m json v" using d assms(10) by (auto simp: deposit_ends_def)
    then have "fmlookup (quotes (ln_db s2)) key = Some json"
      using row_run.run_store_inv [OF assms(13), of v key json] t2 d(1) by (auto simp: row_stored_def)
    then show ?thesis using d by auto
  qed
  obtain s3 where s3: "settle_l402 x m (at_clock t2 e') p hash (encoded @ '':'' @ hex pre) s2 = (Inr (), s3)"
    using credential_settles [OF assms(1-8) _ assms(10) root ok clk key assms(19) dep] assms(9) by (auto simp: MAX_PAYMENT_HEADER_def)
  have "l402_key x p (encoded @ '':'' @ hex pre) = key"
  proof -
    obtain mac where "build_credential x m p hash i root random = Some (mac, encoded, v)" "mac_identifier mac = l402_identifier i random"
      by (rule mint_l402_root [OF assms(1,2,10)])
    then show ?thesis
      using minted_parses [OF assms(1) _ assms(5,4,6,7)] assms(9) identifier_hash [OF assms(5)] key
      by (simp add: l402_key_def MAX_PAYMENT_HEADER_def)
  qed
  then show ?thesis using s3 by (simp add: grant_of_def)
qed

section \<open>Witnesses\<close>

definition demo_wallet_env :: wallet_env where
  "demo_wallet_env = \<lparr>w_locked = False, w_open = \<lparr>o_files = True, o_ledger = tx_ok, o_wallet = True\<rparr>, w_recover = Inr (0, 0)\<rparr>"

definition demo_quote :: "string \<Rightarrow> wallet_quote" where
  "demo_quote i = \<lparr>q_id = i, q_request = ''lnbc1'', q_amount = Some 21, q_unit = Sat, q_expiry = 1300, q_state = Quote_unpaid,
     q_amount_paid = 0, q_amount_issued = 0, q_used_by = None, q_method = BOLT11, q_updated_at = 0\<rparr>"

definition demo_response :: "string \<Rightarrow> quote_response" where
  "demo_response i = \<lparr>qr_quote = i, qr_request = ''lnbc1'', qr_amount = Some 21, qr_unit = Some Sat, qr_method = BOLT11,
     qr_state = Quote_unpaid, qr_amount_paid = 0, qr_amount_issued = 0, qr_updated_at = 0, qr_expiry = Some 1300\<rparr>"

definition demo_visit :: "string \<Rightarrow> visit_env" where
  "demo_visit i = \<lparr>v_status = Some (demo_quote i), v_now = Some 5000, v_response = Some (Bolt11_response (demo_response i)),
     v_remove = True, v_mint = True, v_recover = Inr (0, 0)\<rparr>"

definition demo_sweep :: "wallet_quote list \<Rightarrow> sweep_env" where
  "demo_sweep qs = \<lparr>u_wallet = demo_wallet_env, u_quotes = Some qs, u_visits = demo_visit\<rparr>"

definition demo_deposit :: deposit where
  "demo_deposit = \<lparr>dep_mint = ''https://m'', dep_quote = ''b'', dep_amount = 21, dep_invoice = ''lnbc1'', dep_retired = False\<rparr>"

definition demo_wallet :: mint_wallet where
  "demo_wallet = mint_wallet_default\<lparr>mw_loaded := True\<rparr>"

lemma demo_unpaid: "definitively_unpaid demo_ln (Some 5000) (Some (Bolt11_response (demo_response i))) (demo_quote i) = Inr True"
  by (simp add: definitively_unpaid_def locally_unpaid_def response_unpaid_def demo_quote_def demo_response_def demo_ln_def
      demo_invoice_def past_quote_grace_def QUOTE_PRUNE_GRACE_def SKEW_def checked_add_def saturating_add_def)

theorem deposits_not_starved_witness:
  "{''a'', ''b''} \<subseteq> set (concat (map (\<lambda>(r, calls). checks calls)
     (fst (run_ops (sweep demo_ln (\<lambda>_. 0) {}) demo_wallet [demo_sweep [demo_quote ''b'', demo_quote ''a'']]))))"
proof -
  let ?qs = "[demo_quote ''b'', demo_quote ''a'']"
  let ?run = "run_ops (sweep demo_ln (\<lambda>_. 0) {}) demo_wallet [demo_sweep ?qs]"
  have s: "sort_key q_id ?qs = [demo_quote ''a'', demo_quote ''b'']"
    by (simp add: demo_quote_def)
  have "concat (map (\<lambda>(r, calls). checks calls) (fst ?run)) = [''a'', ''b'']"
    by (simp add: sweep_def recover_mint_deposits_def with_wallet_def demo_sweep_def demo_wallet_env_def wallet_load_def demo_wallet_def
        mint_wallet_default_def mw_recover_def next_batch_def batch_start_def s visit_quote_def demo_visit_def demo_unpaid Let_def
        del: sort_key_simps)
      (simp add: demo_quote_def)
  then show ?thesis
    using conjunct1 [OF deposits_not_starved [of demo_ln "\<lambda>_. 0" "{}" demo_wallet "[demo_sweep ?qs]" "fst ?run" "snd ?run" ?qs]]
    by (simp add: demo_sweep_def demo_quote_def)
qed

definition demo_deposits :: l402_ext where
  "demo_deposits = demo_l402\<lparr>
     deposit_json := (\<lambda>d. if d = demo_deposit\<lparr>dep_retired := True\<rparr> then Some ''r'' else None),
     deposit_parse := (\<lambda>s. if s = ''r'' then Some (demo_deposit\<lparr>dep_retired := True\<rparr>) else if s = ''d'' then Some demo_deposit else None)\<rparr>"

definition demo_deposit_env :: deposit_env where
  "demo_deposit_env = \<lparr>d_wallet = demo_wallet_env, d_transactions = Some [], d_quote = Some (Some (demo_quote ''b'')),
     d_status = Some (demo_quote ''b''), d_mint = True,
     d_received = Some [\<lparr>itx_quote = Some ''b'', itx_request = Some ''lnbc1'', itx_completed = True, itx_unit = Sat, itx_amount = 21\<rparr>],
     d_now = Some 5000, d_response = Some (Bolt11_response (demo_response ''b''))\<rparr>"

definition demo_recovery :: "nat \<Rightarrow> recovery_env" where
  "demo_recovery t = \<lparr>rc_path = Some True, rc_ln = demo_env t, rc_sweeps = (\<lambda>_. demo_sweep []),
     rc_cleanup = \<lparr>cl_locked = False, cl_ln = demo_env t,
       cl_prune = (\<lambda>_. \<lparr>pe_can = demo_deposit_env, pe_retire = tx_ok, pe_wallet = demo_wallet_env, pe_removes = True,
         pe_drop = tx_ok\<lparr>tx_fails := \<lambda>c. c = Commit\<rparr>, pe_cancel = False\<rparr>)\<rparr>\<rparr>"

definition demo_stored :: lightning where
  "demo_stored = \<lparr>ln_db = \<lparr>spent = fmempty, roots = fmempty, quotes = fmupd ''k'' ''d'' fmempty, mint_urls = {||}\<rparr>, ln_open = True\<rparr>"

definition demo_mints :: payments where
  "demo_mints = fmupd ''https://m'' demo_wallet fmempty"

lemmas demo_deposit_defs = demo_deposits_def demo_deposit_env_def demo_recovery_def demo_stored_def demo_mints_def demo_wallet_def
  demo_wallet_env_def demo_env_def demo_deposit_def mint_wallet_default_def

lemma demo_codec: "deposit_codec demo_deposits"
  by (simp add: deposit_codec_def demo_deposits_def)

lemma demo_row: "row_of demo_deposits demo_stored k = (if k = ''k'' then Some demo_deposit else None)"
  by (simp add: row_of_def demo_stored_def demo_deposits_def)

lemma demo_can_prune:
  "can_prune_mint_deposit demo_ln demo_deposit_env ''b'' 21 ''lnbc1'' demo_wallet = (Inr True, [], demo_wallet)"
  using demo_unpaid [of "''b''"]
  by (simp add: can_prune_mint_deposit_def with_wallet_def wallet_load_def mw_recover_def demo_deposit_defs has_mint_transaction_def)
    (simp add: demo_quote_def)

lemma demo_rows: "deposit_rows demo_deposits tx_ok demo_stored = Inr [(''k'', demo_deposit)]"
  by (simp add: deposit_rows_def demo_stored_def sorted_list_of_fset.rep_eq) (simp add: demo_deposits_def)

lemma demo_recovers:
  "\<exists>r calls cursor s' ps'. recover_cashu_deposits ext demo_ln demo_deposits (\<lambda>_. 0) (demo_recovery 5000) None demo_stored demo_mints
      = (r, calls, cursor, s', ps') \<and> calls = [(''https://m'', Remove_quote ''b'')]"
proof -
  let ?s = "demo_stored\<lparr>ln_db := (ln_db demo_stored)\<lparr>quotes := fmupd ''k'' ''r'' (quotes (ln_db demo_stored))\<rparr>\<rparr>"
  let ?e = "cl_prune (rc_cleanup (demo_recovery 5000)) ''k''"
  have r: "retire_deposit demo_ln demo_deposits ?e ''k'' demo_deposit demo_stored demo_mints = (Inr True, ?s, fmupd ''https://m'' demo_wallet demo_mints)"
    using demo_can_prune
    by (simp add: retire_deposit_def demo_recovery_def demo_deposit_def entry_def demo_mints_def)
      (simp add: demo_deposits_def demo_deposit_def ln_write_def blocking_def write_tx_def retire_body_def)
  have i: "bolt11 demo_ln (dep_invoice demo_deposit) = Some demo_invoice" "deposit_retention demo_invoice \<le> 5000"
    by (simp_all add: demo_ln_def demo_deposit_def demo_invoice_def deposit_retention_def saturating_add_def SKEW_def)
  have "fst (snd (prune_deposit demo_ln demo_deposits ?e 5000 ''k'' demo_deposit demo_stored demo_mints)) = [(''https://m'', Remove_quote ''b'')]"
    using r i
    by (simp add: prune_deposit_def split: prod.splits)
      (simp add: remove_retired_mint_quote_def with_wallet_def wallet_load_def mw_recover_def demo_recovery_def demo_wallet_env_def entry_def
        demo_wallet_def mint_wallet_default_def demo_deposit_def split: sum.splits)
  moreover obtain v c t ps where p: "prune_deposit demo_ln demo_deposits ?e 5000 ''k'' demo_deposit demo_stored demo_mints = (v, c, t, ps)"
    by (metis prod_cases4)
  moreover have o: "e_open (demo_env 5000) = tx_ok" "e_read (demo_env 5000) = tx_ok" "e_now (demo_env 5000) = Some 5000" "ln_open demo_stored"
    by (simp_all add: demo_env_def demo_stored_def)
  have "mints_and_quotes ext demo_deposits tx_ok demo_stored = Inr []"
    using demo_rows by (simp add: mints_and_quotes_def) (simp add: demo_stored_def sorted_list_of_fset.rep_eq)
  ultimately show ?thesis
    using demo_rows
    by (simp add: recover_cashu_deposits_def prune_cashu_deposits_def demo_recovery_def ln_database_def o next_batch_def batch_start_def
        split: sum.splits)
qed

theorem deposit_removal_safe_witness:
  "case recover_cashu_deposits demo_ext demo_ln demo_deposits (\<lambda>_. 0) (demo_recovery 5000) None demo_stored demo_mints of
     (r, calls, cursor, s', ps') \<Rightarrow> (''https://m'', Remove_quote ''b'') \<in> set calls \<and> row_retired demo_deposits ''k'' s'"
proof -
  obtain r calls cursor s' ps' where c: "recover_cashu_deposits demo_ext demo_ln demo_deposits (\<lambda>_. 0) (demo_recovery 5000) None
      demo_stored demo_mints = (r, calls, cursor, s', ps')" "calls = [(''https://m'', Remove_quote ''b'')]"
    using demo_recovers by blast
  have "mint_urls (ln_db demo_stored) = {||}" by (simp add: demo_stored_def)
  moreover have "row_of demo_deposits demo_stored ''k'' = Some demo_deposit" "dep_mint demo_deposit = ''https://m''" "dep_quote demo_deposit = ''b''"
    by (simp_all add: demo_row demo_deposit_def)
  ultimately have "\<exists>k d. row_of demo_deposits demo_stored k = Some d \<and> row_retired demo_deposits k s'"
    using deposit_removal_safe [OF c(1), of "''https://m''" "''b''"] demo_codec c(2) by fastforce
  then show ?thesis by (auto simp: c demo_row split: if_splits)
qed

theorem deposit_outlives_credential_witness:
  "case recover_cashu_deposits demo_ext demo_ln demo_deposits (\<lambda>_. 0) (demo_recovery 1360) None demo_stored demo_mints of
     (r, calls, cursor, s', ps') \<Rightarrow> row_of demo_deposits s' ''k'' = Some demo_deposit"
proof -
  obtain r calls cursor s' ps' where c: "recover_cashu_deposits demo_ext demo_ln demo_deposits (\<lambda>_. 0) (demo_recovery 1360) None
      demo_stored demo_mints = (r, calls, cursor, s', ps')"
    by (metis prod_cases5)
  have "row_of demo_deposits s' ''k'' = Some demo_deposit"
    by (rule deposit_outlives_credential [OF c demo_codec, where bill = demo_invoice and time = 1360 and valid_before = 1361])
      (simp_all add: demo_row demo_valid_before, simp_all add: demo_ln_def demo_deposit_def demo_recovery_def demo_env_def)
  then show ?thesis by (simp add: c)
qed

definition demo_mint_policy :: lightning_policy where
  "demo_mint_policy = demo_x402\<lparr>lp_receiver := Cashu ''https://m'' MAINNET\<rparr>"

definition demo_settled :: l402_ext where
  "demo_settled = with_wallets (\<lambda>_. 21) (\<lambda>_. \<lparr>i_wallet = demo_wallet_env, i_quotes = None, i_quote = None\<rparr>) (\<lambda>_ _. demo_deposit_env)
     demo_mints demo_deposits"

definition demo_paid :: lightning where
  "demo_paid = \<lparr>ln_db = \<lparr>spent = fmempty,
     roots = fmupd (digest demo_l402_ln (l402_identifier demo_invoice demo_random)) (demo_root, 1361) fmempty,
     quotes = fmupd (settlement_key demo_mint_policy demo_preimage) ''d'' fmempty, mint_urls = {||}\<rparr>, ln_open = True\<rparr>"

lemma demo_collects: "collect_mint_invoice demo_settled ''https://m'' ''b'' 21 ''lnbc1''"
  by (simp add: demo_settled_def with_wallets_def entry_def demo_mints_def wallet_collect_mint_invoice_def with_wallet_def wallet_load_def
      mw_recover_def demo_deposit_defs has_mint_transaction_def demo_quote_def claim_quote_def)

lemma demo_authorizes:
  "l402_authorize demo_l402_ln (demo_env 1340) demo_mint_policy ''h'' demo_credential demo_preimage demo_paid
     = Inr (settlement_key demo_mint_policy demo_preimage, 4960)"
proof -
  have i: "mac_identifier demo_credential = l402_identifier demo_invoice demo_random"
    "take 32 (drop 2 (l402_identifier demo_invoice demo_random)) = demo_preimage"
    by (simp_all add: demo_credential_def l402_identifier_def demo_invoice_def demo_preimage_def)
  have t: "terms demo_l402_ln demo_mint_policy ''h'' = Some (hex ''t'')"
    by (simp add: terms_def demo_l402_ln_def demo_ln_def digest_def)
  have "sign_predicates demo_l402_ln '''' ps = Some ''''" for ps
    by (induction ps) (simp_all add: demo_l402_ln_def demo_ln_def)
  then have v: "l402_verify demo_l402_ln demo_mint_policy ''h'' demo_credential demo_preimage demo_root 1361 1340 = Inr ()"
    by (intro minted_verifies [OF t, where key = "''''"])
      (simp_all add: is_ascii_def demo_credential_def, simp_all add: demo_l402_ln_def demo_ln_def)
  have r: "fmlookup (roots (ln_db demo_paid)) (digest demo_l402_ln (l402_identifier demo_invoice demo_random)) = Some (demo_root, 1361)"
    "length demo_root = 32"
    by (simp_all add: demo_paid_def demo_root_def)
  show ?thesis
    by (simp add: l402_authorize_def read_root_def ln_read_def i r demo_env_def v saturating_add_def)
qed

lemma demo_settles:
  "fst (settle_l402 demo_l402_ln demo_settled (demo_env 1340) demo_mint_policy ''h'' (''m'' @ '':'' @ hex demo_preimage) demo_paid) = Inr ()"
proof -
  have p: "parse_credential demo_l402_ln (''m'' @ '':'' @ hex demo_preimage) = Inr (demo_credential, demo_preimage)"
    by (rule minted_parses [OF demo_macaroon_laws demo_build])
      (simp_all add: demo_invoice_def demo_preimage_def demo_random_def demo_l402_ln_def demo_ln_def MAX_PAYMENT_HEADER_def)
  have o: "ln_open demo_paid" "macaroon_init demo_settled" "spent (ln_db demo_paid) = fmempty"
    by (simp_all add: demo_paid_def demo_settled_def with_wallets_def demo_deposits_def demo_l402_def)
  have "l402_collect demo_settled (demo_env 1340) demo_mint_policy (settlement_key demo_mint_policy demo_preimage) demo_paid = (Inr (), demo_paid)"
  proof -
    have q: "fmlookup (quotes (ln_db demo_paid)) (settlement_key demo_mint_policy demo_preimage) = Some ''d''"
      "deposit_parse demo_settled ''d'' = Some demo_deposit" "receiver_mint (lp_receiver demo_mint_policy) = Some ''https://m''"
      "lp_amount_msat demo_mint_policy = 21000"
      by (simp_all add: demo_paid_def demo_settled_def demo_deposits_def demo_mint_policy_def demo_x402_def)
    show ?thesis
      using demo_collects
      by (simp add: l402_collect_def collect_cashu_invoice_def ln_database_def ln_read_def o q demo_env_def) (simp add: demo_deposit_def)
  qed
  moreover have "\<exists>s'. ln_claim (demo_env 1340) (settlement_key demo_mint_policy demo_preimage) 4960 demo_paid = (Inr (), s')"
  proof -
    have "e_now (demo_env 1340) = Some 1340" by (simp add: demo_env_def)
    then show ?thesis using ln_claim_ok [of demo_paid "demo_env 1340" 1340 4960] by (fastforce simp: o)
  qed
  ultimately show ?thesis
    using p demo_authorizes by (auto simp: settle_l402_def ln_database_def o)
qed

theorem l402_deposit_received_witness:
  "\<exists>d txs. row_of demo_deposits demo_paid (MAINNET @ '':'' @ hex demo_preimage) = Some d \<and> dep_amount d = 21
     \<and> has_mint_transaction (dep_quote d) 21 (dep_invoice d) txs"
proof -
  obtain s' where c: "settle_l402 demo_l402_ln demo_settled (demo_env 1340) demo_mint_policy ''h'' (''m'' @ '':'' @ hex demo_preimage) demo_paid
      = (Inr (), s')"
    using demo_settles by (metis prod.collapse)
  have p: "receiver_mint (lp_receiver demo_mint_policy) = Some ''https://m''" "lp_amount_msat demo_mint_policy = 21000"
    "receiver_network (lp_receiver demo_mint_policy) = MAINNET"
    by (simp_all add: demo_mint_policy_def demo_x402_def)
  obtain mac pre d txs where d: "parse_credential demo_l402_ln (''m'' @ '':'' @ hex demo_preimage) = Inr (mac, pre)"
    "row_of demo_deposits demo_paid (MAINNET @ '':'' @ hex (take 32 (drop 2 (mac_identifier mac)))) = Some d" "dep_amount d = 21"
    "has_mint_transaction (dep_quote d) (dep_amount d) (dep_invoice d) txs"
    using l402_deposit_received [OF c [unfolded demo_settled_def] p(1)] p(2,3) by auto
  have "parse_credential demo_l402_ln (''m'' @ '':'' @ hex demo_preimage) = Inr (demo_credential, demo_preimage)"
    by (rule minted_parses [OF demo_macaroon_laws demo_build])
      (simp_all add: demo_invoice_def demo_preimage_def demo_random_def demo_l402_ln_def demo_ln_def MAX_PAYMENT_HEADER_def)
  then have "mac = demo_credential" using d(1) by simp
  then have "take 32 (drop 2 (mac_identifier mac)) = demo_preimage"
    by (simp add: demo_credential_def l402_identifier_def demo_invoice_def demo_preimage_def)
  then show ?thesis using d(2-4) by auto
qed

lemma demo_clock: "at_clock t (demo_env 0) = demo_env t" "end_clock t (demo_env d) = t + 3 * d"
  by (simp_all add: at_clock_def end_clock_def demo_env_def delay_def)

definition demo_twice :: "store_op list" where
  "demo_twice = [Settlement (Ln_settle (demo_env 0) demo_x402 (hex demo_preimage) ''pay''), Store_restart,
     Settlement (Ln_settle (demo_env 0) demo_x402 (hex demo_preimage) ''pay'')]"

theorem lightning_settles_once_witness:
  "length (filter (\<lambda>(_, r). r = Granted (settlement_key demo_x402 demo_preimage))
     (zip demo_twice (fst (run_ops (store_step demo_ext demo_ln demo_l402 (\<lambda>_. 0))
        (1310, None, demo_lightning_db\<lparr>ln_open := True\<rparr>, fmempty) demo_twice)))) = 1"
    (is "?n = 1")
proof -
  have V: "(\<Union>opn\<in>set demo_twice. store_invoices demo_ln opn) \<subseteq> {demo_invoice}"
    by (auto simp: demo_twice_def demo_ln_def split: if_splits)
  have I: "(\<Union>opn\<in>set demo_twice. store_identifiers demo_ln opn) = {}" by (simp add: demo_twice_def)
  have "?n \<le> 1"
  proof (rule lightning_settles_once)
    show "roots (ln_db (demo_lightning_db\<lparr>ln_open := True\<rparr>)) = fmempty" by (simp add: demo_lightning_db_def)
    show "inj_on (sha256 demo_ln) (\<Union>opn\<in>set demo_twice. store_identifiers demo_ln opn)" by (simp add: I)
    show "inj_on inv_payment_hash (\<Union>opn\<in>set demo_twice. store_invoices demo_ln opn)" by (rule inj_on_subset [OF _ V]) simp
    show "\<forall>i\<in>(\<Union>opn\<in>set demo_twice. store_invoices demo_ln opn). length (inv_payment_hash i) = 32"
      using V by (auto simp: demo_invoice_def demo_preimage_def)
  qed
  moreover have "0 < ?n" using demo_settle by (auto simp: demo_twice_def Let_def split: prod.splits)
  ultimately show ?thesis by linarith
qed

definition demo_mint :: ln_op where
  "demo_mint = Ln_mint (demo_env 0) demo_x402 ''h'' ''lnbc1'' demo_invoice (Some demo_root) (Some demo_random)"

lemma demo_mint_step:
  "ln_step demo_l402_ln demo_l402 (1310, demo_lightning_db\<lparr>ln_open := True\<rparr>) demo_mint
     = (Not_granted, (1310, demo_paid\<lparr>ln_db := (ln_db demo_paid)\<lparr>quotes := fmempty\<rparr>\<rparr>))"
  using demo_minted by (simp add: demo_mint_def demo_clock demo_paid_def)

theorem challenge_records_bounded_witness:
  "case run_ops (store_step demo_ext demo_l402_ln demo_l402 (\<lambda>_. 0)) (1310, None, demo_lightning_db\<lparr>ln_open := True\<rparr>, fmempty)
     [Settlement demo_mint, Recovery (demo_recovery 0), Store_restart, Settlement demo_mint] of
   (rs, (t', cursor', s', ps')) \<Rightarrow> fmlen (roots (ln_db s')) + fmlen (quotes (ln_db s')) \<le> 10000"
proof -
  obtain rs t' cursor' s' ps' where r: "run_ops (store_step demo_ext demo_l402_ln demo_l402 (\<lambda>_. 0))
      (1310, None, demo_lightning_db\<lparr>ln_open := True\<rparr>, fmempty) [Settlement demo_mint, Recovery (demo_recovery 0), Store_restart, Settlement demo_mint]
      = (rs, (t', cursor', s', ps'))"
    by (metis prod_cases5)
  have "fmlen (roots (ln_db s')) + fmlen (quotes (ln_db s')) \<le> 10000"
    by (rule challenge_records_bounded [OF _ r]) (simp add: demo_lightning_db_def)
  then show ?thesis unfolding r by simp
qed

text \<open>The credential is presented after a restart and a pruning.\<close>

theorem l402_minted_settles_witness:
  "\<exists>rs st. run_ops (store_step demo_ext demo_l402_ln demo_l402 (\<lambda>_. 0)) (1310, None, demo_lightning_db\<lparr>ln_open := True\<rparr>, fmempty)
       [Settlement demo_mint, Store_restart, Settlement (Ln_prune (demo_env 1) True)] = (rs, st)
     \<and> fst (store_step demo_ext demo_l402_ln demo_l402 (\<lambda>_. 0) st
         (Settlement (Ln_settle_l402 (demo_env 10) demo_x402 ''h'' (''m'' @ '':'' @ hex demo_preimage))))
       = Granted (settlement_key demo_x402 demo_preimage)"
proof -
  let ?s1 = "demo_paid\<lparr>ln_db := (ln_db demo_paid)\<lparr>quotes := fmempty\<rparr>\<rparr>"
  let ?step = "store_step demo_ext demo_l402_ln demo_l402 (\<lambda>_. 0)"
  let ?ops = "[Store_restart, Settlement (Ln_prune (demo_env 1) True)]"
  obtain s2 where r: "run_ops ?step (1310, None, ?s1, fmempty) ?ops = ([Not_granted, Not_granted], (1313, None, s2, restart_payments fmempty))"
    by (auto simp: demo_clock)
  have r': "run_ops ?step (end_clock 1310 (demo_env 0), None, ?s1, fmempty) ?ops = ([Not_granted, Not_granted], (1313, None, s2, restart_payments fmempty))"
    using r unfolding demo_clock(2) by simp
  have "spent (ln_db (snd (prune_expired (at_clock 1310 (demo_env 1)) True (ln_restart ?s1)))) = fmempty"
    by (simp add: prune_expired_def ln_database_def ln_restart_def demo_paid_def demo_env_def at_clock_def delay_def write_tx_def open_body_def
        prune_def retain_fm_def ln_write_def blocking_def)
  then have sp: "spent (ln_db s2) = fmempty" using r by simp
  have m: "mint_l402 demo_l402_ln demo_l402 (at_clock 1310 (demo_env 0)) demo_x402 ''h'' ''lnbc1'' demo_invoice (Some demo_root) (Some demo_random)
     (demo_lightning_db\<lparr>ln_open := True\<rparr>) = (Inr (''m'', ''lnbc1''), ?s1)"
    using demo_minted by (simp add: demo_clock demo_paid_def)
  have x: "receiver_mint (lp_receiver demo_x402) = None" by (simp add: demo_x402_def)
  have "fst (?step (1313, None, s2, restart_payments fmempty)
      (Settlement (Ln_settle_l402 (demo_env 10) demo_x402 ''h'' (''m'' @ '':'' @ hex demo_preimage)))) = Granted (settlement_key demo_x402 demo_preimage)"
    by (rule l402_minted_settles [OF demo_macaroon_laws m _ _ _ _ _ _ _ _ _ _ r', where v = 1361])
      (simp_all add: demo_valid_before sp demo_clock x,
       simp_all add: demo_root_def demo_random_def demo_invoice_def demo_preimage_def demo_l402_ln_def demo_ln_def is_ascii_def
         settlement_key_def demo_env_def)
  then show ?thesis using r demo_mint_step by (simp add: demo_clock)
qed

end
