(* ===== verification/Capacity.thy ===== *)
theory Capacity
  imports Rate_Limit "HOL-Library.Multiset"
begin

text \<open>
  Concurrency permits: \<^verbatim>\<open>Capacity\<close> and \<^verbatim>\<open>CapacityPermit\<close> of \<^verbatim>\<open>src/crates/geata/src/config.rs\<close>.
  A capacity holds the number of free slots of its semaphore and a counter per client key.
  The state machine \<open>pool_step\<close> interleaves acquisitions with the two halves of a permit's
  drop: the destructor's body gives the client's counter back, then the field's destructor
  gives the slot back.
\<close>

section \<open>The capacity and its permits\<close>

record capacity =
  cap_max :: nat
  cap_ipv6_prefix :: nat
  per_client :: nat
  permits :: nat
  cap_clients :: "(ip_addr, nat) fmap"

definition capacity_new :: "nat \<Rightarrow> capacity" where
  "capacity_new m = \<lparr>cap_max = m, cap_ipv6_prefix = 64, per_client = max (m div 2) 1,
     permits = m, cap_clients = fmempty\<rparr>"

text \<open>A permit is the client key it was issued for.\<close>

definition try_acquire :: "capacity \<Rightarrow> ip_addr \<Rightarrow> ip_addr option \<times> capacity" where
  "try_acquire c ip =
     (let client = client_key ip (cap_ipv6_prefix c);
          n = (case fmlookup (cap_clients c) client of Some i \<Rightarrow> i | None \<Rightarrow> 0)
      in if per_client c \<le> n then (None, c)
         else if permits c = 0 then (None, c)
         else (Some client,
               c\<lparr>permits := permits c - 1,
                 cap_clients := fmupd client (wrapping_add 32 n 1) (cap_clients c)\<rparr>))"

text \<open>The destructor's body; a missing counter is a \<^verbatim>\<open>debug_assert!\<close> and changes nothing.\<close>

definition permit_drop :: "capacity \<Rightarrow> ip_addr \<Rightarrow> capacity" where
  "permit_drop c client =
     (case fmlookup (cap_clients c) client of
        Some n \<Rightarrow>
          (let n' = wrapping_sub 32 n 1
           in if n' = 0 then c\<lparr>cap_clients := fmdrop client (cap_clients c)\<rparr>
              else c\<lparr>cap_clients := fmupd client n' (cap_clients c)\<rparr>)
      | None \<Rightarrow> c)"

text \<open>The destructor of the field \<^verbatim>\<open>_permit\<close> returns the slot to the semaphore.\<close>

definition permit_release :: "capacity \<Rightarrow> capacity" where
  "permit_release c = c\<lparr>permits := permits c + 1\<rparr>"

section \<open>The pool of permits in use\<close>

record pool =
  pool_cap :: capacity
  held :: "ip_addr multiset"
  releasing :: nat

inductive pool_step :: "pool \<Rightarrow> pool \<Rightarrow> bool" where
  acquire: "try_acquire (pool_cap p) ip = (Some k, c') \<Longrightarrow>
    pool_step p (p\<lparr>pool_cap := c', held := add_mset k (held p)\<rparr>)"
| refuse: "try_acquire (pool_cap p) ip = (None, c') \<Longrightarrow> pool_step p (p\<lparr>pool_cap := c'\<rparr>)"
| drop_counter: "k \<in># held p \<Longrightarrow>
    pool_step p (p\<lparr>pool_cap := permit_drop (pool_cap p) k, held := held p - {#k#},
      releasing := releasing p + 1\<rparr>)"
| drop_permit: "0 < releasing p \<Longrightarrow>
    pool_step p (p\<lparr>pool_cap := permit_release (pool_cap p), releasing := releasing p - 1\<rparr>)"

inductive_cases pool_stepE: "pool_step p q"

definition pool_init :: "capacity \<Rightarrow> pool" where
  "pool_init c = \<lparr>pool_cap = c, held = {#}, releasing = 0\<rparr>"

definition fresh_capacity :: "capacity \<Rightarrow> bool" where
  "fresh_capacity c \<longleftrightarrow> permits c = cap_max c \<and> cap_clients c = fmempty \<and>
     0 < per_client c \<and> per_client c < 2 ^ 32"

text \<open>The slots in use, being returned and free add up to the maximum, and the counters count
  exactly the permits in use.\<close>

definition pool_inv :: "capacity \<Rightarrow> pool \<Rightarrow> bool" where
  "pool_inv c0 p \<longleftrightarrow>
     cap_max (pool_cap p) = cap_max c0 \<and> cap_ipv6_prefix (pool_cap p) = cap_ipv6_prefix c0 \<and>
     per_client (pool_cap p) = per_client c0 \<and>
     permits (pool_cap p) + size (held p) + releasing p = cap_max c0 \<and>
     (\<forall>k. fmlookup (cap_clients (pool_cap p)) k =
        (if count (held p) k = 0 then None else Some (count (held p) k))) \<and>
     (\<forall>k. count (held p) k \<le> per_client c0) \<and> per_client c0 < 2 ^ 32"

lemma pool_inv_count:
  assumes "pool_inv c0 p"
  shows "(case fmlookup (cap_clients (pool_cap p)) k of Some n \<Rightarrow> n | None \<Rightarrow> 0) = count (held p) k"
  using assms by (simp add: pool_inv_def)

lemma try_acquire_eq:
  assumes "pool_inv c0 p"
  shows "try_acquire (pool_cap p) ip =
    (let k = client_key ip (cap_ipv6_prefix c0); n = count (held p) k in
     if n < per_client c0 \<and> 0 < permits (pool_cap p)
     then (Some k, (pool_cap p)\<lparr>permits := permits (pool_cap p) - 1,
                     cap_clients := fmupd k (Suc n) (cap_clients (pool_cap p))\<rparr>)
     else (None, pool_cap p))"
proof -
  have "cap_ipv6_prefix (pool_cap p) = cap_ipv6_prefix c0" "per_client (pool_cap p) = per_client c0"
    "per_client c0 < 2 ^ 32"
    using assms by (auto simp: pool_inv_def)
  then show ?thesis
    by (auto simp: try_acquire_def Let_def pool_inv_count [OF assms] wrapping_add_def)
qed

lemma permit_drop_eq:
  assumes "pool_inv c0 p" "k \<in># held p"
  shows "permit_drop (pool_cap p) k =
    (let n = count (held p) k - 1 in
     (pool_cap p)\<lparr>cap_clients := (if n = 0 then fmdrop k (cap_clients (pool_cap p))
                                   else fmupd k n (cap_clients (pool_cap p)))\<rparr>)"
proof -
  have "count (held p) k < 2 ^ 32" "0 < count (held p) k"
    using assms by (auto simp: pool_inv_def intro: le_less_trans)
  then have "wrapping_sub 32 (count (held p) k) 1 = count (held p) k - 1"
    by (simp add: wrapping_sub_def mod_if)
  moreover have "fmlookup (cap_clients (pool_cap p)) k = Some (count (held p) k)"
    using assms by (simp add: pool_inv_def)
  ultimately show ?thesis by (simp add: permit_drop_def Let_def)
qed

lemma pool_step_inv:
  assumes "pool_step p q" "pool_inv c0 p"
  shows "pool_inv c0 q"
  using assms(1)
proof cases
  case (acquire ip k c')
  then show ?thesis
    using assms(2) unfolding try_acquire_eq [OF assms(2)] Let_def
    by (auto simp: pool_inv_def count_eq_zero_iff split: if_splits)
next
  case (refuse ip c')
  then have "q = p"
    unfolding try_acquire_eq [OF assms(2)] Let_def by (auto split: if_splits)
  then show ?thesis using assms(2) by simp
next
  case (drop_counter k)
  let ?c = "permit_drop (pool_cap p) k"
  note eq = permit_drop_eq [OF assms(2) drop_counter(2), unfolded Let_def]
  have look: "fmlookup (cap_clients ?c) j =
      (if count (held p - {#k#}) j = 0 then None else Some (count (held p - {#k#}) j))" for j
    using assms(2) by (cases "j = k") (simp_all add: eq pool_inv_def count_eq_zero_iff)
  have share: "count (held p - {#k#}) j \<le> per_client c0" for j
    using assms(2) by (simp add: pool_inv_def le_diff_conv) (metis le_SucI)
  have fields: "cap_max ?c = cap_max (pool_cap p)" "permits ?c = permits (pool_cap p)"
    "cap_ipv6_prefix ?c = cap_ipv6_prefix (pool_cap p)" "per_client ?c = per_client (pool_cap p)"
    by (simp_all add: eq)
  have "0 < size (held p)" using drop_counter(2) by (metis empty_iff nonempty_has_size set_mset_empty)
  then have "size (held p - {#k#}) + 1 = size (held p)"
    using drop_counter(2) by (simp add: size_Diff_singleton)
  with look share fields assms(2) show ?thesis by (simp add: pool_inv_def drop_counter(1))
next
  case drop_permit
  then show ?thesis using assms(2) by (auto simp: pool_inv_def permit_release_def count_eq_zero_iff)
qed

interpretation pool: step_invariant pool_step "pool_inv c0" for c0
  by unfold_locales (rule pool_step_inv)

lemma pool_init_inv: "fresh_capacity c \<Longrightarrow> pool_inv c (pool_init c)"
  by (simp add: fresh_capacity_def pool_inv_def pool_init_def)

lemma pool_reach_inv: "\<lbrakk>fresh_capacity c; pool_step\<^sup>*\<^sup>* (pool_init c) p\<rbrakk> \<Longrightarrow> pool_inv c p"
  using pool.reach_inv pool_init_inv by blast

lemma capacity_new_fresh: "m < 2 ^ 32 \<Longrightarrow> fresh_capacity (capacity_new m)"
  by (auto simp: fresh_capacity_def capacity_new_def)

lemma pool_drained:
  assumes "fresh_capacity c" "pool_inv c p" "held p = {#}" "releasing p = 0"
  shows "pool_cap p = c"
proof (rule capacity.equality)
  show "cap_clients (pool_cap p) = cap_clients c"
    using assms by (auto simp: pool_inv_def fresh_capacity_def intro: fmap_ext)
qed (use assms in \<open>auto simp: pool_inv_def fresh_capacity_def\<close>)

section \<open>Properties\<close>

text \<open>
  Admission never exceeds the capacity. In every state reachable by acquiring and dropping
  permits in any interleaving, the permits in use and those half dropped are at most the
  maximum, no client key holds more than its share, the counter that the next drop of a permit
  decrements is present and positive, and once every permit is dropped the capacity is back in
  its initial state: no slot and no counter leaks.
\<close>

lemma capacity_bounded:
  assumes "fresh_capacity c" "pool_step\<^sup>*\<^sup>* (pool_init c) p"
  shows "size (held p) + releasing p \<le> cap_max c \<and> (\<forall>k. count (held p) k \<le> per_client c) \<and>
    (\<forall>k \<in># held p. fmlookup (cap_clients (pool_cap p)) k = Some (count (held p) k)) \<and>
    (held p = {#} \<and> releasing p = 0 \<longrightarrow> pool_cap p = c)"
proof -
  have inv: "pool_inv c p" using assms by (rule pool_reach_inv)
  then have "pool_cap p = c" if "held p = {#}" "releasing p = 0" using pool_drained assms(1) that by blast
  then show ?thesis using inv by (auto simp: pool_inv_def)
qed

text \<open>
  A request is refused only for a reason. In every reachable state a client gets a permit
  exactly when its key holds fewer than its share and a slot is free, so a refusal never
  happens below both limits.
\<close>

lemma capacity_acquire_iff:
  assumes "fresh_capacity c" "pool_step\<^sup>*\<^sup>* (pool_init c) p"
  shows "fst (try_acquire (pool_cap p) ip) \<noteq> None \<longleftrightarrow>
    count (held p) (client_key ip (cap_ipv6_prefix c)) < per_client c \<and>
    size (held p) + releasing p < cap_max c"
proof -
  have inv: "pool_inv c p" using assms by (rule pool_reach_inv)
  then have "0 < permits (pool_cap p) \<longleftrightarrow> size (held p) + releasing p < cap_max c"
    by (auto simp: pool_inv_def)
  then show ?thesis by (simp add: try_acquire_eq [OF inv] Let_def)
qed

text \<open>
  One client cannot occupy a site. With a maximum above one, while all permits in use
  belong to one client key, a client with another key is admitted.
\<close>

lemma capacity_reserves_half:
  assumes "1 < m" "m < 2 ^ 32" "pool_step\<^sup>*\<^sup>* (pool_init (capacity_new m)) p"
    and "set_mset (held p) \<subseteq> {k}" "releasing p = 0" "client_key ip 64 \<noteq> k"
  shows "fst (try_acquire (pool_cap p) ip) = Some (client_key ip 64)"
proof -
  have fresh: "fresh_capacity (capacity_new m)" using assms(2) by (rule capacity_new_fresh)
  have inv: "pool_inv (capacity_new m) p" using fresh assms(3) by (rule pool_reach_inv)
  have none: "count (held p) (client_key ip 64) = 0"
    using assms(4,6) by (auto simp: count_eq_zero_iff)
  have "held p = replicate_mset (size (held p)) k"
    using assms(4) by (rule set_mset_subset_singletonD)
  then have "size (held p) = count (held p) k" by (metis count_replicate_mset)
  also have "\<dots> \<le> max (m div 2) 1" using inv by (auto simp: pool_inv_def capacity_new_def)
  also have "\<dots> < m" using assms(1) by auto
  finally have "0 < permits (pool_cap p)"
    using inv assms(5) by (auto simp: pool_inv_def capacity_new_def)
  then show ?thesis
    using none by (simp add: try_acquire_eq [OF inv] Let_def capacity_new_def)
qed

section \<open>Witnesses\<close>

text \<open>A site that allows two requests in flight, one of them in use.\<close>

definition demo_capacity :: capacity where
  "demo_capacity = capacity_new 2"

definition demo_pool :: pool where
  "demo_pool = \<lparr>pool_cap = snd (try_acquire demo_capacity (V4 1)), held = {#V4 1#}, releasing = 0\<rparr>"

lemmas capacity_eval = demo_pool_def demo_capacity_def try_acquire_def capacity_new_def Let_def
  client_key_def to_canonical_def wrapping_add_def pool_init_def

lemma demo_capacity_fresh: "fresh_capacity demo_capacity"
  by (simp add: demo_capacity_def capacity_new_fresh)

lemma demo_pool_reachable: "pool_step\<^sup>*\<^sup>* (pool_init demo_capacity) demo_pool"
proof -
  have "pool_step (pool_init demo_capacity)
      ((pool_init demo_capacity)\<lparr>pool_cap := snd (try_acquire demo_capacity (V4 1)),
        held := add_mset (V4 1) (held (pool_init demo_capacity))\<rparr>)"
    by (rule pool_step.acquire [of _ "V4 1"]) (simp add: capacity_eval)
  then show ?thesis by (simp add: demo_pool_def pool_init_def r_into_rtranclp)
qed

end
