(* ===== verification/Config.thy ===== *)
theory Config
  imports Payment_Policies Capacity
begin

text \<open>
  \<^verbatim>\<open>Config::parse\<close> of \<^verbatim>\<open>config.rs\<close>: the blocks of a Geatafile, the directives of a site, and the
  sites with their limiters and capacities. A site's directives are parsed by a loop over its
  tokens, one directive a step; \<open>directives\<close> is the loop's state, one field per local variable of
  \<^verbatim>\<open>parse_directives\<close>. The hash seed and the clock of each limiter a site creates are parameters.
  \<^verbatim>\<open>RateLimiter::with_prefix\<close> asserts its prefix, so building a site can panic: \<open>None\<close> below, and
  \<open>config_parse_total\<close> shows that parsing never does.
\<close>

section \<open>Records\<close>

record request_controls =
  max_body_bytes :: "nat option"
  request_timeout :: "nat option"
  ipv6_prefix :: nat
  payment_limit :: limit

definition controls_default :: request_controls where
  "controls_default = \<lparr>max_body_bytes = Some (10 * 1024 * 1024), request_timeout = Some 60, ipv6_prefix = 64,
     payment_limit = \<lparr>per_second = 2, burst = 8\<rparr>\<rparr>"

record site =
  site_domain :: string
  site_https :: bool
  site_handler :: handler
  site_rate_limit :: "rate_limiter option"
  site_payment :: "payment_policy option"
  site_lightning :: "lightning_policy option"
  site_capacity :: "capacity option"
  site_controls :: request_controls
  payment_verification :: rate_limiter

record config =
  cfg_sites :: "(string, site) fmap"
  cfg_payouts :: "payout_policy list"

definition https_domains :: "config \<Rightarrow> string fset" where
  "https_domains c = site_domain |`| ffilter site_https (fmran (cfg_sites c))"

record directives =
  d_handler :: "handler option"
  d_rate_limit :: "limit option"
  d_payment :: "payment_policy option"
  d_lightning :: "(string \<times> string \<times> string \<times> nat) option"
  d_headers :: "string list option"
  d_origin :: "string option"
  d_protocols :: "protocols option"
  d_max_inflight :: "nat option"
  d_controls :: request_controls
  d_seen :: "string set"

definition directives_init :: directives where
  "directives_init = \<lparr>d_handler = None, d_rate_limit = None, d_payment = None, d_lightning = None,
     d_headers = None, d_origin = None, d_protocols = None, d_max_inflight = None,
     d_controls = controls_default, d_seen = {}\<rparr>"

section \<open>The extent of a directive\<close>

definition site_directives :: "string list" where
  "site_directives = [''reverse_proxy'', ''respond'', ''rate_limit'', ''pay'', ''lightning_pay'', ''lightning_headers'',
     ''lightning_protocols'', ''lightning_origin'', ''max_body_bytes'', ''request_timeout'', ''ipv6_prefix'',
     ''payment_verify_limit'', ''max_inflight'']"

definition site_directive :: "string option \<Rightarrow> bool" where
  "site_directive value = (case value of Some v \<Rightarrow> v \<in> set site_directives | None \<Rightarrow> False)"

definition continues :: "token \<Rightarrow> bool" where
  "continues t \<longleftrightarrow> tok_quoted t \<or> \<not> site_directive (tok_text t)"

definition text_of :: "token \<Rightarrow> string" where
  "text_of t = (case tok_text t of Some s \<Rightarrow> s | None \<Rightarrow> [])"

definition texts :: "token list \<Rightarrow> string list" where
  "texts ts = List.map_filter tok_text ts"

definition directive_count :: "token list \<Rightarrow> nat" where
  "directive_count tokens =
     (let name = tok_text (hd tokens)
      in if name = Some ''reverse_proxy'' then 2
         else if name \<in> Some ` {''rate_limit'', ''payment_verify_limit'', ''pay'', ''lightning_pay''} then 4
         else if name \<in> Some ` {''max_inflight'', ''max_body_bytes'', ''request_timeout'', ''ipv6_prefix'', ''lightning_origin''} then 2
         else if name \<in> Some ` {''lightning_headers'', ''lightning_protocols''} then
           1 + length (takeWhile continues (tl tokens))
         else if name = Some ''respond'' then
           2 + (if 2 < length tokens \<and> continues (tokens ! 2) then 1 else 0)
         else 1)"

section \<open>One directive\<close>

text \<open>Each function below is an arm of the \<^verbatim>\<open>match args[0].text()\<close> of \<^verbatim>\<open>parse_directives\<close>.\<close>

definition lift_policy :: "nat \<Rightarrow> config_message \<Rightarrow> policy_error + 'a \<Rightarrow> config_error + 'a" where
  "lift_policy line m r = (case r of Inl _ \<Rightarrow> config_fail line m | Inr a \<Rightarrow> Inr a)"

definition dir_lightning_pay :: "token list \<Rightarrow> nat \<Rightarrow> directives \<Rightarrow> config_error + directives" where
  "dir_lightning_pay args line d =
     (if d_lightning d \<noteq> None then config_fail line (Duplicate_directive ''lightning_pay'')
      else if length args \<noteq> 4 then config_fail line (Bad_arguments ''lightning_pay'')
      else Inr (d\<lparr>d_lightning := Some (text_of (args ! 1), text_of (args ! 2), text_of (args ! 3), line)\<rparr>))"

definition dir_lightning_protocols :: "token list \<Rightarrow> nat \<Rightarrow> directives \<Rightarrow> config_error + directives" where
  "dir_lightning_protocols args line d =
     (if d_protocols d \<noteq> None then config_fail line (Duplicate_directive ''lightning_protocols'')
      else bind_result (lift_policy line Bad_protocols (protocols_parse (texts (tl args))))
        (\<lambda>p. Inr (d\<lparr>d_protocols := Some p\<rparr>)))"

definition dir_lightning_headers :: "token list \<Rightarrow> nat \<Rightarrow> directives \<Rightarrow> config_error + directives" where
  "dir_lightning_headers args line d =
     (if d_headers d \<noteq> None then config_fail line (Duplicate_directive ''lightning_headers'')
      else if length args < 2 then config_fail line (Bad_arguments ''lightning_headers'')
      else if length args \<noteq> 2 \<and> list_ex (\<lambda>t. tok_text t = Some ''none'') (tl args) then
        config_fail line (Bad_arguments ''lightning_headers none'')
      else
        let headers = (if length args = 2 \<and> tok_text (args ! 1) = Some ''none'' then [] else texts (tl args))
        in Inr (d\<lparr>d_headers := Some headers\<rparr>))"

definition dir_lightning_origin :: "token list \<Rightarrow> nat \<Rightarrow> directives \<Rightarrow> config_error + directives" where
  "dir_lightning_origin args line d =
     (if d_origin d \<noteq> None then config_fail line (Duplicate_directive ''lightning_origin'')
      else if length args \<noteq> 2 then config_fail line (Bad_arguments ''lightning_origin'')
      else Inr (d\<lparr>d_origin := Some (text_of (args ! 1))\<rparr>))"

definition dir_pay :: "externals \<Rightarrow> token list \<Rightarrow> nat \<Rightarrow> directives \<Rightarrow> config_error + directives" where
  "dir_pay x args line d =
     (if d_payment d \<noteq> None then config_fail line (Duplicate_directive ''pay'')
      else if length args \<noteq> 4 then config_fail line (Bad_arguments ''pay'')
      else bind_result (lift_policy line Bad_payment
             (payment_policy_parse x (text_of (args ! 1)) (text_of (args ! 2)) (text_of (args ! 3))))
        (\<lambda>p. Inr (d\<lparr>d_payment := Some p\<rparr>)))"

definition arg_text :: "token list \<Rightarrow> nat \<Rightarrow> string option" where
  "arg_text args i = (if i < length args then tok_text (args ! i) else None)"

definition dir_max_inflight :: "token list \<Rightarrow> nat \<Rightarrow> directives \<Rightarrow> config_error + directives" where
  "dir_max_inflight args line d =
     (if d_max_inflight d \<noteq> None then config_fail line (Duplicate_directive ''max_inflight'')
      else
        let n = filter_option (\<lambda>m. m \<le> 1000000)
              (Option.bind (arg_text args 1) (\<lambda>t. if t = ''off'' then Some 0 else filter_option (\<lambda>n. 0 < n) (parse_uint 32 t)))
        in if n = None then config_fail line (Bad_arguments ''max_inflight'') else Inr (d\<lparr>d_max_inflight := n\<rparr>))"

definition control_value :: "string \<Rightarrow> nat option option" where
  "control_value v =
     (if v = ''off'' then Some None
      else map_option Some (filter_option (\<lambda>n. 0 < n \<and> n \<le> 2 ^ 32 - 1) (parse_uint 64 v)))"

definition dir_control :: "string \<Rightarrow> token list \<Rightarrow> nat \<Rightarrow> directives \<Rightarrow> config_error + directives" where
  "dir_control name args line d0 =
     (if name \<in> d_seen d0 then config_fail line (Duplicate_directive name)
      else
        let d = d0\<lparr>d_seen := insert name (d_seen d0)\<rparr>;
            c = d_controls d;
            bad = config_fail line (Bad_arguments name)
        in case arg_text args 1 of
             None \<Rightarrow> bad
           | Some v \<Rightarrow>
               if name = ''ipv6_prefix'' then
                 (case filter_option (\<lambda>n. n \<le> 128) (parse_uint 8 v) of
                    None \<Rightarrow> bad
                  | Some n \<Rightarrow> Inr (d\<lparr>d_controls := c\<lparr>ipv6_prefix := n\<rparr>\<rparr>))
               else
                 (case control_value v of
                    None \<Rightarrow> bad
                  | Some n \<Rightarrow>
                      if name = ''max_body_bytes'' then Inr (d\<lparr>d_controls := c\<lparr>max_body_bytes := n\<rparr>\<rparr>)
                      else Inr (d\<lparr>d_controls := c\<lparr>request_timeout := n\<rparr>\<rparr>)))"

definition positive :: "string \<Rightarrow> nat option" where
  "positive t = filter_option (\<lambda>n. 0 < n \<and> list_all is_ascii_digit t) (parse_uint 32 t)"

definition dir_limit :: "string \<Rightarrow> token list \<Rightarrow> nat \<Rightarrow> directives \<Rightarrow> config_error + directives" where
  "dir_limit name args line d0 =
     (if name \<in> d_seen d0 then config_fail line (Duplicate_directive name)
      else
        let d = d0\<lparr>d_seen := insert name (d_seen d0)\<rparr>;
            bad = config_fail line (Bad_arguments name)
        in if length args \<noteq> 4 \<or> tok_text (args ! 2) \<noteq> Some ''burst'' then bad
           else (case Option.bind (Option.bind (tok_text (args ! 1)) (strip_suffix ''/s'')) positive of
                   None \<Rightarrow> bad
                 | Some p \<Rightarrow>
                     (case Option.bind (tok_text (args ! 3)) positive of
                        None \<Rightarrow> bad
                      | Some b \<Rightarrow>
                          let l = \<lparr>per_second = p, burst = b\<rparr>
                          in if name = ''rate_limit'' then Inr (d\<lparr>d_rate_limit := Some l\<rparr>)
                             else Inr (d\<lparr>d_controls := (d_controls d)\<lparr>payment_limit := l\<rparr>\<rparr>))))"

definition dir_handler :: "externals \<Rightarrow> string \<Rightarrow> token list \<Rightarrow> nat \<Rightarrow> directives \<Rightarrow> config_error + directives" where
  "dir_handler x name args line d =
     (if d_handler d \<noteq> None then config_fail line Missing_handler
      else bind_result
        (if name = ''reverse_proxy'' \<and> length args = 2 then
           (case parse_upstream (url_parse x) (text_of (args ! 1)) of
              Inl m \<Rightarrow> config_fail line m
            | Inr u \<Rightarrow> Inr (Proxy u))
         else if name = ''respond'' then parse_response (tl args) line
         else config_fail line (Bad_arguments ''reverse_proxy''))
        (\<lambda>h. Inr (d\<lparr>d_handler := Some h\<rparr>)))"

definition apply_directive :: "externals \<Rightarrow> token list \<Rightarrow> nat \<Rightarrow> directives \<Rightarrow> config_error + directives" where
  "apply_directive x args line d =
     (case tok_text (args ! 0) of
        None \<Rightarrow> config_fail line Unknown_directive
      | Some name \<Rightarrow>
          if name = ''lightning_pay'' then dir_lightning_pay args line d
          else if name = ''lightning_protocols'' then dir_lightning_protocols args line d
          else if name = ''lightning_headers'' then dir_lightning_headers args line d
          else if name = ''lightning_origin'' then dir_lightning_origin args line d
          else if name = ''pay'' then dir_pay x args line d
          else if name = ''max_inflight'' then dir_max_inflight args line d
          else if name \<in> {''max_body_bytes'', ''request_timeout'', ''ipv6_prefix''} then dir_control name args line d
          else if name \<in> {''rate_limit'', ''payment_verify_limit''} then dir_limit name args line d
          else if name \<in> {''reverse_proxy'', ''respond''} then dir_handler x name args line d
          else config_fail line Unknown_directive)"

section \<open>The directives of a site\<close>

lemma directive_count_pos: "0 < directive_count tokens"
  by (simp add: directive_count_def Let_def)

function directives_loop :: "externals \<Rightarrow> token list \<Rightarrow> directives \<Rightarrow> config_error + directives" where
  "directives_loop x tokens d =
     (if tokens = [] then Inr d
      else
        let n = min (directive_count tokens) (length tokens)
        in bind_result (apply_directive x (take n tokens) (tok_line (hd tokens)) d)
             (\<lambda>d'. directives_loop x (drop n tokens) d'))"
  by pat_completeness auto
termination
  by (relation "measure (\<lambda>(_, tokens, _). length tokens)") (auto simp: directive_count_pos)

declare directives_loop.simps [simp del]

record parsed_directives =
  pd_handler :: handler
  pd_rate_limit :: "limit option"
  pd_payment :: "payment_policy option"
  pd_lightning :: "lightning_policy option"
  pd_max_inflight :: "nat option"
  pd_controls :: request_controls

definition finish_lightning ::
  "externals \<Rightarrow> nat \<Rightarrow> (string, receiver_config) fmap \<Rightarrow> string \<Rightarrow> bool \<Rightarrow> directives \<Rightarrow> config_error + lightning_policy option" where
  "finish_lightning x line receivers domain https d =
     (case d_lightning d of
        Some (price, unit, name, directive_line) \<Rightarrow>
          (case fmlookup receivers name of
             None \<Rightarrow> config_fail directive_line Unknown_receiver
           | Some receiver \<Rightarrow>
               (case d_headers d of
                  None \<Rightarrow> config_fail directive_line Missing_lightning_headers
                | Some headers \<Rightarrow>
                    let origin = (case d_origin d of Some origin \<Rightarrow> origin
                          | None \<Rightarrow> (if https then ''https'' else ''http'') @ ''://'' @ domain);
                        protocols = (case d_protocols d of Some p \<Rightarrow> p | None \<Rightarrow> protocols_default)
                    in map_sum id Some (lift_policy directive_line Bad_lightning_policy
                         (lightning_policy_new x price unit receiver origin headers protocols))))
      | None \<Rightarrow>
          if d_headers d \<noteq> None \<or> d_origin d \<noteq> None \<or> d_protocols d \<noteq> None then config_fail line Stray_lightning
          else Inr None)"

definition parse_directives ::
  "externals \<Rightarrow> token list \<Rightarrow> nat \<Rightarrow> (string, receiver_config) fmap \<Rightarrow> string \<Rightarrow> bool \<Rightarrow> config_error + parsed_directives" where
  "parse_directives x tokens line receivers domain https =
     bind_result (directives_loop x tokens directives_init) (\<lambda>d.
       case d_handler d of
         None \<Rightarrow> config_fail line Missing_handler
       | Some handler \<Rightarrow>
           bind_result (finish_lightning x line receivers domain https d) (\<lambda>lightning.
             Inr \<lparr>pd_handler = handler, pd_rate_limit = d_rate_limit d, pd_payment = d_payment d,
               pd_lightning = lightning, pd_max_inflight = d_max_inflight d, pd_controls = d_controls d\<rparr>))"

section \<open>The blocks of a file\<close>

type_synonym block = "string \<times> token list \<times> nat"

definition is_text :: "token \<Rightarrow> bool" where
  "is_text t \<longleftrightarrow> (case tok_kind t of Text _ \<Rightarrow> True | _ \<Rightarrow> False)"

definition receiver_name_ok :: "string \<Rightarrow> bool" where
  "receiver_name_ok name \<longleftrightarrow> name \<noteq> [] \<and>
     list_all (\<lambda>b. is_ascii_alphanumeric b \<or> b = CHR ''_'' \<or> b = CHR ''-'') name"

text \<open>The head of a block: its address, the receiver's name for a \<^verbatim>\<open>lightning\<close> block, the body and the
  tokens behind the closing brace.\<close>

definition read_block :: "token list \<Rightarrow> config_error + (string \<times> string option \<times> token list \<times> token list)" where
  "read_block tokens =
     (let line = tok_line (hd tokens)
      in case tok_text (hd tokens) of
           None \<Rightarrow> config_fail line Expected_block
         | Some address \<Rightarrow>
             bind_result
               (if address = ''lightning'' then
                  (case arg_text (tl tokens) 0 of
                     None \<Rightarrow> config_fail line Expected_receiver_block
                   | Some name \<Rightarrow>
                       if receiver_name_ok name then Inr (Some name, tl (tl tokens))
                       else config_fail line Bad_receiver_name)
                else Inr (None, tl tokens)) (\<lambda>(name, ts).
             if ts = [] \<or> tok_kind (hd ts) \<noteq> Open then config_fail line Expected_open
             else
               let body = takeWhile is_text (tl ts);
                   rest = dropWhile is_text (tl ts)
               in if rest = [] \<or> tok_kind (hd rest) \<noteq> Close then config_fail line Expected_close
                  else Inr (address, name, body, tl rest)))"

lemma read_block_shorter: "read_block tokens = Inr (a, n, b, rest) \<Longrightarrow> tokens \<noteq> [] \<Longrightarrow> length rest < length tokens"
proof -
  assume r: "read_block tokens = Inr (a, n, b, rest)" and ne: "tokens \<noteq> []"
  obtain ts where ts: "ts = tl tokens \<or> ts = tl (tl tokens)" "rest = tl (dropWhile is_text (tl ts))"
    using r by (auto simp: read_block_def Let_def config_fail_def split: option.splits if_splits prod.splits)
  have "length (dropWhile is_text (tl ts)) \<le> length (tl ts)" by (rule length_dropWhile_le)
  moreover have "length ts < length tokens" using ts(1) ne by (cases tokens) auto
  ultimately show ?thesis using ts(2) by simp
qed

function read_blocks :: "externals \<Rightarrow> token list \<Rightarrow> (string, receiver_config) fmap \<Rightarrow> block list \<Rightarrow>
    config_error + ((string, receiver_config) fmap \<times> block list)" where
  "read_blocks x tokens receivers blocks =
     (if tokens = [] then Inr (receivers, blocks)
      else
        let line = tok_line (hd tokens)
        in case read_block tokens of
             Inl e \<Rightarrow> Inl e
           | Inr (address, Some name, body, rest) \<Rightarrow>
               (case lift_policy line Bad_receiver (receiver_parse x (texts body)) of
                  Inl e \<Rightarrow> Inl e
                | Inr receiver \<Rightarrow>
                    if fmlookup receivers name \<noteq> None then config_fail line Duplicate_receiver
                    else read_blocks x rest (fmupd name receiver receivers) blocks)
           | Inr (address, None, body, rest) \<Rightarrow> read_blocks x rest receivers (blocks @ [(address, body, line)]))"
  by pat_completeness auto
termination
  by (relation "measure (\<lambda>(_, tokens, _). length tokens)") (auto dest: read_block_shorter)

declare read_blocks.simps [simp del]

section \<open>Sites and payouts\<close>

record limiter_env =
  le_hash :: "string \<Rightarrow> bool \<Rightarrow> ip_addr \<Rightarrow> nat"
  le_now :: "string \<Rightarrow> bool \<Rightarrow> nat \<Rightarrow> nat"

definition site_capacity_new :: "request_controls \<Rightarrow> nat option \<Rightarrow> capacity option" where
  "site_capacity_new controls max_inflight =
     map_option (\<lambda>m. (capacity_new m)\<lparr>cap_ipv6_prefix := ipv6_prefix controls\<rparr>)
       (filter_option (\<lambda>m. m \<noteq> 0) (Some (case max_inflight of Some m \<Rightarrow> m | None \<Rightarrow> 128)))"

definition build_site :: "limiter_env \<Rightarrow> string \<Rightarrow> bool \<Rightarrow> parsed_directives \<Rightarrow> site option" where
  "build_site env domain https p =
     (let controls = pd_controls p;
          limiter = (\<lambda>which l. with_prefix l (ipv6_prefix controls) (le_hash env domain which) (le_now env domain which))
      in case (case pd_rate_limit p of None \<Rightarrow> Some None | Some l \<Rightarrow> map_option Some (limiter True l)) of
           None \<Rightarrow> None
         | Some rate \<Rightarrow>
             (case limiter False (payment_limit controls) of
                None \<Rightarrow> None
              | Some verification \<Rightarrow>
                  Some \<lparr>site_domain = domain, site_https = https, site_handler = pd_handler p,
                    site_rate_limit = rate, site_payment = pd_payment p, site_lightning = pd_lightning p,
                    site_capacity = site_capacity_new controls (pd_max_inflight p),
                    site_controls = controls, payment_verification = verification\<rparr>))"

definition block_domain :: "string \<Rightarrow> string" where
  "block_domain address =
     to_ascii_lowercase (case strip_prefix ''http://'' address of
        Some d \<Rightarrow> d
      | None \<Rightarrow> (case strip_prefix ''https://'' address of Some d \<Rightarrow> d | None \<Rightarrow> address))"

definition add_payout :: "externals \<Rightarrow> token list \<Rightarrow> nat \<Rightarrow> config \<Rightarrow> config_error + config" where
  "add_payout x body line c =
     bind_result (lift_policy line Bad_payout (payout_policy_parse x (texts body))) (\<lambda>payout.
       if list_ex (\<lambda>p. po_mint p = po_mint payout) (cfg_payouts c) then config_fail line Duplicate_payout_mint
       else if 16 \<le> length (cfg_payouts c) then config_fail line Too_many_payouts
       else Inr (c\<lparr>cfg_payouts := cfg_payouts c @ [payout]\<rparr>))"

text \<open>A site block; \<open>None\<close> is the panic of a limiter's constructor.\<close>

definition add_site ::
  "externals \<Rightarrow> limiter_env \<Rightarrow> (string, receiver_config) fmap \<Rightarrow> string \<Rightarrow> token list \<Rightarrow> nat \<Rightarrow> config \<Rightarrow> (config_error + config) option" where
  "add_site x env receivers address body line c =
     (let https = (\<not> prefix ''http://'' address);
          domain = block_domain address
      in if \<not> valid_domain domain https then Some (config_fail line Bad_site_address)
         else case parse_directives x body line receivers domain https of
                Inl e \<Rightarrow> Some (Inl e)
              | Inr p \<Rightarrow>
                  (case (case pd_lightning p of None \<Rightarrow> Inr ()
                         | Some policy \<Rightarrow> lift_policy line Bad_lightning_origin (check_site x policy domain https)) of
                     Inl e \<Rightarrow> Some (Inl e)
                   | Inr _ \<Rightarrow>
                       (case build_site env domain https p of
                          None \<Rightarrow> None
                        | Some site \<Rightarrow>
                            if fmlookup (cfg_sites c) domain \<noteq> None then Some (config_fail line Duplicate_site)
                            else Some (Inr (c\<lparr>cfg_sites := fmupd domain site (cfg_sites c)\<rparr>)))))"

fun add_blocks ::
  "externals \<Rightarrow> limiter_env \<Rightarrow> (string, receiver_config) fmap \<Rightarrow> block list \<Rightarrow> config \<Rightarrow> (config_error + config) option" where
  "add_blocks x env receivers [] c = Some (Inr c)"
| "add_blocks x env receivers ((address, body, line) # blocks) c =
     (case (if address = ''cashu_payout'' then Some (add_payout x body line c)
            else add_site x env receivers address body line c) of
        None \<Rightarrow> None
      | Some (Inl e) \<Rightarrow> Some (Inl e)
      | Some (Inr c') \<Rightarrow> add_blocks x env receivers blocks c')"

definition config_parse :: "externals \<Rightarrow> limiter_env \<Rightarrow> string \<Rightarrow> (config_error + config) option" where
  "config_parse x env input =
     (if 1024 * 1024 < length input then Some (config_fail 1 Too_large)
      else case tokenize (json_string x) input of
             Inl e \<Rightarrow> Some (Inl e)
           | Inr tokens \<Rightarrow>
               (case read_blocks x tokens fmempty [] of
                  Inl e \<Rightarrow> Some (Inl e)
                | Inr (receivers, blocks) \<Rightarrow>
                    (case add_blocks x env receivers blocks \<lparr>cfg_sites = fmempty, cfg_payouts = []\<rparr> of
                       None \<Rightarrow> None
                     | Some (Inl e) \<Rightarrow> Some (Inl e)
                     | Some (Inr c) \<Rightarrow>
                         if cfg_sites c = fmempty then Some (config_fail 1 No_site) else Some (Inr c))))"

section \<open>What every directive keeps\<close>

definition handler_ok :: "handler \<Rightarrow> bool" where
  "handler_ok h = (case h of
     Proxy u \<Rightarrow> 0 < up_port u
   | Respond body status \<Rightarrow> 200 \<le> status \<and> status \<le> 599 \<and> (status \<in> {204, 205, 304} \<longrightarrow> body = []))"

definition controls_ok :: "request_controls \<Rightarrow> bool" where
  "controls_ok c \<longleftrightarrow> (\<forall>n. max_body_bytes c = Some n \<longrightarrow> 0 < n \<and> n < 2 ^ 32)
     \<and> (\<forall>n. request_timeout c = Some n \<longrightarrow> 0 < n \<and> n < 2 ^ 32)
     \<and> ipv6_prefix c \<le> 128 \<and> limit_ok (payment_limit c)"

definition directives_ok :: "directives \<Rightarrow> bool" where
  "directives_ok d \<longleftrightarrow> controls_ok (d_controls d) \<and> pred_option limit_ok (d_rate_limit d)
     \<and> pred_option handler_ok (d_handler d) \<and> pred_option (\<lambda>m. m \<le> 1000000) (d_max_inflight d)
     \<and> pred_option (\<lambda>p. 0 < pp_price p \<and> pp_price p < 2 ^ 32) (d_payment d)"

lemma lift_policy_Inr [simp]: "lift_policy line m r = Inr a \<longleftrightarrow> r = Inr a"
  by (cases r) (auto simp: lift_policy_def)

lemma directives_init_ok: "directives_ok directives_init"
  by (simp add: directives_ok_def directives_init_def controls_ok_def controls_default_def limit_ok_def)

lemma parse_response_ok: "parse_response args line = Inr h \<Longrightarrow> handler_ok h"
  by (auto simp: parse_response_def config_fail_def handler_ok_def Let_def filter_option_eq_Some
      split: if_splits sum.splits option.splits prod.splits)

lemma positive_range: "positive t = Some n \<Longrightarrow> 0 < n \<and> n < 2 ^ 32"
  using parse_uint_less [of 32 t n] by (auto simp: positive_def filter_option_eq_Some)

lemma dir_limit_ok:
  assumes "dir_limit name args line d = Inr d'" "directives_ok d"
  shows "directives_ok d'"
proof -
  let ?d = "d\<lparr>d_seen := insert name (d_seen d)\<rparr>"
  obtain p b where pb: "0 < p \<and> p < 2 ^ 32" "0 < b \<and> b < 2 ^ 32"
    "d' = ?d\<lparr>d_rate_limit := Some \<lparr>per_second = p, burst = b\<rparr>\<rparr> \<or>
     d' = ?d\<lparr>d_controls := (d_controls d)\<lparr>payment_limit := \<lparr>per_second = p, burst = b\<rparr>\<rparr>\<rparr>"
    using assms(1) by (auto simp: dir_limit_def Let_def bind_eq_Some_conv
        split: if_splits option.splits dest!: positive_range)
  have "limit_ok \<lparr>per_second = p, burst = b\<rparr>" using pb(1,2) by (simp add: limit_ok_def)
  then show ?thesis using pb(3) assms(2) by (auto simp: directives_ok_def controls_ok_def)
qed

lemma control_value_range: "control_value v = Some (Some n) \<Longrightarrow> 0 < n \<and> n < 2 ^ 32"
  by (auto simp: control_value_def filter_option_eq_Some split: if_splits)

lemma controls_ok_upd:
  "controls_ok c \<Longrightarrow> n \<le> 128 \<Longrightarrow> controls_ok (c\<lparr>ipv6_prefix := n\<rparr>)"
  "controls_ok c \<Longrightarrow> control_value v = Some m \<Longrightarrow> controls_ok (c\<lparr>max_body_bytes := m\<rparr>)"
  "controls_ok c \<Longrightarrow> control_value v = Some m \<Longrightarrow> controls_ok (c\<lparr>request_timeout := m\<rparr>)"
  by (auto simp: controls_ok_def dest: control_value_range)

lemma directives_ok_controls:
  "directives_ok d \<Longrightarrow> controls_ok c \<Longrightarrow> directives_ok (d\<lparr>d_seen := s, d_controls := c\<rparr>)"
  by (simp add: directives_ok_def)

lemma dir_control_ok:
  assumes "dir_control name args line d = Inr d'" "directives_ok d"
  shows "directives_ok d'"
proof -
  have c: "controls_ok (d_controls d)" using assms(2) by (simp add: directives_ok_def)
  show ?thesis
    using assms(1) directives_ok_controls [OF assms(2)] controls_ok_upd [OF c] unfolding dir_control_def Let_def
    by (auto simp: filter_option_eq_Some split: if_split_asm option.split_asm)
qed

lemma dir_handler_ok:
  assumes "dir_handler x name args line d = Inr d'" "directives_ok d"
  shows "directives_ok d'"
proof -
  obtain h where "handler_ok h" "d' = d\<lparr>d_handler := Some h\<rparr>"
  proof (cases "name = ''reverse_proxy'' \<and> length args = 2")
    case True
    then obtain u where "parse_upstream (url_parse x) (text_of (args ! 1)) = Inr u" "d' = d\<lparr>d_handler := Some (Proxy u)\<rparr>"
      using assms(1) by (auto simp: dir_handler_def split: if_splits sum.splits)
    then show ?thesis using that [of "Proxy u"] parse_upstream_port by (simp add: handler_ok_def)
  next
    case False
    then obtain h where "parse_response (tl args) line = Inr h" "d' = d\<lparr>d_handler := Some h\<rparr>"
      using assms(1) unfolding dir_handler_def by (auto split: if_splits)
    then show ?thesis using that [of h] parse_response_ok by simp
  qed
  then show ?thesis using assms(2) by (simp add: directives_ok_def)
qed

lemma dir_pay_ok: "dir_pay x args line d = Inr d' \<Longrightarrow> directives_ok d \<Longrightarrow> directives_ok d'"
  by (auto simp: directives_ok_def dir_pay_def split: if_splits dest!: payment_policy_parse_sound)

lemma dir_max_inflight_ok: "dir_max_inflight args line d = Inr d' \<Longrightarrow> directives_ok d \<Longrightarrow> directives_ok d'"
  by (auto simp: directives_ok_def dir_max_inflight_def Let_def filter_option_eq_Some split: if_splits)

lemma dir_lightning_ok:
  "dir_lightning_pay args line d = Inr d' \<Longrightarrow> directives_ok d \<Longrightarrow> directives_ok d'"
  "dir_lightning_protocols args line d = Inr d' \<Longrightarrow> directives_ok d \<Longrightarrow> directives_ok d'"
  "dir_lightning_headers args line d = Inr d' \<Longrightarrow> directives_ok d \<Longrightarrow> directives_ok d'"
  "dir_lightning_origin args line d = Inr d' \<Longrightarrow> directives_ok d \<Longrightarrow> directives_ok d'"
     apply (auto simp: directives_ok_def dir_lightning_pay_def split: if_splits)[1]
    apply (auto simp: directives_ok_def dir_lightning_protocols_def split: if_splits)[1]
   apply (clarsimp simp: directives_ok_def dir_lightning_headers_def Let_def split: if_split_asm)
  by (auto simp: directives_ok_def dir_lightning_origin_def split: if_splits)

definition gives_ok :: "config_error + directives \<Rightarrow> bool" where
  "gives_ok r \<longleftrightarrow> (\<forall>d'. r = Inr d' \<longrightarrow> directives_ok d')"

lemma gives_ok_if: "gives_ok (if b then r else r') \<longleftrightarrow> (if b then gives_ok r else gives_ok r')"
  by simp

lemma gives_ok_dirs:
  assumes "directives_ok d"
  shows "gives_ok (config_fail line m)" "gives_ok (dir_limit name args line d)" "gives_ok (dir_control name args line d)"
    "gives_ok (dir_handler x name args line d)" "gives_ok (dir_pay x args line d)" "gives_ok (dir_max_inflight args line d)"
    "gives_ok (dir_lightning_pay args line d)" "gives_ok (dir_lightning_protocols args line d)"
    "gives_ok (dir_lightning_headers args line d)" "gives_ok (dir_lightning_origin args line d)"
  unfolding gives_ok_def
  by (intro allI impI, (erule config_fail_Inr [THEN notE] dir_limit_ok [OF _ assms] dir_control_ok [OF _ assms]
        dir_handler_ok [OF _ assms] dir_pay_ok [OF _ assms] dir_max_inflight_ok [OF _ assms]
        dir_lightning_ok [OF _ assms]))+

lemma apply_directive_ok: "apply_directive x args line d = Inr d' \<Longrightarrow> directives_ok d \<Longrightarrow> directives_ok d'"
proof -
  assume d: "directives_ok d"
  have "gives_ok (apply_directive x args line d)"
    unfolding apply_directive_def
    by (cases "tok_text (args ! 0)") (simp_all only: option.case gives_ok_if gives_ok_dirs [OF d] if_cancel)
  then show "apply_directive x args line d = Inr d' \<Longrightarrow> directives_ok d'" unfolding gives_ok_def by blast
qed

lemma directives_loop_ok: "directives_loop x tokens d = Inr d' \<Longrightarrow> directives_ok d \<Longrightarrow> directives_ok d'"
proof (induction x tokens d rule: directives_loop.induct)
  case (1 x tokens d)
  show ?case
  proof (cases "tokens = []")
    case True
    then show ?thesis using 1(2,3) by (simp add: directives_loop.simps)
  next
    case False
    let ?n = "min (directive_count tokens) (length tokens)"
    obtain d1 where "apply_directive x (take ?n tokens) (tok_line (hd tokens)) d = Inr d1"
      "directives_loop x (drop ?n tokens) d1 = Inr d'"
      using 1(2) False by (auto simp: directives_loop.simps [of x tokens] Let_def)
    then show ?thesis using 1(1) [OF False refl] apply_directive_ok 1(3) by blast
  qed
qed

section \<open>What every site has\<close>

lemma parse_directives_ok:
  assumes "parse_directives x tokens line receivers domain https = Inr p"
  shows "controls_ok (pd_controls p) \<and> pred_option limit_ok (pd_rate_limit p) \<and> handler_ok (pd_handler p)
     \<and> pred_option (\<lambda>m. m \<le> 1000000) (pd_max_inflight p)
     \<and> pred_option (\<lambda>q. 0 < pp_price q \<and> pp_price q < 2 ^ 32) (pd_payment p)"
proof -
  obtain d h where d: "directives_loop x tokens directives_init = Inr d" "d_handler d = Some h"
    "pd_handler p = h" "pd_rate_limit p = d_rate_limit d" "pd_payment p = d_payment d"
    "pd_max_inflight p = d_max_inflight d" "pd_controls p = d_controls d"
    using assms by (auto simp: parse_directives_def split: option.splits)
  have "directives_ok d" by (rule directives_loop_ok [OF d(1) directives_init_ok])
  then show ?thesis using d(2-) by (simp add: directives_ok_def)
qed

lemma parse_directives_lightning:
  assumes "parse_directives x tokens line receivers domain https = Inr p" "pd_lightning p = Some policy"
  shows "\<exists>price unit receiver origin headers protocols. lightning_policy_new x price unit receiver origin headers protocols = Inr policy
     \<and> receiver |\<in>| fmran receivers"
proof -
  obtain d where "finish_lightning x line receivers domain https d = Inr (Some policy)"
    using assms by (auto simp: parse_directives_def split: option.splits)
  then show ?thesis
    by (auto simp: finish_lightning_def Let_def map_sum_def split: option.splits if_splits sum.splits intro: fmranI)
      (metis fmranI)+
qed

definition site_ok :: "externals \<Rightarrow> string \<Rightarrow> site \<Rightarrow> bool" where
  "site_ok x domain s \<longleftrightarrow> site_domain s = domain \<and> valid_domain domain (site_https s)
     \<and> handler_ok (site_handler s) \<and> controls_ok (site_controls s)
     \<and> pred_option (\<lambda>rl. limit_ok (rl_limit rl) \<and> rl_ipv6_prefix rl = ipv6_prefix (site_controls s)) (site_rate_limit s)
     \<and> rl_limit (payment_verification s) = payment_limit (site_controls s)
     \<and> rl_ipv6_prefix (payment_verification s) = ipv6_prefix (site_controls s)
     \<and> pred_option (\<lambda>c. 0 < cap_max c \<and> cap_max c \<le> 1000000 \<and> permits c = cap_max c \<and> cap_clients c = fmempty
          \<and> per_client c = max (cap_max c div 2) 1 \<and> cap_ipv6_prefix c = ipv6_prefix (site_controls s)) (site_capacity s)
     \<and> pred_option (\<lambda>p. 0 < pp_price p \<and> pp_price p < 2 ^ 32) (site_payment s)
     \<and> pred_option (\<lambda>p. check_site x p domain (site_https s) = Inr ()) (site_lightning s)"

lemma build_site_ok:
  assumes p: "parse_directives x tokens line receivers domain https = Inr p"
    and l: "pred_option (\<lambda>q. check_site x q domain https = Inr ()) (pd_lightning p)" and v: "valid_domain domain https"
  shows "\<exists>s. build_site env domain https p = Some s \<and> site_ok x domain s"
proof -
  have ok: "controls_ok (pd_controls p)" "pred_option limit_ok (pd_rate_limit p)" "handler_ok (pd_handler p)"
     "pred_option (\<lambda>m. m \<le> 1000000) (pd_max_inflight p)"
     "pred_option (\<lambda>q. 0 < pp_price q \<and> pp_price q < 2 ^ 32) (pd_payment p)"
    using parse_directives_ok [OF p] by blast+
  have pre: "ipv6_prefix (pd_controls p) \<le> 128" using ok(1) by (simp add: controls_ok_def)
  have cap: "pred_option (\<lambda>c. 0 < cap_max c \<and> cap_max c \<le> 1000000 \<and> permits c = cap_max c \<and> cap_clients c = fmempty
          \<and> per_client c = max (cap_max c div 2) 1 \<and> cap_ipv6_prefix c = ipv6_prefix (pd_controls p))
       (site_capacity_new (pd_controls p) (pd_max_inflight p))"
    using ok(4) unfolding site_capacity_new_def by (cases "pd_max_inflight p") (auto simp: capacity_new_def)
  show ?thesis
    using pre ok l v cap
    by (cases "pd_rate_limit p") (auto simp: build_site_def site_ok_def Let_def with_prefix_def)
qed

definition config_ok :: "externals \<Rightarrow> config \<Rightarrow> bool" where
  "config_ok x c \<longleftrightarrow> (\<forall>domain s. fmlookup (cfg_sites c) domain = Some s \<longrightarrow> site_ok x domain s)
     \<and> length (cfg_payouts c) \<le> 16 \<and> distinct (map po_mint (cfg_payouts c))"

lemma add_payout_ok: "add_payout x body line c = Inr c' \<Longrightarrow> config_ok x c \<Longrightarrow> config_ok x c'"
  by (auto simp: add_payout_def config_ok_def list_ex_iff split: if_splits) metis

lemma add_site_total: "add_site x env receivers address body line c \<noteq> None"
proof (cases "parse_directives x body line receivers (block_domain address) (\<not> prefix ''http://'' address)")
  case (Inl e)
  then show ?thesis by (simp add: add_site_def Let_def)
next
  case (Inr p)
  show ?thesis
  proof (cases "valid_domain (block_domain address) (\<not> prefix ''http://'' address) \<and>
      pred_option (\<lambda>q. check_site x q (block_domain address) (\<not> prefix ''http://'' address) = Inr ()) (pd_lightning p)")
    case True
    then obtain s where "build_site env (block_domain address) (\<not> prefix ''http://'' address) p = Some s"
      using build_site_ok [OF Inr] by blast
    then show ?thesis using Inr by (simp add: add_site_def Let_def split: option.splits sum.splits)
  next
    case False
    then show ?thesis using Inr
      by (auto simp: add_site_def Let_def lift_policy_def split: option.splits sum.splits)
  qed
qed

lemma add_site_ok:
  assumes "add_site x env receivers address body line c = Some (Inr c')" "config_ok x c"
  shows "config_ok x c' \<and> cfg_sites c' \<noteq> fmempty"
proof -
  let ?d = "block_domain address" and ?h = "\<not> prefix ''http://'' address"
  obtain p s where p: "valid_domain ?d ?h" "parse_directives x body line receivers ?d ?h = Inr p"
    "pred_option (\<lambda>q. check_site x q ?d ?h = Inr ()) (pd_lightning p)" "build_site env ?d ?h p = Some s"
    "c' = c\<lparr>cfg_sites := fmupd ?d s (cfg_sites c)\<rparr>"
    using assms(1) by (auto simp: add_site_def Let_def lift_policy_def config_fail_def split: option.splits sum.splits if_splits)
  have "site_ok x ?d s" using build_site_ok [OF p(2,3,1), of env] p(4) by simp
  moreover have "fmupd ?d s (cfg_sites c) \<noteq> fmempty" by (metis fmempty_lookup fmupd_lookup option.distinct(1))
  ultimately show ?thesis using assms(2) p(5) by (auto simp: config_ok_def)
qed

lemma add_blocks_total: "add_blocks x env receivers blocks c \<noteq> None"
  by (induction x env receivers blocks c rule: add_blocks.induct)
    (auto simp: add_site_total split: option.splits sum.splits)

lemma add_blocks_ok: "add_blocks x env receivers blocks c = Some (Inr c') \<Longrightarrow> config_ok x c \<Longrightarrow> config_ok x c'"
  by (induction x env receivers blocks c rule: add_blocks.induct)
    (auto split: option.splits sum.splits if_splits dest: add_payout_ok add_site_ok)

lemma config_parse_cases:
  assumes "config_parse x env input = Some (Inr c)"
  obtains tokens receivers blocks where "tokenize (json_string x) input = Inr tokens"
    "read_blocks x tokens fmempty [] = Inr (receivers, blocks)"
    "add_blocks x env receivers blocks \<lparr>cfg_sites = fmempty, cfg_payouts = []\<rparr> = Some (Inr c)" "cfg_sites c \<noteq> fmempty"
  using assms that by (auto simp: config_parse_def config_fail_def split: if_splits sum.splits option.splits prod.splits)

section \<open>The configuration's theorems\<close>

lemma config_parse_returns: "config_parse x env input \<noteq> None"
  by (auto simp: config_parse_def add_blocks_total split: sum.splits option.splits prod.splits)

text \<open>C37: Parsing a configuration never panics: the prefix of every site was checked before a limiter is
  built with it.\<close>

theorem config_parse_total: "config_parse x env input \<noteq> None"
  by (rule config_parse_returns)

lemma config_parse_ok:
  assumes "config_parse x env input = Some (Inr c)"
  shows "config_ok x c \<and> cfg_sites c \<noteq> fmempty"
proof -
  obtain receivers blocks where b: "add_blocks x env receivers blocks \<lparr>cfg_sites = fmempty, cfg_payouts = []\<rparr> = Some (Inr c)"
    "cfg_sites c \<noteq> fmempty"
    using config_parse_cases [OF assms] by metis
  have "config_ok x c" by (rule add_blocks_ok [OF b(1)]) (simp add: config_ok_def)
  then show ?thesis using b(2) by simp
qed


section \<open>A directive is given once\<close>

definition kept :: "directives \<Rightarrow> directives \<Rightarrow> bool" where
  "kept d d' \<longleftrightarrow> (d_handler d \<noteq> None \<longrightarrow> d_handler d' = d_handler d) \<and> (d_payment d \<noteq> None \<longrightarrow> d_payment d' = d_payment d)
     \<and> (d_lightning d \<noteq> None \<longrightarrow> d_lightning d' = d_lightning d) \<and> (d_headers d \<noteq> None \<longrightarrow> d_headers d' = d_headers d)
     \<and> (d_origin d \<noteq> None \<longrightarrow> d_origin d' = d_origin d) \<and> (d_protocols d \<noteq> None \<longrightarrow> d_protocols d' = d_protocols d)
     \<and> (d_max_inflight d \<noteq> None \<longrightarrow> d_max_inflight d' = d_max_inflight d) \<and> d_seen d \<subseteq> d_seen d'
     \<and> (''rate_limit'' \<in> d_seen d \<longrightarrow> d_rate_limit d' = d_rate_limit d)
     \<and> (''payment_verify_limit'' \<in> d_seen d \<longrightarrow> payment_limit (d_controls d') = payment_limit (d_controls d))
     \<and> (''max_body_bytes'' \<in> d_seen d \<longrightarrow> max_body_bytes (d_controls d') = max_body_bytes (d_controls d))
     \<and> (''request_timeout'' \<in> d_seen d \<longrightarrow> request_timeout (d_controls d') = request_timeout (d_controls d))
     \<and> (''ipv6_prefix'' \<in> d_seen d \<longrightarrow> ipv6_prefix (d_controls d') = ipv6_prefix (d_controls d))"

lemma kept_refl: "kept d d"
  by (simp add: kept_def)

lemma kept_trans: "kept d d' \<Longrightarrow> kept d' d'' \<Longrightarrow> kept d d''"
  by (simp add: kept_def subset_iff)

lemma dir_limit_kept:
  "dir_limit name args line d = Inr d' \<Longrightarrow> name = ''rate_limit'' \<or> name = ''payment_verify_limit'' \<Longrightarrow> kept d d'"
  unfolding dir_limit_def Let_def
  by (elim disjE) (auto simp: kept_def split: if_split_asm option.split_asm)

lemma dir_control_kept:
  "dir_control name args line d = Inr d' \<Longrightarrow> name = ''max_body_bytes'' \<or> name = ''request_timeout'' \<or> name = ''ipv6_prefix'' \<Longrightarrow> kept d d'"
  unfolding dir_control_def Let_def
  by (elim disjE) (auto simp: kept_def split: if_split_asm option.split_asm)

lemma dir_others_kept:
  "dir_handler x name args line d = Inr d' \<Longrightarrow> kept d d'"
  "dir_pay x args line d = Inr d' \<Longrightarrow> kept d d'"
  "dir_max_inflight args line d = Inr d' \<Longrightarrow> kept d d'"
  "dir_lightning_pay args line d = Inr d' \<Longrightarrow> kept d d'"
  "dir_lightning_protocols args line d = Inr d' \<Longrightarrow> kept d d'"
  "dir_lightning_headers args line d = Inr d' \<Longrightarrow> kept d d'"
  "dir_lightning_origin args line d = Inr d' \<Longrightarrow> kept d d'"
        apply (auto simp: dir_handler_def kept_def split: if_split_asm)[1]
       apply (auto simp: dir_pay_def kept_def split: if_split_asm)[1]
      apply (auto simp: dir_max_inflight_def Let_def kept_def split: if_split_asm)[1]
     apply (auto simp: dir_lightning_pay_def kept_def split: if_split_asm)[1]
    apply (auto simp: dir_lightning_protocols_def kept_def split: if_split_asm)[1]
   apply (auto simp: dir_lightning_headers_def Let_def kept_def split: if_split_asm)[1]
  by (auto simp: dir_lightning_origin_def kept_def split: if_split_asm)

definition gives_kept :: "directives \<Rightarrow> config_error + directives \<Rightarrow> bool" where
  "gives_kept d r \<longleftrightarrow> (\<forall>d'. r = Inr d' \<longrightarrow> kept d d')"

lemma gives_kept_if: "gives_kept d (if b then r else r') \<longleftrightarrow> (if b then gives_kept d r else gives_kept d r')"
  by simp

lemma gives_kept_dirs:
  "gives_kept d (config_fail line m)" "gives_kept d (dir_handler x name args line d)" "gives_kept d (dir_pay x args line d)"
  "gives_kept d (dir_max_inflight args line d)" "gives_kept d (dir_lightning_pay args line d)"
  "gives_kept d (dir_lightning_protocols args line d)" "gives_kept d (dir_lightning_headers args line d)"
  "gives_kept d (dir_lightning_origin args line d)"
  "(if name \<in> {''max_body_bytes'', ''request_timeout'', ''ipv6_prefix''} then gives_kept d (dir_control name args line d) else True)"
  "(if name \<in> {''rate_limit'', ''payment_verify_limit''} then gives_kept d (dir_limit name args line d) else True)"
  unfolding gives_kept_def
  by (simp, (intro allI impI, erule dir_others_kept)+,
      (use dir_control_kept in auto)[1], (use dir_limit_kept in auto)[1])

lemma apply_directive_kept: "apply_directive x args line d = Inr d' \<Longrightarrow> kept d d'"
proof -
  have "gives_kept d (apply_directive x args line d)"
  proof (cases "tok_text (args ! 0)")
    case (Some name)
    have c: "(if name \<in> {''max_body_bytes'', ''request_timeout'', ''ipv6_prefix''} then gives_kept d (dir_control name args line d) else q)
        \<longleftrightarrow> name \<in> {''max_body_bytes'', ''request_timeout'', ''ipv6_prefix''} \<or> q" for q
      using gives_kept_dirs(9) [of name d args line] by (cases "name \<in> {''max_body_bytes'', ''request_timeout'', ''ipv6_prefix''}") (simp_all only: if_True if_False simp_thms)
    have l: "(if name \<in> {''rate_limit'', ''payment_verify_limit''} then gives_kept d (dir_limit name args line d) else q)
        \<longleftrightarrow> name \<in> {''rate_limit'', ''payment_verify_limit''} \<or> q" for q
      using gives_kept_dirs(10) [of name d args line] by (cases "name \<in> {''rate_limit'', ''payment_verify_limit''}") (simp_all only: if_True if_False simp_thms)
    show ?thesis
      unfolding apply_directive_def Some option.case gives_kept_if c l
      by (simp add: gives_kept_dirs(1-8))
  qed (simp add: apply_directive_def gives_kept_def)
  then show "apply_directive x args line d = Inr d' \<Longrightarrow> kept d d'" unfolding gives_kept_def by blast
qed

lemma directives_loop_kept: "directives_loop x tokens d = Inr d' \<Longrightarrow> kept d d'"
proof (induction x tokens d rule: directives_loop.induct)
  case (1 x tokens d)
  show ?case
  proof (cases "tokens = []")
    case True
    then show ?thesis using 1(2) by (simp add: directives_loop.simps kept_refl)
  next
    case False
    let ?n = "min (directive_count tokens) (length tokens)"
    obtain d1 where "apply_directive x (take ?n tokens) (tok_line (hd tokens)) d = Inr d1"
      "directives_loop x (drop ?n tokens) d1 = Inr d'"
      using 1(2) False by (auto simp: directives_loop.simps [of x tokens] Let_def)
    then show ?thesis using 1(1) [OF False refl] apply_directive_kept kept_trans by blast
  qed
qed

text \<open>No directive of a site overrides an earlier one: whatever the rest of the site's directives are,
  if they are accepted, then the handler, the payment and Lightning settings, the limits and the
  request controls that were set stay as they were. A repetition is an error.\<close>

lemma directives_never_override:
  assumes "directives_loop x tokens d = Inr d'"
  shows "(\<forall>h. d_handler d = Some h \<longrightarrow> d_handler d' = Some h) \<and> (\<forall>p. d_payment d = Some p \<longrightarrow> d_payment d' = Some p)
     \<and> (\<forall>l. d_lightning d = Some l \<longrightarrow> d_lightning d' = Some l) \<and> (\<forall>h. d_headers d = Some h \<longrightarrow> d_headers d' = Some h)
     \<and> (\<forall>m. d_max_inflight d = Some m \<longrightarrow> d_max_inflight d' = Some m)
     \<and> (''rate_limit'' \<in> d_seen d \<longrightarrow> d_rate_limit d' = d_rate_limit d)
     \<and> (''payment_verify_limit'' \<in> d_seen d \<longrightarrow> payment_limit (d_controls d') = payment_limit (d_controls d))
     \<and> (''max_body_bytes'' \<in> d_seen d \<longrightarrow> max_body_bytes (d_controls d') = max_body_bytes (d_controls d))
     \<and> (''request_timeout'' \<in> d_seen d \<longrightarrow> request_timeout (d_controls d') = request_timeout (d_controls d))
     \<and> (''ipv6_prefix'' \<in> d_seen d \<longrightarrow> ipv6_prefix (d_controls d') = ipv6_prefix (d_controls d))"
  using directives_loop_kept [OF assms] by (simp add: kept_def)

section \<open>Witnesses\<close>

definition demo_limiter_env :: limiter_env where
  "demo_limiter_env = \<lparr>le_hash = (\<lambda>_ _ _. 0), le_now = (\<lambda>_ _ _. 0)\<rparr>"

abbreviation word_tok :: "nat \<Rightarrow> string \<Rightarrow> token" where
  "word_tok l w \<equiv> \<lparr>tok_line = l, tok_kind = Text w, tok_quoted = False\<rparr>"

abbreviation brace_tok :: "nat \<Rightarrow> token_kind \<Rightarrow> token" where
  "brace_tok l k \<equiv> \<lparr>tok_line = l, tok_kind = k, tok_quoted = False\<rparr>"

lemma demo_tokens:
  "tokenize Some ''http://w { respond 204 }'' = Inr [word_tok 1 ''http://w'',
     brace_tok 1 Open, word_tok 1 ''respond'', word_tok 1 ''204'',
     brace_tok 1 Close]"
  by (simp add: tokenize_eval)

lemma demo_directives:
  "directives_loop x [word_tok L ''respond'', word_tok L ''204''] directives_init
     = Inr (directives_init\<lparr>d_handler := Some (Respond [] 204)\<rparr>)"
proof -
  have r: "parse_response [word_tok L ''204''] L = Inr (Respond [] 204)"
    by (simp add: parse_response_def tok_text_def parse_uint_def is_ascii_digit_def)
  have n: "directive_count [word_tok L ''respond'', word_tok L ''204''] = 2"
    by (simp add: directive_count_def tok_text_def)
  have "apply_directive x [word_tok L ''respond'', word_tok L ''204''] L directives_init
      = Inr (directives_init\<lparr>d_handler := Some (Respond [] 204)\<rparr>)"
    by (simp add: apply_directive_def tok_text_def dir_handler_def r) (simp add: directives_init_def)
  then show ?thesis by (simp add: directives_loop.simps n)
qed

lemma demo_blocks:
  "read_blocks x [word_tok L ''http://w'', brace_tok L Open, word_tok L ''respond'', word_tok L ''204'',
     brace_tok L Close] fmempty []
   = Inr (fmempty, [(''http://w'', [word_tok L ''respond'', word_tok L ''204''], L)])"
  by (simp add: read_blocks.simps read_block_def tok_text_def is_text_def)

lemma demo_domain: "valid_domain ''w'' False" "block_domain ''http://w'' = ''w''"
  by (simp_all add: valid_domain_def parse_ip_addr_name to_digit_def hex_val_def valid_label_def
      is_ascii_alphanumeric_def is_ascii_digit_def is_ascii_lower_def block_domain_def strip_prefix_def
      to_ascii_lowercase_def ascii_lower_Char is_ascii_upper_def)

lemma demo_parse_directives:
  "\<exists>p. parse_directives x [word_tok L ''respond'', word_tok L ''204''] L fmempty ''w'' False = Inr p \<and> pd_lightning p = None"
  by (simp add: parse_directives_def demo_directives finish_lightning_def) (simp add: directives_init_def)

lemma demo_add_site:
  "\<exists>c'. add_site x env fmempty ''http://w'' [word_tok L ''respond'', word_tok L ''204''] L \<lparr>cfg_sites = fmempty, cfg_payouts = []\<rparr>
     = Some (Inr c') \<and> fmlookup (cfg_sites c') ''w'' \<noteq> None \<and> cfg_sites c' \<noteq> fmempty"
proof -
  obtain p where p: "parse_directives x [word_tok L ''respond'', word_tok L ''204''] L fmempty ''w'' False = Inr p"
    "pd_lightning p = None"
    using demo_parse_directives by blast
  obtain s where s: "build_site env ''w'' False p = Some s"
    using build_site_ok [OF p(1), of env] p(2) demo_domain(1) by auto
  have "fmupd ''w'' s fmempty \<noteq> fmempty" by (metis fmempty_lookup fmupd_lookup option.distinct(1))
  then show ?thesis by (simp add: add_site_def demo_domain p s)
qed

lemma demo_parse: "\<exists>c. config_parse demo_ext demo_limiter_env ''http://w { respond 204 }'' = Some (Inr c)
    \<and> fmlookup (cfg_sites c) ''w'' \<noteq> None"
proof -
  have j: "json_string demo_ext = Some" by (simp add: demo_ext_def)
  obtain c' where "add_site demo_ext demo_limiter_env fmempty ''http://w'' [word_tok 1 ''respond'', word_tok 1 ''204''] 1
      \<lparr>cfg_sites = fmempty, cfg_payouts = []\<rparr> = Some (Inr c')" "fmlookup (cfg_sites c') ''w'' \<noteq> None" "cfg_sites c' \<noteq> fmempty"
    using demo_add_site by blast
  then show ?thesis
    by (simp add: config_parse_def j demo_tokens demo_blocks)
qed


lemma demo_directives_max:
  "directives_loop x [word_tok L ''respond'', word_tok L ''204''] (directives_init\<lparr>d_max_inflight := Some 7\<rparr>)
     = Inr (directives_init\<lparr>d_max_inflight := Some 7, d_handler := Some (Respond [] 204)\<rparr>)"
proof -
  have r: "parse_response [word_tok L ''204''] L = Inr (Respond [] 204)"
    by (simp add: parse_response_def tok_text_def parse_uint_def is_ascii_digit_def)
  have n: "directive_count [word_tok L ''respond'', word_tok L ''204''] = 2"
    by (simp add: directive_count_def tok_text_def)
  have "apply_directive x [word_tok L ''respond'', word_tok L ''204''] L (directives_init\<lparr>d_max_inflight := Some 7\<rparr>)
      = Inr (directives_init\<lparr>d_max_inflight := Some 7, d_handler := Some (Respond [] 204)\<rparr>)"
    by (simp add: apply_directive_def tok_text_def dir_handler_def r) (simp add: directives_init_def)
  then show ?thesis by (simp add: directives_loop.simps n)
qed

end
