(* ===== verification/Challenges.thy ===== *)
theory Challenges
  imports Settlements Capacity
begin

text \<open>
  Lightning challenges: \<^verbatim>\<open>Lightning::challenge\<close> of \<^verbatim>\<open>payments/lightning/mod.rs\<close> and the concurrency limits of
  \<^verbatim>\<open>payments/lightning/issuance.rs\<close>. A receiver's capacity is kept with the number of strong references
  to it, one for every permit; an entry whose count is zero is a dead weak reference. The invoice of
  the LDK server and the JSON of the x402 challenge are parameters.
\<close>

section \<open>Issuance permits\<close>

record issuance =
  iss_global :: capacity
  iss_receivers :: "(string, capacity \<times> nat) fmap"

record issuance_permit =
  ip_receiver :: string
  ip_receiver_client :: ip_addr
  ip_global_client :: ip_addr

definition issuance_default :: issuance where
  "issuance_default = \<lparr>iss_global = (capacity_new 64)\<lparr>per_client := 8\<rparr>, iss_receivers = fmempty\<rparr>"

definition receiver_capacity :: capacity where
  "receiver_capacity = (capacity_new 8)\<lparr>per_client := 2\<rparr>"

definition receiver_key :: "externals \<Rightarrow> receiver_config \<Rightarrow> string option" where
  "receiver_key x r =
     (case r of
        Ldk node \<Rightarrow> map_option (\<lambda>url. ''ldk:'' @ url_text url) (url_parse x (ldk_endpoint node))
      | Cashu mint network \<Rightarrow> Some (''cashu:'' @ mint))"

text \<open>Dropping a permit of a capacity.\<close>

definition give_back :: "capacity \<Rightarrow> ip_addr \<Rightarrow> capacity" where
  "give_back c client = permit_release (permit_drop c client)"

definition issuance_acquire :: "externals \<Rightarrow> receiver_config \<Rightarrow> ip_addr \<Rightarrow> issuance \<Rightarrow> issuance_permit option \<times> issuance" where
  "issuance_acquire x r client s =
     (case try_acquire (iss_global s) client of
        (None, g) \<Rightarrow> (None, s\<lparr>iss_global := g\<rparr>)
      | (Some global, g) \<Rightarrow>
          (case receiver_key x r of
             None \<Rightarrow> (None, s\<lparr>iss_global := give_back g global\<rparr>)
           | Some key \<Rightarrow>
               (let live = retain_fm (\<lambda>(_, strong). strong \<noteq> 0) (iss_receivers s);
                    (cap, strong) = (case fmlookup live key of Some e \<Rightarrow> e | None \<Rightarrow> (receiver_capacity, 0))
                in case try_acquire cap client of
                     (None, cap') \<Rightarrow>
                       (None, \<lparr>iss_global = give_back g global, iss_receivers = fmupd key (cap', strong) live\<rparr>)
                   | (Some receiver, cap') \<Rightarrow>
                       (Some \<lparr>ip_receiver = key, ip_receiver_client = receiver, ip_global_client = global\<rparr>,
                        \<lparr>iss_global = g, iss_receivers = fmupd key (cap', strong + 1) live\<rparr>))))"

definition issuance_release :: "issuance_permit \<Rightarrow> issuance \<Rightarrow> issuance" where
  "issuance_release p s =
     \<lparr>iss_global = give_back (iss_global s) (ip_global_client p),
      iss_receivers = (case fmlookup (iss_receivers s) (ip_receiver p) of
          Some (cap, strong) \<Rightarrow> fmupd (ip_receiver p) (give_back cap (ip_receiver_client p), strong - 1) (iss_receivers s)
        | None \<Rightarrow> iss_receivers s)\<rparr>"

section \<open>Challenges\<close>

record lightning_service =
  ls_store :: lightning
  ls_issuance :: rate_limiter
  ls_concurrency :: issuance

record challenge =
  ch_x402 :: "string option"
  ch_l402 :: "string option"

record challenge_env =
  ce_instant :: nat
  ce_capacity :: ln_env
  ce_ldk_invoice :: "string option"
  ce_cashu :: ln_env
  ce_now :: "nat option"
  ce_root :: "string option"
  ce_random :: "string option"
  ce_mint :: ln_env

definition challenge_invoice ::
  "ln_ext \<Rightarrow> l402_ext \<Rightarrow> challenge_env \<Rightarrow> lightning_policy \<Rightarrow> string \<Rightarrow> lightning \<Rightarrow> (ln_error + string) \<times> lightning" where
  "challenge_invoice x m env p hash s =
     (case lp_receiver p of
        Ldk node \<Rightarrow> (ok_or Unavailable (filter_option (\<lambda>i. i \<noteq> []) (ce_ldk_invoice env)), s)
      | Cashu mint network \<Rightarrow> cashu_invoice x m (ce_cashu env) p mint hash s)"

definition l402_challenge :: "string \<Rightarrow> string \<Rightarrow> string" where
  "l402_challenge encoded invoice =
     ''L402 macaroon='' @ quote @ encoded @ quote @ '', invoice='' @ quote @ invoice @ quote"

definition challenge_store ::
  "ln_ext \<Rightarrow> l402_ext \<Rightarrow> (string \<Rightarrow> requirements \<Rightarrow> string) \<Rightarrow> challenge_env \<Rightarrow> lightning_policy \<Rightarrow> string \<Rightarrow> string \<Rightarrow> lightning
     \<Rightarrow> (ln_error + challenge) \<times> lightning" where
  "challenge_store x m required_json env p url hash s =
     (let needed = of_bool (proto_l402 (lp_protocols p)) + of_bool (receiver_mint (lp_receiver p) \<noteq> None)
      in case check_challenge_capacity (ce_capacity env) needed s of
           (Inl e, s1) \<Rightarrow> (Inl e, s1)
         | (Inr _, s1) \<Rightarrow>
             (case challenge_invoice x m env p hash s1 of
                (Inl e, s2) \<Rightarrow> (Inl e, s2)
              | (Inr invoice, s2) \<Rightarrow>
                  (case bind_result (ok_or Unavailable (ce_now env)) (\<lambda>time.
                         map_sum (\<lambda>_. Unavailable) id (validate_invoice x p hash invoice time 0)) of
                     Inl e \<Rightarrow> (Inl e, s2)
                   | Inr parsed \<Rightarrow>
                       (let x402 = (if proto_x402 (lp_protocols p) then Some (required_json url (requirements_of p hash invoice)) else None)
                        in if proto_l402 (lp_protocols p) then
                             (case mint_l402 x m (ce_mint env) p hash invoice parsed (ce_root env) (ce_random env) s2 of
                                (Inl e, s3) \<Rightarrow> (Inl e, s3)
                              | (Inr (encoded, _), s3) \<Rightarrow> (Inr \<lparr>ch_x402 = x402, ch_l402 = Some (l402_challenge encoded invoice)\<rparr>, s3))
                           else (Inr \<lparr>ch_x402 = x402, ch_l402 = None\<rparr>, s2)))))"

definition lightning_challenge ::
  "externals \<Rightarrow> ln_ext \<Rightarrow> l402_ext \<Rightarrow> (string \<Rightarrow> requirements \<Rightarrow> string) \<Rightarrow> challenge_env \<Rightarrow> lightning_policy \<Rightarrow> string \<Rightarrow> string
     \<Rightarrow> ip_addr \<Rightarrow> lightning_service \<Rightarrow> challenge option \<times> lightning_service" where
  "lightning_challenge x l m required_json env p url hash client s =
     (case limiter_check (ls_issuance s) client (ce_instant env) of
        (Admitted, limiter) \<Rightarrow>
          (case issuance_acquire x (lp_receiver p) client (ls_concurrency s) of
             (None, conc) \<Rightarrow> (None, s\<lparr>ls_issuance := limiter, ls_concurrency := conc\<rparr>)
           | (Some permit, conc) \<Rightarrow>
               (case challenge_store l m required_json env p url hash (ls_store s) of
                  (r, store) \<Rightarrow>
                    (case r of Inr c \<Rightarrow> Some c | Inl _ \<Rightarrow> None,
                     \<lparr>ls_store = store, ls_issuance = limiter, ls_concurrency = issuance_release permit conc\<rparr>)))
      | (_, limiter) \<Rightarrow> (None, s\<lparr>ls_issuance := limiter\<rparr>))"

section \<open>Permits\<close>

text \<open>A capacity whose counters are those of permits in use.\<close>

definition capacity_counts :: "capacity \<Rightarrow> bool" where
  "capacity_counts c \<longleftrightarrow> (\<forall>k n. fmlookup (cap_clients c) k = Some n \<longrightarrow> 0 < n \<and> n \<le> per_client c) \<and> per_client c < 2 ^ 32"

lemma give_back_acquired:
  assumes "capacity_counts c" "try_acquire c ip = (Some k, c')"
  shows "give_back c' k = c"
proof -
  let ?n = "case fmlookup (cap_clients c) k of Some i \<Rightarrow> i | None \<Rightarrow> 0"
  have a: "k = client_key ip (cap_ipv6_prefix c)" "\<not> per_client c \<le> ?n" "permits c \<noteq> 0"
    "c' = c\<lparr>permits := permits c - 1, cap_clients := fmupd k (wrapping_add 32 ?n 1) (cap_clients c)\<rparr>"
    using assms(2) by (auto simp: try_acquire_def Let_def split: if_splits)
  have n: "wrapping_add 32 ?n 1 = Suc ?n" "wrapping_sub 32 (Suc ?n) 1 = ?n"
    using a(2) assms(1) by (auto simp: capacity_counts_def wrapping_add_def wrapping_sub_def mod_if)
  show ?thesis
  proof (cases "fmlookup (cap_clients c) k")
    case None
    have "fmdrop k (fmupd k (Suc 0) (cap_clients c)) = cap_clients c"
      by (rule fmap_ext) (use None in auto)
    then show ?thesis using a n None by (simp add: give_back_def permit_drop_def permit_release_def Let_def)
  next
    case (Some m)
    have "m \<noteq> 0" using assms(1) Some by (auto simp: capacity_counts_def)
    moreover have "fmupd k m (fmupd k (Suc m) (cap_clients c)) = cap_clients c"
      by (rule fmap_ext) (use Some in auto)
    ultimately show ?thesis using a n Some by (simp add: give_back_def permit_drop_def permit_release_def Let_def)
  qed
qed

lemma issuance_global:
  assumes "issuance_acquire x r client s = (p, s')" "capacity_counts (iss_global s)"
  shows "case p of None \<Rightarrow> iss_global s' = iss_global s | Some permit \<Rightarrow> give_back (iss_global s') (ip_global_client permit) = iss_global s"
proof -
  obtain q g where q: "try_acquire (iss_global s) client = (q, g)" by fastforce
  show ?thesis
  proof (cases q)
    case None
    then have "g = iss_global s" using q by (auto simp: try_acquire_def Let_def split: if_splits)
    then show ?thesis using assms(1) q None by (auto simp: issuance_acquire_def)
  next
    case (Some k)
    have "give_back g k = iss_global s" using give_back_acquired [OF assms(2)] q Some by simp
    then show ?thesis using assms(1) q Some
      by (auto simp: issuance_acquire_def Let_def split: option.splits prod.splits)
  qed
qed

text \<open>The receivers whose capacity is alive: some permit holds a strong reference to it.\<close>

definition live_receivers :: "issuance \<Rightarrow> (string, capacity \<times> nat) fmap" where
  "live_receivers s = retain_fm (\<lambda>(_, strong). strong \<noteq> 0) (iss_receivers s)"

definition issuance_counts :: "issuance \<Rightarrow> bool" where
  "issuance_counts s \<longleftrightarrow> capacity_counts (iss_global s)
     \<and> (\<forall>key cap strong. fmlookup (iss_receivers s) key = Some (cap, strong) \<longrightarrow> capacity_counts cap)"

lemma try_acquire_refused: "try_acquire c ip = (None, c') \<Longrightarrow> c' = c"
  by (auto simp: try_acquire_def Let_def split: if_splits)

text \<open>Putting the entry back that a lookup found, or a dead one that was missing, changes no live entry.\<close>

lemma live_receivers_upd:
  assumes "live = live_receivers s" "(cap, strong) = (case fmlookup live key of Some e \<Rightarrow> e | None \<Rightarrow> (c0, 0))"
  shows "retain_fm (\<lambda>(_, strong). strong \<noteq> 0) (fmupd key (cap, strong) live) = live"
proof (rule fmap_ext)
  fix k
  have live: "fmlookup live k = (case fmlookup (iss_receivers s) k of Some (c, n) \<Rightarrow> if n \<noteq> 0 then Some (c, n) else None | None \<Rightarrow> None)"
    by (auto simp: assms(1) live_receivers_def retain_fm_lookup split: option.splits)
  show "fmlookup (retain_fm (\<lambda>(_, strong). strong \<noteq> 0) (fmupd key (cap, strong) live)) k = fmlookup live k"
    using assms(2) live by (cases "k = key") (auto simp: retain_fm_lookup split: option.splits if_splits)
qed

lemma issuance_receivers:
  assumes "issuance_acquire x r client s = (p, s')" "issuance_counts s"
  shows "case p of None \<Rightarrow> live_receivers s' = live_receivers s | Some permit \<Rightarrow> live_receivers (issuance_release permit s') = live_receivers s"
proof -
  obtain q g where q: "try_acquire (iss_global s) client = (q, g)" by fastforce
  show ?thesis
  proof (cases "q = None \<or> receiver_key x r = None")
    case True
    then show ?thesis using assms(1) q by (auto simp: issuance_acquire_def live_receivers_def split: option.splits)
  next
    case False
    then obtain global key where k: "q = Some global" "receiver_key x r = Some key" by auto
    let ?live = "live_receivers s"
    obtain cap strong where e: "(cap, strong) = (case fmlookup ?live key of Some e \<Rightarrow> e | None \<Rightarrow> (receiver_capacity, 0))"
      by (metis prod.collapse)
    obtain a cap' where a: "try_acquire cap client = (a, cap')" by fastforce
    have "capacity_counts receiver_capacity" by (simp add: receiver_capacity_def capacity_counts_def capacity_new_def)
    then have counts: "capacity_counts cap"
      using assms(2) e unfolding issuance_counts_def
      by (auto simp: live_receivers_def retain_fm_lookup split: option.splits if_splits)
    note un = assms(1) [unfolded issuance_acquire_def q k prod.case option.case Let_def live_receivers_def [symmetric] e [symmetric] a]
    show ?thesis
    proof (cases a)
      case None
      then have "cap' = cap" using try_acquire_refused a by blast
      then show ?thesis using un None live_receivers_upd [OF refl e] by (auto simp: live_receivers_def)
    next
      case (Some client')
      have "give_back cap' client' = cap" using give_back_acquired [OF counts] a Some by blast
      moreover have "p = Some \<lparr>ip_receiver = key, ip_receiver_client = client', ip_global_client = global\<rparr>"
        "s' = \<lparr>iss_global = g, iss_receivers = fmupd key (cap', strong + 1) ?live\<rparr>"
        using un Some by simp_all
      moreover have "fmupd key (cap, strong) (fmupd key (cap', strong + 1) ?live) = fmupd key (cap, strong) ?live"
        by (rule fmap_ext) simp
      ultimately show ?thesis using live_receivers_upd [OF refl e] by (simp add: issuance_release_def live_receivers_def)
    qed
  qed
qed

section \<open>What a challenge offers\<close>

lemma challenge_store_sound:
  assumes "challenge_store x m required_json env p url hash s = (Inr c, s')"
  shows "\<exists>invoice parsed time s1 s2. challenge_invoice x m env p hash s1 = (Inr invoice, s2) \<and> ce_now env = Some time \<and> validate_invoice x p hash invoice time 0 = Inr parsed
     \<and> ch_x402 c = (if proto_x402 (lp_protocols p) then Some (required_json url (requirements_of p hash invoice)) else None)
     \<and> (if proto_l402 (lp_protocols p)
        then \<exists>encoded text s2. ch_l402 c = Some (l402_challenge encoded invoice)
               \<and> mint_l402 x m (ce_mint env) p hash invoice parsed (ce_root env) (ce_random env) s2 = (Inr (encoded, text), s')
        else ch_l402 c = None)"
proof -
  obtain u s1 invoice s2 where i: "check_challenge_capacity (ce_capacity env)
      (of_bool (proto_l402 (lp_protocols p)) + of_bool (receiver_mint (lp_receiver p) \<noteq> None)) s = (Inr u, s1)"
    "challenge_invoice x m env p hash s1 = (Inr invoice, s2)"
    using assms by (auto simp: challenge_store_def Let_def split: sum.splits prod.splits)
  define v where "v = bind_result (ok_or Unavailable (ce_now env)) (\<lambda>time.
      map_sum (\<lambda>_. Unavailable) id (validate_invoice x p hash invoice time 0))"
  note un = assms [unfolded challenge_store_def Let_def i sum.case prod.case v_def [symmetric]]
  obtain parsed where "v = Inr parsed" using un by (cases v) auto
  obtain time where t: "ce_now env = Some time" using \<open>v = Inr parsed\<close> by (auto simp: v_def)
  then have "validate_invoice x p hash invoice time 0 = Inr parsed"
    using \<open>v = Inr parsed\<close> by (cases "validate_invoice x p hash invoice time 0") (auto simp: v_def)
  moreover have "ch_x402 c = (if proto_x402 (lp_protocols p) then Some (required_json url (requirements_of p hash invoice)) else None)
     \<and> (if proto_l402 (lp_protocols p)
        then \<exists>encoded text s2. ch_l402 c = Some (l402_challenge encoded invoice)
               \<and> mint_l402 x m (ce_mint env) p hash invoice parsed (ce_root env) (ce_random env) s2 = (Inr (encoded, text), s')
        else ch_l402 c = None)"
    using un \<open>v = Inr parsed\<close> by (auto split: if_splits sum.splits prod.splits; blast)
  ultimately show ?thesis using i(2) t by blast
qed

text \<open>
  C35: A challenge offers what the policy asks, and holds nothing afterwards. A challenge is only issued to a
  client its limiter admits. Its invoice is signed for the policy's amount and network and has not
  expired; from a node it is the one the node returned, signed by the configured key, for this request
  and with the configured lifetime. It is offered over x402 and L402 exactly as the policy enables them,
  an L402 offer with a credential minted for that very invoice. Whether or not the challenge succeeds,
  the slot of the client is given back, in the global capacity and in that of the receiver, and no
  capacity of another receiver in use is touched.
\<close>

theorem challenge_sound:
  assumes "lightning_challenge x l m required_json env p url hash client s = (r, s')" "issuance_counts (ls_concurrency s)"
  shows "iss_global (ls_concurrency s') = iss_global (ls_concurrency s)
     \<and> live_receivers (ls_concurrency s') = live_receivers (ls_concurrency s)
     \<and> (\<forall>c. r = Some c \<longrightarrow> fst (limiter_check (ls_issuance s) client (ce_instant env)) = Admitted
        \<and> (\<exists>invoice i time. ce_now env = Some time \<and> bolt11 l invoice = Some i \<and> inv_signature_ok i
            \<and> inv_amount_msat i = Some (lp_amount_msat p) \<and> time < inv_created i + inv_expiry i
            \<and> inv_currency i = (if receiver_network (lp_receiver p) = MAINNET then Bitcoin else BitcoinTestnet)
            \<and> (\<forall>node. lp_receiver p = Ldk node \<longrightarrow> ce_ldk_invoice env = Some invoice \<and> inv_payee i = ldk_pay_to node
                 \<and> inv_expiry i = ldk_expiry_seconds node \<and> (\<exists>d. decode_hash hash = Some d \<and> inv_description i = Description_hash d))
            \<and> ch_x402 c = (if proto_x402 (lp_protocols p) then Some (required_json url (requirements_of p hash invoice)) else None)
            \<and> (if proto_l402 (lp_protocols p)
                then \<exists>encoded text s2. ch_l402 c = Some (l402_challenge encoded invoice)
                  \<and> mint_l402 l m (ce_mint env) p hash invoice i (ce_root env) (ce_random env) s2 = (Inr (encoded, text), ls_store s')
                else ch_l402 c = None)))"
proof -
  obtain q limiter where q: "limiter_check (ls_issuance s) client (ce_instant env) = (q, limiter)" by fastforce
  obtain pm conc where pm: "issuance_acquire x (lp_receiver p) client (ls_concurrency s) = (pm, conc)" by fastforce
  obtain cr store where cr: "challenge_store l m required_json env p url hash (ls_store s) = (cr, store)" by fastforce
  have counts: "capacity_counts (iss_global (ls_concurrency s))" using assms(2) by (simp add: issuance_counts_def)
  have g: "iss_global (ls_concurrency s') = iss_global (ls_concurrency s)"
    using assms(1) q pm cr issuance_global [OF pm counts]
    by (cases q; cases pm) (auto simp: lightning_challenge_def issuance_release_def)
  have h: "live_receivers (ls_concurrency s') = live_receivers (ls_concurrency s)"
    using assms(1) q pm cr issuance_receivers [OF pm assms(2)]
    by (cases q; cases pm) (auto simp: lightning_challenge_def)
  have ad: "q = Admitted" "cr = Inr c" if "r = Some c" for c
    using assms(1) q pm cr that by (cases q; cases pm; cases cr; auto simp: lightning_challenge_def)+
  show ?thesis
  proof (intro conjI allI impI g h)
    fix c assume r: "r = Some c"
    show "fst (limiter_check (ls_issuance s) client (ce_instant env)) = Admitted" using q ad(1) [OF r] by simp
    obtain invoice i time s1 s2 where v: "challenge_invoice l m env p hash s1 = (Inr invoice, s2)" "ce_now env = Some time"
      "validate_invoice l p hash invoice time 0 = Inr i"
      "ch_x402 c = (if proto_x402 (lp_protocols p) then Some (required_json url (requirements_of p hash invoice)) else None)"
      "if proto_l402 (lp_protocols p)
       then \<exists>encoded text s2. ch_l402 c = Some (l402_challenge encoded invoice)
         \<and> mint_l402 l m (ce_mint env) p hash invoice i (ce_root env) (ce_random env) s2 = (Inr (encoded, text), store)
       else ch_l402 c = None"
      using challenge_store_sound [OF cr [unfolded ad(2) [OF r]]] by blast
    have st: "ls_store s' = store"
      using assms(1) q pm cr ad(1) [OF r] r by (cases pm) (auto simp: lightning_challenge_def)
    have ldk: "ce_ldk_invoice env = Some invoice \<and> inv_payee i = ldk_pay_to node \<and> inv_expiry i = ldk_expiry_seconds node
        \<and> (\<exists>d. decode_hash hash = Some d \<and> inv_description i = Description_hash d)" if n: "lp_receiver p = Ldk node" for node
      using v(1) validate_invoice_ldk [OF v(3), of node] n by (auto simp: challenge_invoice_def filter_option_eq_Some)
    show "\<exists>invoice i time. ce_now env = Some time \<and> bolt11 l invoice = Some i \<and> inv_signature_ok i
            \<and> inv_amount_msat i = Some (lp_amount_msat p) \<and> time < inv_created i + inv_expiry i
            \<and> inv_currency i = (if receiver_network (lp_receiver p) = MAINNET then Bitcoin else BitcoinTestnet)
            \<and> (\<forall>node. lp_receiver p = Ldk node \<longrightarrow> ce_ldk_invoice env = Some invoice \<and> inv_payee i = ldk_pay_to node
                 \<and> inv_expiry i = ldk_expiry_seconds node \<and> (\<exists>d. decode_hash hash = Some d \<and> inv_description i = Description_hash d))
            \<and> ch_x402 c = (if proto_x402 (lp_protocols p) then Some (required_json url (requirements_of p hash invoice)) else None)
            \<and> (if proto_l402 (lp_protocols p)
                then \<exists>encoded text s2. ch_l402 c = Some (l402_challenge encoded invoice)
                  \<and> mint_l402 l m (ce_mint env) p hash invoice i (ce_root env) (ce_random env) s2 = (Inr (encoded, text), ls_store s')
                else ch_l402 c = None)"
      by (intro exI [of _ invoice] exI [of _ i] exI [of _ time] conjI v(2,4) v(5) [folded st])
        (use validate_invoice_sound [OF v(3)] ldk in simp_all)
  qed
qed

section \<open>Witnesses\<close>

definition demo_service :: lightning_service where
  "demo_service = \<lparr>ls_store = demo_lightning_db\<lparr>ln_open := True\<rparr>, ls_issuance = demo_limiter, ls_concurrency = issuance_default\<rparr>"

definition demo_challenge_env :: challenge_env where
  "demo_challenge_env = \<lparr>ce_instant = 0, ce_capacity = demo_env 1200, ce_ldk_invoice = Some ''lnbc1'', ce_cashu = demo_env 1200,
     ce_now = Some 1200, ce_root = None, ce_random = None, ce_mint = demo_env 1200\<rparr>"

lemma demo_issuance_counts: "issuance_counts (ls_concurrency demo_service)"
  by (simp add: issuance_counts_def demo_service_def issuance_default_def capacity_counts_def capacity_new_def)

lemma demo_invoice_valid: "validate_invoice demo_ln demo_x402 (hex demo_preimage) ''lnbc1'' 1200 0 = Inr demo_invoice"
  by (simp add: validate_invoice_def demo_ln_def demo_invoice_def demo_x402_def demo_ldk_def SKEW_def saturating_add_def
      checked_add_def decode_hash_hex demo_preimage_def)

lemma demo_challenge_store:
  "\<exists>c. challenge_store demo_ln demo_l402 (\<lambda>_ _. ''offer'') demo_challenge_env demo_x402 ''https://a/'' (hex demo_preimage)
     (demo_lightning_db\<lparr>ln_open := True\<rparr>) = (Inr c, demo_lightning_db\<lparr>ln_open := True\<rparr>)"
proof -
  have cap: "check_challenge_capacity (demo_env 1200) n (demo_lightning_db\<lparr>ln_open := True\<rparr>) = (Inr (), demo_lightning_db\<lparr>ln_open := True\<rparr>)"
    if "n \<le> 2" for n
    using that by (simp add: check_challenge_capacity_def ln_database_def check_capacity_def demo_env_def demo_lightning_db_def
        saturating_add_def MAX_CHALLENGE_RECORDS_def)
  have env: "ce_capacity demo_challenge_env = demo_env 1200" "ce_ldk_invoice demo_challenge_env = Some ''lnbc1''" "ce_now demo_challenge_env = Some 1200"
    by (simp_all add: demo_challenge_env_def)
  have p: "lp_receiver demo_x402 = Ldk demo_ldk" "lp_protocols demo_x402 = protocols_default" by (simp_all add: demo_x402_def)
  show ?thesis
    by (simp add: challenge_store_def env p protocols_default_def cap challenge_invoice_def demo_invoice_valid)
qed

definition demo_any_url :: externals where
  "demo_any_url = demo_ext\<lparr>url_parse := (\<lambda>s. Some (demo_url ''n'' s))\<rparr>"

lemma demo_challenged:
  "\<exists>c s'. lightning_challenge demo_any_url demo_ln demo_l402 (\<lambda>_ _. ''offer'') demo_challenge_env demo_x402 ''https://a/''
     (hex demo_preimage) (V4 1) demo_service = (Some c, s')"
proof -
  have "fst (limiter_check demo_limiter (V4 1) 0) = Admitted" by (simp add: limiter_eval)
  then obtain rl where l: "limiter_check demo_limiter (V4 1) 0 = (Admitted, rl)"
    by (cases "limiter_check demo_limiter (V4 1) 0") auto
  have k: "receiver_key demo_any_url (Ldk demo_ldk) = Some (''ldk:'' @ ''https://n'')"
    by (simp add: receiver_key_def demo_any_url_def demo_ldk_def demo_url_def)
  have e: "retain_fm keep (fmempty :: (string, capacity \<times> nat) fmap) = fmempty" for keep by (simp add: retain_fm_def)
  obtain pm conc where a: "issuance_acquire demo_any_url (Ldk demo_ldk) (V4 1) issuance_default = (Some pm, conc)"
    by (simp add: issuance_acquire_def issuance_default_def k e try_acquire_def capacity_new_def receiver_capacity_def Let_def)
  have p: "lp_receiver demo_x402 = Ldk demo_ldk" "ce_instant demo_challenge_env = 0" by (simp_all add: demo_x402_def demo_challenge_env_def)
  show ?thesis using demo_challenge_store l a p by (auto simp: lightning_challenge_def demo_service_def)
qed

theorem challenge_sound_witness:
  "\<exists>c s'. lightning_challenge demo_any_url demo_ln demo_l402 (\<lambda>_ _. ''offer'') demo_challenge_env demo_x402 ''https://a/''
     (hex demo_preimage) (V4 1) demo_service = (Some c, s')
     \<and> iss_global (ls_concurrency s') = iss_global (ls_concurrency demo_service)
     \<and> live_receivers (ls_concurrency s') = live_receivers (ls_concurrency demo_service) \<and> ch_x402 c = Some ''offer'' \<and> ch_l402 c = None"
proof -
  obtain c s' where c: "lightning_challenge demo_any_url demo_ln demo_l402 (\<lambda>_ _. ''offer'') demo_challenge_env demo_x402 ''https://a/''
     (hex demo_preimage) (V4 1) demo_service = (Some c, s')"
    using demo_challenged by blast
  have "lp_protocols demo_x402 = protocols_default" by (simp add: demo_x402_def)
  then show ?thesis using challenge_sound [OF c demo_issuance_counts] c by (auto simp: protocols_default_def)
qed

end
