(* ===== verification/Payout.thy ===== *)
theory Payout
  imports Cashu_Payments
begin

text \<open>
  Payouts: \<^verbatim>\<open>payments/payout.rs\<close>. The row of the journal that holds the schedule and the crash guard is
  JSON text; its encoder and decoder are parameters. A function returns, beside its result and the
  wallet, the calls it made that move funds: the preparation of a payment, its cancellation, and its
  confirmation, after which the money may be gone whatever the call reports.
\<close>

section \<open>Operations\<close>

datatype payout_error =
    Payout_wallet payment_error | Payout_storage | Balance_unavailable | Cannot_prepare | Cap_recovery | Fee_cap
  | Uncertain string | Below_amount | Payout_pending | Bad_payout policy_error | Bad_operation | Cannot_reclaim | Sagas_unavailable

datatype fund_call = Prepare | Cancel | Confirm string

record payout_codec =
  state_to_json :: "payout_state \<Rightarrow> string option"
  state_from_json :: "string \<Rightarrow> payout_state option"

definition payout_due :: "payout_policy \<Rightarrow> payout_state \<Rightarrow> int \<Rightarrow> nat \<Rightarrow> bool" where
  "payout_due p state now balance \<longleftrightarrow>
     pending state = None \<and> retry_at state \<le> now \<and> po_amount p \<le> balance
     \<and> ((case po_threshold p of Some n \<Rightarrow> n \<le> balance | None \<Rightarrow> False)
        \<or> (case po_interval p of Some n \<Rightarrow> i64_saturating_add (last_paid state) n \<le> now | None \<Rightarrow> False))"

definition save_state :: "payout_codec \<Rightarrow> tx_env \<Rightarrow> payout_state \<Rightarrow> mint_wallet \<Rightarrow> (payout_error + unit) \<times> mint_wallet" where
  "save_state j env state s =
     (case ledger_save_payout (state_to_json j) env state (mw_ledger s) of
        (Inl _, db) \<Rightarrow> (Inl Payout_storage, s\<lparr>mw_ledger := db\<rparr>)
      | (Inr _, db) \<Rightarrow> (Inr (), s\<lparr>mw_ledger := db\<rparr>))"

definition read_state :: "payout_codec \<Rightarrow> tx_env \<Rightarrow> mint_wallet \<Rightarrow> payout_error + payout_state option" where
  "read_state j env s = map_sum (\<lambda>_. Payout_storage) id (ledger_payout (state_from_json j) env (mw_ledger s))"

record send_env =
  s_prepare :: "(string \<times> nat) option"
  s_cancel :: bool
  s_guard :: tx_env
  s_confirm :: bool
  s_now :: int
  s_done :: tx_env

definition send_request ::
  "payout_codec \<Rightarrow> send_env \<Rightarrow> nat \<Rightarrow> payout_state \<Rightarrow> mint_wallet \<Rightarrow> (payout_error + unit) \<times> fund_call list \<times> mint_wallet" where
  "send_request j env max_total state s =
     (let s1 = s\<lparr>mw_needs_recovery := True\<rparr>
      in case s_prepare env of
           None \<Rightarrow> (Inl Cannot_prepare, [Prepare], s1)
         | Some (i, amount) \<Rightarrow>
             if max_total < amount then
               (if s_cancel env then (Inl Fee_cap, [Prepare, Cancel], s1\<lparr>mw_needs_recovery := False\<rparr>)
                else (Inl Cap_recovery, [Prepare, Cancel], s1))
             else (case save_state j (s_guard env) (state\<lparr>pending := Some i\<rparr>) s1 of
                     (Inl e, s2) \<Rightarrow> (Inl e, [Prepare, Cancel], s2)
                   | (Inr _, s2) \<Rightarrow>
                       if \<not> s_confirm env then (Inl (Uncertain i), [Prepare, Confirm i], s2)
                       else (case save_state j (s_done env) (state\<lparr>pending := None, last_paid := s_now env\<rparr>) s2 of
                               (Inl e, s3) \<Rightarrow> (Inl e, [Prepare, Confirm i], s3)
                             | (Inr _, s3) \<Rightarrow> (Inr (), [Prepare, Confirm i], s3\<lparr>mw_needs_recovery := False\<rparr>))))"

record payout_env =
  p_locked :: bool
  p_open :: open_env
  p_now :: int
  p_read :: tx_env
  p_first :: tx_env
  p_recover :: "cdk_error + (nat \<times> nat)"
  p_balance :: "nat option"
  p_cooldown :: tx_env
  p_send :: send_env

definition read_or_start :: "payout_codec \<Rightarrow> payout_env \<Rightarrow> mint_wallet \<Rightarrow> (payout_error + payout_state) \<times> mint_wallet" where
  "read_or_start j env s =
     (case read_state j (p_read env) s of
        Inl e \<Rightarrow> (Inl e, s)
      | Inr (Some state) \<Rightarrow> (Inr state, s)
      | Inr None \<Rightarrow>
          (let state = payout_state_default\<lparr>last_paid := p_now env\<rparr>
           in case save_state j (p_first env) state s of
                (Inl e, s') \<Rightarrow> (Inl e, s')
              | (Inr _, s') \<Rightarrow> (Inr state, s')))"

definition automatic_payout ::
  "payout_codec \<Rightarrow> payout_env \<Rightarrow> payout_policy \<Rightarrow> mint_wallet \<Rightarrow> (payout_error + unit) \<times> fund_call list \<times> mint_wallet" where
  "automatic_payout j env p s =
     (if p_locked env then (Inr (), [], s)
      else case wallet_load (p_open env) s of
        (Inl e, s1) \<Rightarrow> (Inl (Payout_wallet e), [], s1)
      | (Inr _, s1) \<Rightarrow>
          (case read_or_start j env s1 of
             (Inl e, s2) \<Rightarrow> (Inl e, [], s2)
           | (Inr state, s2) \<Rightarrow>
               if pending state \<noteq> None \<or> p_now env < retry_at state then (Inr (), [], s2)
               else (case mw_recover (p_recover env) s2 of
                       (Inl e, s3) \<Rightarrow> (Inl (Payout_wallet e), [], s3)
                     | (Inr _, s3) \<Rightarrow>
                         (case p_balance env of
                            None \<Rightarrow> (Inl Balance_unavailable, [], s3)
                          | Some balance \<Rightarrow>
                              if \<not> payout_due p state (p_now env) balance then (Inr (), [], s3)
                              else (let state' = state\<lparr>retry_at := i64_saturating_add (p_now env) 60\<rparr>
                                    in case save_state j (p_cooldown env) state' s3 of
                                         (Inl e, s4) \<Rightarrow> (Inl e, [], s4)
                                       | (Inr _, s4) \<Rightarrow>
                                           send_request j (p_send env) (wrapping_add 64 (po_amount p) (po_max_fee p)) state' s4)))))"

definition pay ::
  "externals \<Rightarrow> payout_codec \<Rightarrow> payout_env \<Rightarrow> string \<Rightarrow> string \<Rightarrow> nat option \<Rightarrow> nat \<Rightarrow> mint_wallet
     \<Rightarrow> (payout_error + unit) \<times> fund_call list \<times> mint_wallet" where
  "pay x j env mint encoded amount max_total s =
     (case validate_request x encoded mint amount of
        Inl e \<Rightarrow> (Inl (Bad_payout e), [], s)
      | Inr (request, amount) \<Rightarrow>
          if max_total < amount then (Inl Below_amount, [], s)
          else (case wallet_open (p_open env) s of
                  (Inl e, s1) \<Rightarrow> (Inl (Payout_wallet e), [], s1)
                | (Inr _, s1) \<Rightarrow>
                    (case mw_recover (p_recover env) s1 of
                       (Inl e, s2) \<Rightarrow> (Inl (Payout_wallet e), [], s2)
                     | (Inr _, s2) \<Rightarrow>
                         (case read_state j (p_read env) s2 of
                            Inl e \<Rightarrow> (Inl e, [], s2)
                          | Inr row \<Rightarrow>
                              (let state = (case row of Some st \<Rightarrow> st | None \<Rightarrow> payout_state_default)
                               in if pending state \<noteq> None then (Inl Payout_pending, [], s2)
                                  else send_request j (p_send env) max_total state s2)))))"

text \<open>\<^verbatim>\<open>wallet pending\<close>: \<open>g_saga\<close> answers whether the wallet still has the operation's saga, or fails.\<close>

record pending_env =
  g_open :: open_env
  g_recover :: "cdk_error + (nat \<times> nat)"
  g_operation_ok :: "string \<Rightarrow> bool"
  g_revoke :: bool
  g_read :: tx_env
  g_saga :: "string \<Rightarrow> bool option"
  g_now :: int
  g_save :: tx_env
  g_sends :: "string list option"

definition resolve_pending :: "payout_codec \<Rightarrow> pending_env \<Rightarrow> payout_state \<Rightarrow> mint_wallet \<Rightarrow> (payout_error + payout_state) \<times> mint_wallet" where
  "resolve_pending j env state s =
     (case pending state of
        None \<Rightarrow> (Inr state, s)
      | Some i \<Rightarrow>
          if \<not> g_operation_ok env i then (Inl Bad_operation, s)
          else (case g_saga env i of
                  None \<Rightarrow> (Inl Sagas_unavailable, s)
                | Some True \<Rightarrow> (Inr state, s)
                | Some False \<Rightarrow>
                    (let state' = \<lparr>last_paid = g_now env, retry_at = i64_saturating_add (g_now env) 60, pending = None\<rparr>
                     in case save_state j (g_save env) state' s of
                          (Inl e, s') \<Rightarrow> (Inl e, s')
                        | (Inr _, s') \<Rightarrow> (Inr state', s'))))"

definition pending_lines :: "payout_state \<Rightarrow> string list \<Rightarrow> string list" where
  "pending_lines state sends =
     (case pending state of Some i \<Rightarrow> [i @ '' payout unresolved; automatic payouts paused''] | None \<Rightarrow> [])
     @ map (\<lambda>i. i @ '' unclaimed send (reclaimable if still unspent)'') sends"

definition wallet_pending ::
  "payout_codec \<Rightarrow> pending_env \<Rightarrow> string option \<Rightarrow> mint_wallet \<Rightarrow> (payout_error + string list) \<times> mint_wallet" where
  "wallet_pending j env reclaim s =
     (case wallet_open (g_open env) s of
        (Inl e, s1) \<Rightarrow> (Inl (Payout_wallet e), s1)
      | (Inr _, s1) \<Rightarrow>
          (case mw_recover (g_recover env) s1 of
             (Inl e, s2) \<Rightarrow> (Inl (Payout_wallet e), s2)
           | (Inr _, s2) \<Rightarrow>
               (case bind_result (case reclaim of
                        None \<Rightarrow> Inr ()
                      | Some i \<Rightarrow> bind_result (ensure (g_operation_ok env i) Bad_operation) (\<lambda>_. ensure (g_revoke env) Cannot_reclaim))
                      (\<lambda>_. read_state j (g_read env) s2) of
                  Inl e \<Rightarrow> (Inl e, s2)
                | Inr row \<Rightarrow>
                    (case resolve_pending j env (case row of Some st \<Rightarrow> st | None \<Rightarrow> payout_state_default) s2 of
                       (Inl e, s3) \<Rightarrow> (Inl e, s3)
                     | (Inr state, s3) \<Rightarrow>
                         (case g_sends env of
                            None \<Rightarrow> (Inl Sagas_unavailable, s3)
                          | Some sends \<Rightarrow> (Inr (pending_lines state sends), s3))))))"

section \<open>The row\<close>

text \<open>What is relied on of \<^verbatim>\<open>serde_json\<close>: a row that was written reads back as the state it holds.\<close>

definition codec_ok :: "payout_codec \<Rightarrow> bool" where
  "codec_ok j \<longleftrightarrow> (\<forall>state v. state_to_json j state = Some v \<longrightarrow> state_from_json j v = Some state)"

definition row :: "payout_codec \<Rightarrow> mint_wallet \<Rightarrow> payout_state option" where
  "row j s = Option.bind (payout_v1 (mw_ledger s)) (state_from_json j)"

lemma ledger_open_row: "ledger_open env db = (r, db') \<Longrightarrow> payout_v1 db' = payout_v1 db"
  by (auto simp: ledger_open_def write_tx_def ledger_open_body_def split: if_splits sum.splits prod.splits option.splits)

lemma wallet_open_row: "wallet_open env s = (r, s') \<Longrightarrow> payout_v1 (mw_ledger s') = payout_v1 (mw_ledger s)"
  using ledger_open_row [of "o_ledger env" "mw_ledger s"]
  by (cases "ledger_open (o_ledger env) (mw_ledger s)")
    (auto simp: wallet_open_def blocking_def split: if_splits sum.splits)

lemma wallet_load_row: "wallet_load env s = (r, s') \<Longrightarrow> row j s' = row j s"
  by (auto simp: wallet_load_def row_def split: if_splits dest: wallet_open_row)

lemma mw_recover_row: "mw_recover rep s = (r, s') \<Longrightarrow> row j s' = row j s"
  by (auto simp: row_def dest: mw_recover_keeps)

lemma save_state_row:
  assumes "codec_ok j" "save_state j env state s = (r, s')"
  shows "row j s' = row j s \<or> row j s' = Some state" "r = Inr () \<Longrightarrow> row j s' = Some state"
  using assms
  by (auto simp: save_state_def row_def ledger_save_payout_def blocking_def write_tx_def codec_ok_def
      split: option.splits if_splits sum.splits prod.splits)

lemma read_state_Some: "read_state j env s = Inr v \<Longrightarrow> row j s = Some st \<Longrightarrow> v = Some st"
  by (auto simp: read_state_def ledger_payout_def row_def bind_eq_Some_conv split: if_splits option.splits)

lemma read_state_Inr: "read_state j env s = Inr (Some st) \<Longrightarrow> row j s = Some st"
  by (cases "payout_v1 (mw_ledger s)"; cases "row j s")
    (auto simp: read_state_def ledger_payout_def row_def split: if_splits)

text \<open>Sending: the guard is in the row before a payment is confirmed, and the retry time never changes.\<close>

lemma send_request_row:
  assumes "codec_ok j" "send_request j env m state s = (r, calls, s')"
  shows "Confirm i \<in> set calls \<Longrightarrow> \<not> s_confirm env \<Longrightarrow> \<exists>st. row j s' = Some st \<and> pending st = Some i"
    and "row j s = Some state \<Longrightarrow> \<exists>st. row j s' = Some st \<and> retry_at st = retry_at state"
    and "Confirm i \<in> set calls \<Longrightarrow> \<exists>amount. s_prepare env = Some (i, amount) \<and> amount \<le> m"
proof -
  have flag: "row j (t\<lparr>mw_needs_recovery := b\<rparr>) = row j t" for t b by (simp add: row_def)
  show "Confirm i \<in> set calls \<Longrightarrow> \<not> s_confirm env \<Longrightarrow> \<exists>st. row j s' = Some st \<and> pending st = Some i"
    using assms(2) by (auto simp: send_request_def Let_def split: option.splits if_splits sum.splits prod.splits
        dest!: save_state_row(2) [OF assms(1)])
  show "Confirm i \<in> set calls \<Longrightarrow> \<exists>amount. s_prepare env = Some (i, amount) \<and> amount \<le> m"
    using assms(2) by (auto simp: send_request_def Let_def split: option.splits if_splits sum.splits prod.splits)
  assume r: "row j s = Some state"
  show "\<exists>st. row j s' = Some st \<and> retry_at st = retry_at state"
    using assms(2) r by (auto simp: send_request_def Let_def flag split: option.splits if_splits sum.splits prod.splits
        dest!: save_state_row(1) [OF assms(1)])
qed

section \<open>The guard\<close>

lemma read_or_start_Some: "read_or_start j env s = (r, s') \<Longrightarrow> row j s = Some st \<Longrightarrow> s' = s \<and> (\<forall>st'. r = Inr st' \<longrightarrow> st' = st)"
  by (auto simp: read_or_start_def split: sum.splits option.splits dest: read_state_Some)

lemma read_or_start_Inr:
  assumes "codec_ok j" "read_or_start j env s = (Inr state, s')"
  shows "row j s' = Some state"
  using assms(2) by (auto simp: read_or_start_def Let_def split: sum.splits option.splits prod.splits
      dest: read_state_Inr save_state_row(2) [OF assms(1)])

lemma read_or_start_state:
  assumes "read_or_start j env s = (Inr state, s')"
  shows "state = (case row j s of Some st \<Rightarrow> st | None \<Rightarrow> payout_state_default\<lparr>last_paid := p_now env\<rparr>)"
proof (cases "row j s")
  case None
  then show ?thesis using assms by (auto simp: read_or_start_def Let_def split: sum.splits option.splits prod.splits dest: read_state_Inr)
next
  case (Some st)
  then show ?thesis using read_or_start_Some [OF assms] by simp
qed

text \<open>While the row has a guard, or before its retry time, an automatic payout leaves funds and row alone.\<close>

lemma automatic_payout_waits:
  assumes "automatic_payout j env p s = (r, calls, s')" "row j s = Some st" "pending st \<noteq> None \<or> p_now env < retry_at st"
  shows "calls = [] \<and> row j s' = Some st"
proof -
  obtain r1 s1 where l: "wallet_load (p_open env) s = (r1, s1)" by fastforce
  obtain r2 s2 where q: "read_or_start j env s1 = (r2, s2)" by fastforce
  have k: "row j s1 = Some st" using wallet_load_row [OF l] assms(2) by simp
  note w = read_or_start_Some [OF q k]
  have "s' = s \<or> s' = s1" "calls = []"
    using assms(1,3) l q w by (auto simp: automatic_payout_def split: if_splits sum.splits)
  then show ?thesis using k assms(2) by auto
qed

text \<open>An automatic payout that moves funds was due, by a row without a guard, and saved the next retry time before.\<close>

lemma automatic_payout_sends:
  assumes "codec_ok j" "automatic_payout j env p s = (r, calls, s')" "calls \<noteq> []"
  obtains state balance s4 where "state = (case row j s of Some st \<Rightarrow> st | None \<Rightarrow> payout_state_default\<lparr>last_paid := p_now env\<rparr>)"
    "p_balance env = Some balance"
    "payout_due p state (p_now env) balance" "row j s4 = Some (state\<lparr>retry_at := i64_saturating_add (p_now env) 60\<rparr>)"
    "send_request j (p_send env) (wrapping_add 64 (po_amount p) (po_max_fee p))
       (state\<lparr>retry_at := i64_saturating_add (p_now env) 60\<rparr>) s4 = (r, calls, s')"
proof -
  obtain r1 s1 where l: "wallet_load (p_open env) s = (r1, s1)" by fastforce
  obtain r2 s2 where q: "read_or_start j env s1 = (r2, s2)" by fastforce
  obtain r3 s3 where v: "mw_recover (p_recover env) s2 = (r3, s3)" by fastforce
  obtain state balance s4 where c: "r2 = Inr state" "p_balance env = Some balance" "payout_due p state (p_now env) balance"
    "save_state j (p_cooldown env) (state\<lparr>retry_at := i64_saturating_add (p_now env) 60\<rparr>) s3 = (Inr (), s4)"
    "send_request j (p_send env) (wrapping_add 64 (po_amount p) (po_max_fee p))
       (state\<lparr>retry_at := i64_saturating_add (p_now env) 60\<rparr>) s4 = (r, calls, s')"
    using assms(2,3) l q v by (auto simp: automatic_payout_def Let_def split: if_splits sum.splits option.splits prod.splits)
  have "state = (case row j s of Some st \<Rightarrow> st | None \<Rightarrow> payout_state_default\<lparr>last_paid := p_now env\<rparr>)"
    using read_or_start_state [OF q [unfolded c(1)]] wallet_load_row [OF l, of j] by simp
  then show ?thesis by (rule that [OF _ c(2,3) save_state_row(2) [OF assms(1) c(4) refl] c(5)])
qed

text \<open>The retry time only moves forward: an automatic payout that finds it in the past sets it a minute ahead.\<close>

lemma automatic_payout_retry:
  assumes "codec_ok j" "automatic_payout j env p s = (r, calls, s')" "row j s = Some st"
  shows "\<exists>st'. row j s' = Some st' \<and> (retry_at st' = retry_at st
    \<or> retry_at st \<le> p_now env \<and> retry_at st' = i64_saturating_add (p_now env) 60)"
proof (cases "pending st \<noteq> None \<or> p_now env < retry_at st")
  case True
  then show ?thesis using automatic_payout_waits [OF assms(2,3)] by blast
next
  case False
  let ?st = "st\<lparr>retry_at := i64_saturating_add (p_now env) 60\<rparr>"
  obtain r1 s1 where l: "wallet_load (p_open env) s = (r1, s1)" by fastforce
  obtain r2 s2 where q: "read_or_start j env s1 = (r2, s2)" by fastforce
  obtain r3 s3 where v: "mw_recover (p_recover env) s2 = (r3, s3)" by fastforce
  obtain r4 s4 where c: "save_state j (p_cooldown env) ?st s3 = (r4, s4)" by fastforce
  have k1: "row j s1 = Some st" using wallet_load_row [OF l] assms(3) by simp
  then have k: "s2 = s1" "row j s3 = Some st" "\<And>state. r2 = Inr state \<Longrightarrow> state = st"
    using read_or_start_Some [OF q k1] mw_recover_row [OF v] by auto
  have k4: "row j s4 = Some st \<or> row j s4 = Some ?st" "r4 = Inr () \<Longrightarrow> row j s4 = Some ?st"
    using save_state_row [OF assms(1) c] k(2) by auto
  consider "s' \<in> {s, s1, s2, s3, s4}"
    | "r4 = Inr ()" "send_request j (p_send env) (wrapping_add 64 (po_amount p) (po_max_fee p)) ?st s4 = (r, calls, s')"
    using assms(2) l q v c k(3)
    by (auto simp: automatic_payout_def Let_def split: if_splits sum.splits option.splits prod.splits)
  then show ?thesis
  proof cases
    case 1
    then show ?thesis using assms(3) k1 k(1,2) k4(1) False by auto
  next
    case 2
    then show ?thesis using send_request_row(2) [OF assms(1) 2(2) k4(2)] False by auto
  qed
qed

lemma pay_cases:
  assumes "pay x j env mint encoded amount m s = (r, calls, s')"
  obtains "calls = []" "row j s' = row j s"
  | state s2 where "\<forall>st. row j s = Some st \<longrightarrow> st = state" "pending state = None" "row j s2 = row j s"
      "send_request j (p_send env) m state s2 = (r, calls, s')"
proof -
  obtain r1 s1 where l: "wallet_open (p_open env) s = (r1, s1)" by fastforce
  obtain r2 s2 where v: "mw_recover (p_recover env) s1 = (r2, s2)" by fastforce
  have k: "row j s1 = row j s" "row j s2 = row j s"
    using wallet_open_row [OF l] mw_recover_row [OF v, of j] by (simp_all add: row_def)
  consider "calls = []" "s' = s \<or> s' = s1 \<or> s' = s2"
    | w state where "read_state j (p_read env) s2 = Inr w" "state = (case w of Some st \<Rightarrow> st | None \<Rightarrow> payout_state_default)"
      "pending state = None" "send_request j (p_send env) m state s2 = (r, calls, s')"
    using assms l v by (auto simp: pay_def Let_def split: if_splits sum.splits)
  then show ?thesis
  proof cases
    case 1
    then show ?thesis using that(1) k by auto
  next
    case 2
    then show ?thesis using that(2) [OF _ 2(3) k(2) 2(4)] read_state_Some [OF 2(1)] k(2) by auto
  qed
qed

lemma blocking_row:
  assumes "blocking env err (write_tx env err body db) = (r, db')" "\<And>a db1. body db = Inr (a, db1) \<Longrightarrow> payout_v1 db1 = payout_v1 db"
  shows "payout_v1 db' = payout_v1 db"
  using blocking_write_tx_keeps [OF assms(1), of "\<lambda>d. payout_v1 d = payout_v1 db"] assms(2) by blast

lemma ledger_reserve_row: "ledger_reserve env i site price db = (r, db') \<Longrightarrow> payout_v1 db' = payout_v1 db"
  unfolding ledger_reserve_def by (erule blocking_row) (auto simp: reserve_body_def split: if_splits option.splits)

lemma ledger_claim_row: "ledger_claim env i db = (r, db') \<Longrightarrow> payout_v1 db' = payout_v1 db"
  unfolding ledger_claim_def by (erule blocking_row) (auto simp: claim_body_def split: if_splits option.splits bool.splits)

lemma mw_claim_row: "mw_claim env i s = (r, s') \<Longrightarrow> payout_v1 (mw_ledger s') = payout_v1 (mw_ledger s)"
  by (auto simp: mw_claim_def split: sum.splits prod.splits dest: ledger_claim_row)

lemma admit_row:
  assumes "admit env site p i s = (r, s')"
  shows "payout_v1 (mw_ledger s') = payout_v1 (mw_ledger s)"
proof -
  obtain v db where v: "ledger_reserve (c_reserve env) i site (pp_price p) (mw_ledger s) = (v, db)" by fastforce
  have k: "payout_v1 db = payout_v1 (mw_ledger s)" by (rule ledger_reserve_row [OF v])
  have "mw_ledger s' = db \<or> (\<exists>t u. mw_ledger t = db \<and> mw_claim (c_claim env) i t = (u, s'))"
    using assms v by (auto simp: admit_def redeem_def Let_def split: sum.splits reservation.splits if_splits)
  then show ?thesis using k mw_claim_row by auto
qed

lemma collect_wallet_row:
  assumes "collect_wallet x env site p tok s = (r, s')"
  shows "row j s' = row j s"
proof -
  obtain r1 s1 r2 s2 where l: "wallet_load (c_open env) s = (r1, s1)" "mw_recover (c_recover env) s1 = (r2, s2)" by fastforce
  have k: "row j s1 = row j s" "row j s2 = row j s" using wallet_load_row [OF l(1)] mw_recover_row [OF l(2)] by simp_all
  define n where "n = check_net env p tok"
  consider "s' = s \<or> s' = s1 \<or> s' = s2" | "admit env site p (token_id (cashu_sha256 x) tok) s2 = (r, s')"
    using assms l by (cases n) (auto simp: collect_wallet_def simp flip: n_def split: sum.splits if_splits)
  then show ?thesis
    by cases (use k in \<open>auto simp: row_def dest: admit_row\<close>)
qed

lemma resolve_pending_row:
  assumes "codec_ok j" "resolve_pending j env state s = (r, s')" "row j s = Some state"
  shows "row j s' = Some state \<or> (\<exists>i. pending state = Some i \<and> g_saga env i = Some False)
    \<and> row j s' = Some \<lparr>last_paid = g_now env, retry_at = i64_saturating_add (g_now env) 60, pending = None\<rparr>"
  using assms(2,3) by (auto simp: resolve_pending_def Let_def split: option.splits if_splits bool.splits sum.splits prod.splits
      dest: save_state_row [OF assms(1)])

lemma wallet_pending_row:
  assumes "codec_ok j" "wallet_pending j env reclaim s = (r, s')" "row j s = Some state"
  shows "row j s' = Some state \<or> (\<exists>i. pending state = Some i \<and> g_saga env i = Some False)
    \<and> row j s' = Some \<lparr>last_paid = g_now env, retry_at = i64_saturating_add (g_now env) 60, pending = None\<rparr>"
proof -
  obtain r1 s1 where l: "wallet_open (g_open env) s = (r1, s1)" by fastforce
  obtain r2 s2 where v: "mw_recover (g_recover env) s1 = (r2, s2)" by fastforce
  have k: "row j s1 = Some state" "row j s2 = Some state"
    using wallet_open_row [OF l] mw_recover_row [OF v, of j] assms(3) by (simp_all add: row_def)
  define q where "q = bind_result (case reclaim of None \<Rightarrow> Inr ()
      | Some i \<Rightarrow> bind_result (ensure (g_operation_ok env i) Bad_operation) (\<lambda>_. ensure (g_revoke env) Cannot_reclaim))
      (\<lambda>_. read_state j (g_read env) s2)"
  consider "s' = s \<or> s' = s1 \<or> s' = s2"
    | w r3 where "q = Inr w" "resolve_pending j env (case w of Some st \<Rightarrow> st | None \<Rightarrow> payout_state_default) s2 = (r3, s')"
    using assms(2) l v by (cases q) (auto simp: wallet_pending_def simp flip: q_def split: sum.splits prod.splits option.splits)
  then show ?thesis
  proof cases
    case 1
    then show ?thesis using k assms(3) by auto
  next
    case 2
    then have "w = Some state" using read_state_Some [of j "g_read env" s2 w state] k(2) by (auto simp: q_def)
    then show ?thesis using resolve_pending_row [OF assms(1) _ k(2)] 2(2) by auto
  qed
qed

section \<open>Runs of a wallet\<close>

text \<open>
  The operations of a mint's wallet as a step relation. The second part of the state remembers the
  payment that was confirmed without a known outcome: the call failed, or the process ended in it. It
  is resolved when the wallet has completed or undone the operation and dropped its saga.
\<close>

fun first_confirm :: "fund_call list \<Rightarrow> string option" where
  "first_confirm [] = None"
| "first_confirm (Confirm i # calls) = Some i"
| "first_confirm (_ # calls) = first_confirm calls"

definition after_calls :: "fund_call list \<Rightarrow> bool \<Rightarrow> string option \<Rightarrow> string option" where
  "after_calls calls confirmed unknown =
     (case first_confirm calls of Some i \<Rightarrow> if confirmed then None else Some i | None \<Rightarrow> unknown)"

inductive payout_step :: "externals \<Rightarrow> cashu_ext \<Rightarrow> payout_codec \<Rightarrow> mint_wallet \<times> string option \<Rightarrow> mint_wallet \<times> string option \<Rightarrow> bool"
  for x :: externals and c :: cashu_ext and j :: payout_codec where
  step_automatic: "automatic_payout j env p s = (r, calls, s') \<Longrightarrow>
    payout_step x c j (s, u) (s', after_calls calls (s_confirm (p_send env)) u)"
| step_pay: "pay x j env mint encoded amount m s = (r, calls, s') \<Longrightarrow>
    payout_step x c j (s, u) (s', after_calls calls (s_confirm (p_send env)) u)"
| step_pending: "wallet_pending j env reclaim s = (r, s') \<Longrightarrow>
    payout_step x c j (s, u) (s', if \<exists>i. u = Some i \<and> g_saga env i = Some False then None else u)"
| step_collect: "collect_wallet c env site p tok s = (r, s') \<Longrightarrow> payout_step x c j (s, u) (s', u)"
| step_restart: "payout_step x c j (s, u) (s\<lparr>mw_loaded := False, mw_needs_recovery := False, mw_deposit_cursor := None\<rparr>, u)"

definition guarded :: "payout_codec \<Rightarrow> mint_wallet \<times> string option \<Rightarrow> bool" where
  "guarded j = (\<lambda>(s, u). codec_ok j \<and> (\<forall>i. u = Some i \<longrightarrow> (\<exists>st. row j s = Some st \<and> pending st = Some i)))"

lemma first_confirm_in: "first_confirm calls = Some i \<Longrightarrow> Confirm i \<in> set calls"
  by (induction calls rule: first_confirm.induct) auto

lemma after_calls_Nil [simp]: "after_calls [] b u = u"
  by (simp add: after_calls_def)

lemma after_calls_confirm: "after_calls calls b None = Some i \<Longrightarrow> Confirm i \<in> set calls \<and> \<not> b"
  by (auto simp: after_calls_def split: option.splits if_splits dest: first_confirm_in)

lemma pay_waits:
  assumes "pay x j env mint encoded amount m s = (r, calls, s')" "row j s = Some st" "pending st \<noteq> None"
  shows "calls = [] \<and> row j s' = Some st"
  by (rule pay_cases [OF assms(1)]) (use assms(2,3) in auto)

lemma sends_guarded:
  assumes "codec_ok j" "send_request j env m state t = (r, calls, s')"
  shows "guarded j (s', after_calls calls (s_confirm env) None)"
  using send_request_row(1) [OF assms] assms(1) by (auto simp: guarded_def dest!: after_calls_confirm)

lemma payout_step_guarded:
  assumes "payout_step x c j a b" "guarded j a"
  shows "guarded j b"
  using assms
proof (cases rule: payout_step.cases)
  case (step_automatic env p s r calls s' u)
  have ok: "codec_ok j" using assms(2) step_automatic(1) by (simp add: guarded_def)
  show ?thesis
  proof (cases u)
    case None
    show ?thesis
    proof (cases "calls = []")
      case False
      then show ?thesis using automatic_payout_sends [OF ok step_automatic(3)] sends_guarded [OF ok] None step_automatic(2) by metis
    qed (simp add: step_automatic(2) None guarded_def ok)
  next
    case (Some i)
    then show ?thesis using automatic_payout_waits [OF step_automatic(3)] assms(2) step_automatic(1,2) by (fastforce simp: guarded_def)
  qed
next
  case (step_pay env mint encoded amount m s r calls s' u)
  have ok: "codec_ok j" using assms(2) step_pay(1) by (simp add: guarded_def)
  show ?thesis
  proof (cases u)
    case None
    show ?thesis
      by (rule pay_cases [OF step_pay(3)]) (use sends_guarded [OF ok] None step_pay(2) ok in \<open>auto simp: guarded_def\<close>)
  next
    case (Some i)
    then show ?thesis using pay_waits [OF step_pay(3)] assms(2) step_pay(1,2) by (fastforce simp: guarded_def)
  qed
next
  case (step_pending env reclaim s r s' u)
  then show ?thesis
    using wallet_pending_row [OF _ step_pending(3)] assms(2) by (auto simp: guarded_def split: if_splits)
next
  case (step_collect env site p tok s r s' u)
  then show ?thesis using collect_wallet_row [OF step_collect(3)] assms(2) by (auto simp: guarded_def)
next
  case (step_restart s u)
  then show ?thesis using assms(2) by (auto simp: guarded_def row_def)
qed

interpretation payout_run: step_invariant "payout_step x c j" "guarded j"
  for x :: externals and c :: cashu_ext and j :: payout_codec
  by unfold_locales (rule payout_step_guarded)

section \<open>Properties of payouts\<close>

text \<open>
  C10: No payout is repeated while the fate of an earlier one is unknown. From a wallet with no payment
  under way, after any sequence of automatic payouts, operator payments, recoveries, collected
  payments and restarts, with whatever failures of wallet and storage: as long as a confirmed payment
  has no known outcome, neither an automatic payout nor an operator's payment prepares or confirms
  another. Relied on: the stored row reads back as it was written.
\<close>

theorem payout_never_repeated:
  assumes "codec_ok j" "(payout_step x c j)\<^sup>*\<^sup>* (s0, None) (s, Some i)"
    and "automatic_payout j env p s = (r, calls, s') \<or> pay x j env mint encoded amount m s = (r, calls, s')"
  shows "calls = []"
proof -
  have "guarded j (s, Some i)"
    by (rule payout_run.reach_inv [OF assms(2)]) (simp add: guarded_def assms(1))
  then obtain st where "row j s = Some st" "pending st = Some i" by (auto simp: guarded_def)
  then show ?thesis using assms(3) automatic_payout_waits [of j env p s] pay_waits [of x j env mint encoded amount m s] by auto
qed

text \<open>
  C28: An automatic payout keeps to its policy. For a policy whose amount and fee cap have a sum that fits 64
  bits, as the parser ensures, a payment is only confirmed when no other is pending, the retry time has
  come, the balance covers the amount, and the threshold is reached or the interval has passed since the
  last payment; its total with fees is at most the amount plus the configured fee. In a wallet without a
  stored schedule the interval counts from now, so that it cannot trigger the first payout at once.
\<close>

theorem payout_within_cap:
  assumes "codec_ok j" "automatic_payout j env p s = (r, calls, s')" "Confirm i \<in> set calls"
    and "po_amount p + po_max_fee p < 2 ^ 64"
  shows "\<exists>total balance state. s_prepare (p_send env) = Some (i, total) \<and> total \<le> po_amount p + po_max_fee p
     \<and> p_balance env = Some balance \<and> po_amount p \<le> balance
     \<and> state = (case row j s of Some st \<Rightarrow> st | None \<Rightarrow> \<lparr>last_paid = p_now env, retry_at = 0, pending = None\<rparr>)
     \<and> pending state = None \<and> retry_at state \<le> p_now env
     \<and> ((\<exists>n. po_threshold p = Some n \<and> n \<le> balance)
        \<or> (\<exists>n. po_interval p = Some n \<and> i64_saturating_add (last_paid state) n \<le> p_now env))"
proof -
  have "calls \<noteq> []" using assms(3) by auto
  then obtain state balance s4 where c: "state = (case row j s of Some st \<Rightarrow> st | None \<Rightarrow> payout_state_default\<lparr>last_paid := p_now env\<rparr>)"
    "p_balance env = Some balance" "payout_due p state (p_now env) balance"
    "send_request j (p_send env) (wrapping_add 64 (po_amount p) (po_max_fee p))
       (state\<lparr>retry_at := i64_saturating_add (p_now env) 60\<rparr>) s4 = (r, calls, s')"
    using automatic_payout_sends [OF assms(1,2)] by metis
  have "wrapping_add 64 (po_amount p) (po_max_fee p) = po_amount p + po_max_fee p"
    by (rule wrapping_add_exact [OF assms(4)])
  then obtain total where "s_prepare (p_send env) = Some (i, total)" "total \<le> po_amount p + po_max_fee p"
    using send_request_row(3) [OF assms(1) c(4) assms(3)] by auto
  moreover have "state = (case row j s of Some st \<Rightarrow> st | None \<Rightarrow> \<lparr>last_paid = p_now env, retry_at = 0, pending = None\<rparr>)"
    by (simp add: c(1) payout_state_default_def split: option.split)
  ultimately show ?thesis
    using c(2,3) unfolding payout_due_def by (intro exI conjI) (auto split: option.splits)
qed

section \<open>Runs of all wallets\<close>

datatype wallet_op =
    Collect_op collect_env "await option" string payment_policy string
  | Automatic_op payout_env payout_policy
  | Pay_op payout_env string string "nat option" nat
  | Pending_op pending_env string "string option"
  | Restart_op

datatype wallet_result = Token_admitted string string | Token_refused

fun wallet_step :: "externals \<Rightarrow> cashu_ext \<Rightarrow> payout_codec \<Rightarrow> payments \<Rightarrow> wallet_op \<Rightarrow> wallet_result \<times> payments" where
  "wallet_step x c j ps (Collect_op env timeout site p encoded) =
     (case collect c env timeout site p encoded ps of
        (Inr _, ps') \<Rightarrow> (case payment_id c p encoded of Some i \<Rightarrow> Token_admitted (pp_mint p) i | None \<Rightarrow> Token_refused, ps')
      | (Inl _, ps') \<Rightarrow> (Token_refused, ps'))"
| "wallet_step x c j ps (Automatic_op env p) =
     (case automatic_payout j env p (entry ps (po_mint p)) of (_, _, s) \<Rightarrow> (Token_refused, fmupd (po_mint p) s ps))"
| "wallet_step x c j ps (Pay_op env mint encoded amount m) =
     (case pay x j env mint encoded amount m (entry ps mint) of (_, _, s) \<Rightarrow> (Token_refused, fmupd mint s ps))"
| "wallet_step x c j ps (Pending_op env mint reclaim) =
     (case wallet_pending j env reclaim (entry ps mint) of (_, s) \<Rightarrow> (Token_refused, fmupd mint s ps))"
| "wallet_step x c j ps Restart_op = (Token_refused, restart_payments ps)"

definition claims_kept :: "mint_wallet \<Rightarrow> mint_wallet \<Rightarrow> bool" where
  "claims_kept s s' \<longleftrightarrow> payments_v1 (mw_ledger s') = payments_v1 (mw_ledger s)"

lemma claims_kept_trans: "claims_kept s t \<Longrightarrow> claims_kept t u \<Longrightarrow> claims_kept s u"
  by (simp add: claims_kept_def)

lemma save_state_claims: "save_state j env state s = (r, s') \<Longrightarrow> claims_kept s s'"
  by (auto simp: save_state_def claims_kept_def split: sum.splits prod.splits dest: ledger_save_payout_keeps)

lemma load_claims: "wallet_load env s = (r, s') \<Longrightarrow> claims_kept s s'" "wallet_open env s = (r, s') \<Longrightarrow> claims_kept s s'"
  "mw_recover rep s = (q, s') \<Longrightarrow> claims_kept s s'"
  by (auto simp: claims_kept_def dest: wallet_load_keeps wallet_open_keeps mw_recover_keeps)

lemma send_request_claims: "send_request j env m state s = (r, calls, s') \<Longrightarrow> claims_kept s s'"
  by (auto simp: send_request_def Let_def claims_kept_def split: option.splits if_splits sum.splits prod.splits
      dest!: save_state_claims)

lemma read_or_start_claims: "read_or_start j env s = (r, s') \<Longrightarrow> claims_kept s s'"
  by (auto simp: read_or_start_def Let_def split: option.splits sum.splits prod.splits dest: save_state_claims)
    (auto simp: claims_kept_def)

lemmas claims_rules = save_state_claims load_claims send_request_claims read_or_start_claims

lemma automatic_payout_claims: "automatic_payout j env p s = (r, calls, s') \<Longrightarrow> claims_kept s s'"
  by (auto simp: automatic_payout_def Let_def split: option.splits if_splits sum.splits prod.splits
      dest!: claims_rules) (auto simp: claims_kept_def)

lemma pay_claims: "pay x j env mint encoded amount m s = (r, calls, s') \<Longrightarrow> claims_kept s s'"
  by (auto simp: pay_def Let_def split: if_splits sum.splits prod.splits dest!: claims_rules) (auto simp: claims_kept_def)

lemma resolve_pending_claims: "resolve_pending j env state s = (r, s') \<Longrightarrow> claims_kept s s'"
  by (auto simp: resolve_pending_def Let_def split: option.splits if_splits sum.splits prod.splits bool.splits
      dest!: claims_rules) (auto simp: claims_kept_def)

lemma wallet_pending_claims: "wallet_pending j env reclaim s = (r, s') \<Longrightarrow> claims_kept s s'"
  by (auto simp: wallet_pending_def split: option.splits sum.splits prod.splits dest!: claims_rules resolve_pending_claims)
    (auto simp: claims_kept_def)

definition wallet_taken :: "payments \<Rightarrow> string \<times> string \<Rightarrow> bool" where
  "wallet_taken ps = (\<lambda>(mint, i). claimed_in (mw_ledger (entry ps mint)) i)"

definition wallet_grants :: "wallet_op \<Rightarrow> wallet_result \<Rightarrow> string \<times> string \<Rightarrow> bool" where
  "wallet_grants opn r = (\<lambda>(mint, i). r = Token_admitted mint i)"

lemma kept_claimed: "claims_kept s s' \<Longrightarrow> claimed_in (mw_ledger s') i = claimed_in (mw_ledger s) i"
  by (simp add: claims_kept_def claimed_in_def)

lemma entry_restart: "claimed_in (mw_ledger (entry (restart_payments ps) mint)) i = claimed_in (mw_ledger (entry ps mint)) i"
  by (simp add: entry_def restart_payments_def split: option.splits)

lemma wallet_step_claims:
  assumes "wallet_step x c j ps opn = (r, ps')"
  shows "claims i (r = Token_admitted mint i) (entry ps mint) (entry ps' mint)"
proof (cases opn)
  case (Collect_op env timeout site p encoded)
  obtain q where q: "collect c env timeout site p encoded ps = (q, ps')" using assms by (auto simp: Collect_op split: prod.splits sum.splits)
  have "r = Token_admitted mint i \<Longrightarrow> q = Inr () \<and> mint = pp_mint p \<and> payment_id c p encoded = Some i"
    using assms q by (auto simp: Collect_op split: sum.splits option.splits)
  then show ?thesis using collect_claims [OF q, of i mint] by (auto simp: claims_def)
next
  case (Automatic_op env p)
  then show ?thesis using assms
    by (auto simp: claims_def split: prod.splits dest!: automatic_payout_claims kept_claimed)
next
  case (Pay_op env mint' encoded amount m)
  then show ?thesis using assms by (auto simp: claims_def split: prod.splits dest!: pay_claims kept_claimed)
next
  case (Pending_op env mint' reclaim)
  then show ?thesis using assms by (auto simp: claims_def split: prod.splits dest!: wallet_pending_claims kept_claimed)
next
  case Restart_op
  then show ?thesis using assms by (auto simp: claims_def entry_restart)
qed

interpretation wallet_run: single_use "wallet_step x c j" wallet_grants wallet_taken "\<lambda>_ _. True" "\<lambda>_ _. True"
  for x :: externals and c :: cashu_ext and j :: payout_codec
proof
  fix ps opn r ps' and k :: "string \<times> string"
  assume s: "wallet_step x c j ps opn = (r, ps')"
  obtain mint i where k: "k = (mint, i)" by fastforce
  note w = wallet_step_claims [OF s, of i mint, unfolded claims_def]
  show "wallet_taken ps' k" if "wallet_taken ps k" using w that by (simp add: wallet_taken_def k)
  assume "wallet_grants opn r k"
  then show "\<not> wallet_taken ps k" "wallet_taken ps' k" using w by (simp_all add: wallet_taken_def wallet_grants_def k)
qed simp

text \<open>
  C3: A Cashu token buys one request. Over all wallets of a process and its successors, whatever the mint
  and the wallet library answer, whichever calls fail, time out or are cut off by a crash, and with
  payouts in between: the secrets of a token are admitted at most once per mint, however the token is
  encoded and for whichever sites and prices it is presented.
\<close>

theorem cashu_admitted_once:
  "length (filter (\<lambda>(_, r). r = Token_admitted mint i) (zip ops (fst (run_ops (wallet_step x c j) ps ops)))) \<le> 1"
  using wallet_run.granted_once [OF prod.collapse [symmetric], of ops "(mint, i)" x c j ps]
  by (simp add: wallet_grants_def)

section \<open>The cooldown\<close>

text \<open>The schedule of a mint waits at least until \<open>t\<close>.\<close>

definition waits_until :: "payout_codec \<Rightarrow> string \<Rightarrow> int \<Rightarrow> payments \<Rightarrow> bool" where
  "waits_until j mint t ps \<longleftrightarrow> (\<exists>st. row j (entry ps mint) = Some st \<and> t \<le> retry_at st)"

lemma collect_row:
  assumes "collect x env timeout site p encoded ps = (r, ps')"
  shows "row j (entry ps' mint) = row j (entry ps mint)"
proof -
  obtain env' where c: "collect_inner x env' site p encoded ps = (r, ps')" using assms unfolding collect_def by blast
  then show ?thesis by (auto simp: collect_inner_def split: sum.splits prod.splits dest: collect_wallet_row)
qed

lemma i64_saturating_minute: "a \<le> b \<Longrightarrow> i64_saturating_add a 60 \<le> i64_saturating_add b 60"
  "i64_saturating_add a 60 \<le> b \<Longrightarrow> i64_saturating_add a 60 \<le> i64_saturating_add b 60"
  by (auto simp: rust_arith i64_sat_def i64_bounds)

text \<open>No operation on any wallet brings the retry time of a mint back, while the clock does not go back.\<close>

lemma wallet_step_waits:
  assumes "codec_ok j" "wallet_step x c j ps opn = (r, ps')" "waits_until j mint (i64_saturating_add t 60) ps"
    and "\<And>env mint reclaim. opn = Pending_op env mint reclaim \<Longrightarrow> t \<le> g_now env"
  shows "waits_until j mint (i64_saturating_add t 60) ps'"
proof -
  obtain st where st: "row j (entry ps mint) = Some st" "i64_saturating_add t 60 \<le> retry_at st"
    using assms(3) by (auto simp: waits_until_def)
  note same = assms(3)
  have *: "waits_until j mint (i64_saturating_add t 60) ps'"
    if "ps' = fmupd m s ps" "m = mint \<Longrightarrow> \<exists>st'. row j s = Some st' \<and> i64_saturating_add t 60 \<le> retry_at st'" for m s
    using that same by (auto simp: waits_until_def)
  show ?thesis
  proof (cases opn)
    case (Collect_op env timeout site p encoded)
    obtain v where "collect c env timeout site p encoded ps = (v, ps')"
      using assms(2) by (auto simp: Collect_op split: prod.splits sum.splits)
    then show ?thesis using collect_row same by (simp add: waits_until_def)
  next
    case (Automatic_op env p)
    obtain v calls s where v: "automatic_payout j env p (entry ps (po_mint p)) = (v, calls, s)" by (metis prod_cases3)
    show ?thesis
    proof (rule * [of "po_mint p" s])
      show "ps' = fmupd (po_mint p) s ps" using assms(2) v by (simp add: Automatic_op)
      assume "po_mint p = mint"
      then show "\<exists>st'. row j s = Some st' \<and> i64_saturating_add t 60 \<le> retry_at st'"
        using automatic_payout_retry [OF assms(1) v] st i64_saturating_minute(2) [of t "p_now env"] by fastforce
    qed
  next
    case (Pay_op env m encoded amount limit)
    obtain v calls s where v: "pay x j env m encoded amount limit (entry ps m) = (v, calls, s)" by (metis prod_cases3)
    show ?thesis
    proof (rule * [of m s])
      show "ps' = fmupd m s ps" using assms(2) v by (simp add: Pay_op)
      assume "m = mint"
      with st have m: "row j (entry ps m) = Some st" by simp
      show "\<exists>st'. row j s = Some st' \<and> i64_saturating_add t 60 \<le> retry_at st'"
      proof (cases rule: pay_cases [OF v, case_names Nothing Sent])
        case Nothing
        then show ?thesis using m st(2) by auto
      next
        case (Sent state s2)
        then have "row j s2 = Some state" using m by simp
        then show ?thesis using send_request_row(2) [OF assms(1) Sent(4)] Sent(1) m st(2) by auto
      qed
    qed
  next
    case (Pending_op env m reclaim)
    obtain v s where v: "wallet_pending j env reclaim (entry ps m) = (v, s)" by fastforce
    show ?thesis
    proof (rule * [of m s])
      show "ps' = fmupd m s ps" using assms(2) v by (simp add: Pending_op)
      assume "m = mint"
      then show "\<exists>st'. row j s = Some st' \<and> i64_saturating_add t 60 \<le> retry_at st'"
        using wallet_pending_row [OF assms(1) v] st i64_saturating_minute(1) [OF assms(4) [OF Pending_op]] by auto
    qed
  next
    case Restart_op
    have "row j (entry (restart_payments ps) mint) = row j (entry ps mint)"
      by (simp add: entry_def restart_payments_def row_def split: option.splits)
    then show ?thesis using assms(2) same by (auto simp: Restart_op waits_until_def)
  qed
qed

lemma wallet_run_waits:
  assumes "codec_ok j" "run_ops (wallet_step x c j) ps ops = (rs, ps')" "waits_until j mint (i64_saturating_add t 60) ps"
    and "\<forall>env m reclaim. Pending_op env m reclaim \<in> set ops \<longrightarrow> t \<le> g_now env"
  shows "waits_until j mint (i64_saturating_add t 60) ps'"
  using assms(2-4)
proof (induction ops arbitrary: ps rs)
  case (Cons opn ops)
  obtain r ps1 where p: "wallet_step x c j ps opn = (r, ps1)" by fastforce
  obtain rs1 ps2 where q: "run_ops (wallet_step x c j) ps1 ops = (rs1, ps2)" by fastforce
  have "waits_until j mint (i64_saturating_add t 60) ps1"
    by (rule wallet_step_waits [OF assms(1) p Cons.prems(2)]) (use Cons.prems(3) in auto)
  moreover have "ps' = ps2" using Cons.prems(1) p q by simp
  ultimately show ?case using Cons.IH [of ps1 rs1] q Cons.prems(3) by auto
qed simp

text \<open>
  C29: Failed payouts do not loop. When an automatic payout has touched the wallet's funds at all, whether
  it was delivered, failed or is uncertain, no automatic payout of this mint touches them again within
  the next 60 seconds: whatever runs in between on this and the other wallets, payments collected, other
  automatic payouts, operator payments, the resolution of pending payouts by a clock that does not go
  back, restarts, and whichever of their calls fail.
\<close>

theorem payout_cooldown:
  assumes "codec_ok j" "automatic_payout j env p (entry ps (po_mint p)) = (r, calls, s1)" "calls \<noteq> []"
    and "run_ops (wallet_step x c j) (fmupd (po_mint p) s1 ps) ops = (rs, ps2)"
    and "\<forall>env2 mint reclaim. Pending_op env2 mint reclaim \<in> set ops \<longrightarrow> p_now env \<le> g_now env2"
    and "automatic_payout j env' p' (entry ps2 (po_mint p)) = (r', calls', s3)" "p_now env' < i64_saturating_add (p_now env) 60"
  shows "calls' = []"
proof -
  obtain state s4 where c: "row j s4 = Some (state\<lparr>retry_at := i64_saturating_add (p_now env) 60\<rparr>)"
    "send_request j (p_send env) (wrapping_add 64 (po_amount p) (po_max_fee p))
       (state\<lparr>retry_at := i64_saturating_add (p_now env) 60\<rparr>) s4 = (r, calls, s1)"
    using automatic_payout_sends [OF assms(1-3)] by metis
  obtain st where "row j s1 = Some st" "retry_at st = i64_saturating_add (p_now env) 60"
    using send_request_row(2) [OF assms(1) c(2,1)] by auto
  then have "waits_until j (po_mint p) (i64_saturating_add (p_now env) 60) (fmupd (po_mint p) s1 ps)" by (simp add: waits_until_def)
  from wallet_run_waits [OF assms(1,4) this assms(5)] obtain st2 where "row j (entry ps2 (po_mint p)) = Some st2" "p_now env' < retry_at st2"
    using assms(7) by (auto simp: waits_until_def)
  then show ?thesis using automatic_payout_waits [OF assms(6)] by blast
qed

section \<open>Witnesses\<close>

definition demo_codec :: payout_codec where
  "demo_codec = \<lparr>state_to_json = (\<lambda>st. if last_paid st = 0 \<and> retry_at st = 1060 \<and> pending st = None then Some ''c'' else
       if last_paid st = 0 \<and> retry_at st = 1060 \<and> pending st = Some ''op'' then Some ''u'' else
       if last_paid st = 0 \<and> retry_at st = 0 \<and> pending st = None then Some ''z'' else None),
     state_from_json = (\<lambda>v. if v = ''c'' then Some \<lparr>last_paid = 0, retry_at = 1060, pending = None\<rparr> else
       if v = ''u'' then Some \<lparr>last_paid = 0, retry_at = 1060, pending = Some ''op''\<rparr> else
       if v = ''z'' then Some \<lparr>last_paid = 0, retry_at = 0, pending = None\<rparr> else None)\<rparr>"

definition demo_send :: send_env where
  "demo_send = \<lparr>s_prepare = Some (''op'', 22), s_cancel = True, s_guard = tx_ok, s_confirm = False, s_now = 1000, s_done = tx_ok\<rparr>"

definition demo_payout_env :: payout_env where
  "demo_payout_env = \<lparr>p_locked = False, p_open = \<lparr>o_files = True, o_ledger = tx_ok, o_wallet = True\<rparr>, p_now = 1000, p_read = tx_ok,
     p_first = tx_ok, p_recover = Inr (0, 0), p_balance = Some 30, p_cooldown = tx_ok, p_send = demo_send\<rparr>"

definition demo_payout_wallet :: mint_wallet where
  "demo_payout_wallet = mint_wallet_default\<lparr>mw_ledger := \<lparr>ledger_version = Some 1, payments_v1 = fmempty, payout_v1 = Some ''z''\<rparr>,
     mw_loaded := True\<rparr>"

lemma demo_codec_ok: "codec_ok demo_codec"
  by (auto simp: codec_ok_def demo_codec_def)

lemma demo_payout_run:
  "automatic_payout demo_codec demo_payout_env demo_payout demo_payout_wallet
     = (Inl (Uncertain ''op''), [Prepare, Confirm ''op''],
        demo_payout_wallet\<lparr>mw_ledger := \<lparr>ledger_version = Some 1, payments_v1 = fmempty, payout_v1 = Some ''u''\<rparr>,
          mw_needs_recovery := True\<rparr>)"
  by (simp add: automatic_payout_def wallet_load_def read_or_start_def read_state_def ledger_payout_def mw_recover_def payout_due_def
      demo_payout_def send_request_def save_state_def ledger_save_payout_def blocking_def write_tx_def demo_codec_def demo_payout_env_def
      demo_send_def demo_payout_wallet_def mint_wallet_default_def i64_saturating_add_def i64_bounds wrapping_add_def)

definition demo_uncertain :: mint_wallet where
  "demo_uncertain = demo_payout_wallet\<lparr>mw_ledger := \<lparr>ledger_version = Some 1, payments_v1 = fmempty, payout_v1 = Some ''u''\<rparr>,
     mw_needs_recovery := True\<rparr>"

lemma demo_reaches: "(payout_step x c demo_codec)\<^sup>*\<^sup>* (demo_payout_wallet, None) (demo_uncertain, Some ''op'')"
proof -
  have "after_calls [Prepare, Confirm ''op''] (s_confirm (p_send demo_payout_env)) None = Some ''op''"
    by (simp add: after_calls_def demo_payout_env_def demo_send_def)
  then show ?thesis
    using step_automatic [OF demo_payout_run, of x c None] unfolding demo_uncertain_def by (metis r_into_rtranclp)
qed

theorem payout_never_repeated_witness:
  "fst (snd (automatic_payout demo_codec (demo_payout_env\<lparr>p_now := 100000\<rparr>) demo_payout demo_uncertain)) = []"
proof -
  obtain r calls s' where a: "automatic_payout demo_codec (demo_payout_env\<lparr>p_now := 100000\<rparr>) demo_payout demo_uncertain = (r, calls, s')"
    by (metis prod.exhaust)
  show ?thesis using payout_never_repeated [OF demo_codec_ok demo_reaches disjI1 [OF a]] a by simp
qed

theorem payout_within_cap_witness:
  "\<exists>total. s_prepare (p_send demo_payout_env) = Some (''op'', total) \<and> total \<le> po_amount demo_payout + po_max_fee demo_payout"
  using payout_within_cap [OF demo_codec_ok demo_payout_run, of "''op''"] by (auto simp: demo_payout_def)

definition demo_resolve :: pending_env where
  "demo_resolve = \<lparr>g_open = \<lparr>o_files = True, o_ledger = tx_ok, o_wallet = True\<rparr>, g_recover = Inr (0, 0), g_operation_ok = (\<lambda>_. True),
     g_revoke = True, g_read = tx_ok, g_saga = (\<lambda>_. Some False), g_now = 1010, g_save = tx_ok, g_sends = Some []\<rparr>"

text \<open>After an uncertain payout the operator resolves it, and the process restarts.\<close>

theorem payout_cooldown_witness:
  "\<exists>rs ps2. run_ops (wallet_step demo_ext demo_cashu demo_codec) (fmupd (po_mint demo_payout) demo_uncertain fmempty)
       [Pending_op demo_resolve (po_mint demo_payout) None, Restart_op] = (rs, ps2)
     \<and> fst (snd (automatic_payout demo_codec (demo_payout_env\<lparr>p_now := 1059\<rparr>) demo_payout (entry ps2 (po_mint demo_payout)))) = []"
proof -
  let ?ops = "[Pending_op demo_resolve (po_mint demo_payout) None, Restart_op]"
  let ?ps = "fmupd (po_mint demo_payout) demo_payout_wallet fmempty"
  have a: "automatic_payout demo_codec demo_payout_env demo_payout (entry ?ps (po_mint demo_payout))
      = (Inl (Uncertain ''op''), [Prepare, Confirm ''op''], demo_uncertain)"
    using demo_payout_run by (simp add: demo_uncertain_def)
  obtain rs ps2 where r: "run_ops (wallet_step demo_ext demo_cashu demo_codec) (fmupd (po_mint demo_payout) demo_uncertain ?ps) ?ops = (rs, ps2)" by fastforce
  obtain r' calls s3 where b: "automatic_payout demo_codec (demo_payout_env\<lparr>p_now := 1059\<rparr>) demo_payout (entry ps2 (po_mint demo_payout)) = (r', calls, s3)"
    by (metis prod.exhaust)
  have "calls = []"
    by (rule payout_cooldown [OF demo_codec_ok a _ r _ b])
      (simp_all add: demo_payout_env_def demo_resolve_def i64_saturating_add_def i64_bounds)
  moreover have "fmupd (po_mint demo_payout) demo_uncertain ?ps = fmupd (po_mint demo_payout) demo_uncertain fmempty" by (rule fmap_ext) simp
  ultimately show ?thesis using r b by auto
qed

end
