(* ===== verification/Gateway.thy ===== *)
theory Gateway
  imports Config Challenges Payout
begin

text \<open>
  The request path: \<^verbatim>\<open>proxy.rs\<close>. \<open>request_filter\<close> decides what happens to a request: an answer of the gateway
  itself, the site's static response, or forwarding to the upstream. It is split into the phases of
  the source, each of which stops with a response or goes on. A header map is the list of its pairs,
  with the lower-case names the \<^verbatim>\<open>http\<close> crate keeps; a body is the list of chunks as they are read,
  \<open>None\<close> standing for a read error.

  The state is what the handlers share: the configuration with the limiters and capacities of its
  sites, the limiter of redirects, the payments and the Lightning service when they are enabled, and
  the tokens of pending certificate challenges. Clocks, random bytes, the wallet and the database
  answer from the environment of the request. A request is one step here; between the phases of a
  request others may run, which every phase allows for by reading the state anew.
\<close>

section \<open>Requests and responses\<close>

record request =
  rq_method :: string
  rq_scheme :: "string option"
  rq_authority :: "string option"
  rq_path :: string
  rq_path_and_query :: "string option"
  rq_headers :: header_map
  rq_client :: "ip_addr option"
  rq_body :: "string option list"
  rq_buffer_truncated :: bool
  rq_body_timeout :: bool

record response =
  rs_status :: nat
  rs_headers :: header_map
  rs_body :: string

definition contains_key :: "header_map \<Rightarrow> string \<Rightarrow> bool" where
  "contains_key headers name \<longleftrightarrow> get_all headers name \<noteq> []"

definition header_str :: "header_map \<Rightarrow> string \<Rightarrow> string option" where
  "header_str headers name =
     (case get_all headers name of v # _ \<Rightarrow> if header_text_ok v then Some v else None | [] \<Rightarrow> None)"

definition remove_header :: "string \<Rightarrow> header_map \<Rightarrow> header_map" where
  "remove_header name headers = filter (\<lambda>(n, _). n \<noteq> name) headers"

definition insert_header :: "string \<Rightarrow> string \<Rightarrow> header_map \<Rightarrow> header_map" where
  "insert_header name v headers = remove_header name headers @ [(name, v)]"

definition respond_with_headers :: "request \<Rightarrow> nat \<Rightarrow> string \<Rightarrow> header_map \<Rightarrow> response" where
  "respond_with_headers rq status body headers =
     (let base = [(''content-type'', ''text/plain; charset=utf-8'')];
          sized = (if status \<in> {204, 304} then base else insert_header ''content-length'' (show_nat (length body)) base);
          no_body = status \<in> {204, 205, 304};
          finished = rq_method rq = ''HEAD'' \<or> no_body \<or> body = []
      in \<lparr>rs_status = status, rs_headers = fold (\<lambda>(n, v). insert_header n v) headers sized,
          rs_body = (if finished then [] else body)\<rparr>)"

definition respond :: "request \<Rightarrow> nat \<Rightarrow> string \<Rightarrow> string option \<Rightarrow> response" where
  "respond rq status body location =
     respond_with_headers rq status body (case location of Some l \<Rightarrow> [(''location'', l)] | None \<Rightarrow> [])"

text \<open>Why a request stops: with a response of the gateway, or with an internal error.\<close>

datatype stop = Reply response | Internal_error

definition reply :: "request \<Rightarrow> nat \<Rightarrow> string \<Rightarrow> stop + 'a" where
  "reply rq status body = Inl (Reply (respond rq status body None))"

definition reply_headers :: "request \<Rightarrow> nat \<Rightarrow> string \<Rightarrow> header_map \<Rightarrow> stop + 'a" where
  "reply_headers rq status body headers = Inl (Reply (respond_with_headers rq status body headers))"

definition no_store :: "string \<times> string" where "no_store = (''cache-control'', ''no-store'')"

text \<open>Seconds for a wait in nanoseconds, rounded up: \<^verbatim>\<open>as_secs\<close> and \<^verbatim>\<open>subsec_nanos\<close>.\<close>

definition retry_seconds :: "nat \<Rightarrow> nat" where
  "retry_seconds wait = saturating_add 64 (wait div TOKEN) (of_bool (wait mod TOKEN \<noteq> 0))"

section \<open>State and environment\<close>

record gateway =
  gw_config :: config
  gw_redirects :: rate_limiter
  gw_payments :: "payments option"
  gw_lightning :: "lightning_service option"
  gw_challenges :: "(string \<times> string, string) fmap"

record proxy =
  px_tls :: bool
  px_https_port :: nat

record gateway_ext =
  gx_authority :: "string \<Rightarrow> (string \<times> string) option"
  gx_externals :: externals
  gx_ln :: ln_ext
  gx_l402 :: l402_ext
  gx_cashu :: cashu_ext
  gx_required_json :: "string \<Rightarrow> requirements \<Rightarrow> string"
  gx_cashu_challenge :: "payment_policy \<Rightarrow> string"
  gx_receipt :: "string \<Rightarrow> string \<Rightarrow> string"

record request_env =
  re_started :: nat
  re_redirect_now :: nat
  re_verify_now :: nat
  re_limit_now :: nat
  re_settle :: ln_env
  re_collect :: collect_env
  re_collect_timeout :: "await option"
  re_challenge :: challenge_env

record request_context =
  cx_deadline :: "nat option"
  cx_site :: "site option"
  cx_host :: string
  cx_permit :: "ip_addr option"
  cx_receipt :: "string option"
  cx_body_bytes :: nat
  cx_addresses :: "string list"
  cx_address_index :: nat

text \<open>Instants in nanoseconds. A request starts with a deadline of 60 seconds, which its site replaces.\<close>

definition new_ctx :: "nat \<Rightarrow> request_context" where
  "new_ctx started = \<lparr>cx_deadline = Some (started + 60 * TOKEN), cx_site = None, cx_host = [], cx_permit = None, cx_receipt = None, cx_body_bytes = 0,
     cx_addresses = [], cx_address_index = 0\<rparr>"

definition put_site :: "string \<Rightarrow> site \<Rightarrow> gateway \<Rightarrow> gateway" where
  "put_site domain site g = g\<lparr>gw_config := (gw_config g)\<lparr>cfg_sites := fmupd domain site (cfg_sites (gw_config g))\<rparr>\<rparr>"

section \<open>Routing\<close>

definition request_authority :: "request \<Rightarrow> string option" where
  "request_authority rq = (case header_str (rq_headers rq) ''host'' of Some h \<Rightarrow> Some h | None \<Rightarrow> rq_authority rq)"

definition acme_prefix :: string where "acme_prefix = ''/.well-known/acme-challenge/''"

definition answer_challenge :: "gateway \<Rightarrow> request \<Rightarrow> string \<Rightarrow> string \<Rightarrow> stop + 'a" where
  "answer_challenge g rq domain tok =
     (case fmlookup (gw_challenges g) (domain, tok) of
        Some r \<Rightarrow> if rq_method rq = ''GET'' then reply rq 200 r else reply rq 404 ''No active certificate challenge.\<newline>''
      | None \<Rightarrow> reply rq 404 ''No active certificate challenge.\<newline>'')"

definition redirect_location :: "proxy \<Rightarrow> request \<Rightarrow> string \<Rightarrow> string" where
  "redirect_location px rq domain =
     ''https://'' @ domain @ (if px_https_port px = 443 then [] else '':'' @ show_nat (px_https_port px))
       @ (case rq_path_and_query rq of Some p \<Rightarrow> p | None \<Rightarrow> ''/'')"

definition redirect_to_https :: "proxy \<Rightarrow> request_env \<Rightarrow> request \<Rightarrow> string \<Rightarrow> gateway \<Rightarrow> (stop + 'a) \<times> gateway" where
  "redirect_to_https px env rq domain g =
     (let (checked, limiter) = (case rq_client rq of
             Some ip \<Rightarrow> limiter_check (gw_redirects g) ip (re_redirect_now env)
           | None \<Rightarrow> (Wait TOKEN, gw_redirects g))
      in (case checked of
            Admitted \<Rightarrow> Inl (Reply (respond rq 308 ''Redirecting to HTTPS.\<newline>'' (Some (redirect_location px rq domain))))
          | Wait wait \<Rightarrow> reply_headers rq 429 ''Too many redirects.\<newline>'' [(''retry-after'', show_nat (retry_seconds wait)), no_store]
          | Check_panic \<Rightarrow> Inl Internal_error,
          g\<lparr>gw_redirects := limiter\<rparr>))"

definition route ::
  "gateway_ext \<Rightarrow> proxy \<Rightarrow> request_env \<Rightarrow> request \<Rightarrow> gateway \<Rightarrow> (stop + (string \<times> site)) \<times> gateway" where
  "route x px env rq g =
     (case Option.bind (request_authority rq) (request_domain (gx_authority x)) of
        None \<Rightarrow> (reply rq 400 ''A valid Host header is required.\<newline>'', g)
      | Some domain \<Rightarrow>
          (case fmlookup (cfg_sites (gw_config g)) domain of
             None \<Rightarrow> (reply rq 404 ''No site is configured for this hostname.\<newline>'', g)
           | Some site \<Rightarrow>
               if \<not> px_tls px then
                 (case strip_prefix acme_prefix (rq_path rq) of
                    Some tok \<Rightarrow> (answer_challenge g rq domain tok, g)
                  | None \<Rightarrow> if site_https site then redirect_to_https px env rq domain g else (Inr (domain, site), g))
               else if \<not> site_https site then (reply rq 404 ''This site is configured for HTTP only.\<newline>'', g)
               else (Inr (domain, site), g)))"

section \<open>Limits\<close>

definition check_body_length :: "request \<Rightarrow> site \<Rightarrow> stop + unit" where
  "check_body_length rq site =
     (case (max_body_bytes (site_controls site), Option.bind (header_str (rq_headers rq) ''content-length'') (parse_uint 64)) of
        (Some limit, Some n) \<Rightarrow> if limit < n then reply rq 413 ''Request body too large.\<newline>'' else Inr ()
      | _ \<Rightarrow> Inr ())"

definition l402_enabled :: "site \<Rightarrow> bool" where
  "l402_enabled site = (case site_lightning site of Some p \<Rightarrow> proto_l402 (lp_protocols p) | None \<Rightarrow> False)"

definition payment_attempt :: "request \<Rightarrow> site \<Rightarrow> bool" where
  "payment_attempt rq site \<longleftrightarrow>
     (site_payment site \<noteq> None \<and> contains_key (rq_headers rq) ''x-cashu'')
     \<or> (site_lightning site \<noteq> None
        \<and> (contains_key (rq_headers rq) ''payment-signature'' \<or> (l402_enabled site \<and> contains_key (rq_headers rq) ''authorization'')))"

definition limit_attempts :: "request_env \<Rightarrow> request \<Rightarrow> string \<Rightarrow> site \<Rightarrow> gateway \<Rightarrow> (stop + site) \<times> gateway" where
  "limit_attempts env rq domain site g =
     (if \<not> payment_attempt rq site then (Inr site, g)
      else case rq_client rq of
        None \<Rightarrow> (Inl Internal_error, g)
      | Some ip \<Rightarrow>
          (case limiter_check (payment_verification site) ip (re_verify_now env) of
             (checked, limiter) \<Rightarrow>
               (let site' = site\<lparr>payment_verification := limiter\<rparr>
                in (case checked of
                      Admitted \<Rightarrow> Inr site'
                    | Wait wait \<Rightarrow>
                        reply_headers rq 429 ''Too many payment verification attempts.\<newline>''
                          [(''retry-after'', show_nat (retry_seconds wait)), no_store]
                    | Check_panic \<Rightarrow> Inl Internal_error,
                    put_site domain site' g))))"

definition take_capacity :: "request \<Rightarrow> string \<Rightarrow> site \<Rightarrow> gateway \<Rightarrow> (stop + (site \<times> ip_addr option)) \<times> gateway" where
  "take_capacity rq domain site g =
     (case site_capacity site of
        None \<Rightarrow> (Inr (site, None), g)
      | Some capacity \<Rightarrow>
          (case rq_client rq of
             None \<Rightarrow> (Inl Internal_error, g)
           | Some ip \<Rightarrow>
               (case try_acquire capacity ip of
                  (permit, capacity') \<Rightarrow>
                    (let site' = site\<lparr>site_capacity := Some capacity'\<rparr>
                     in (case permit of
                           Some k \<Rightarrow> Inr (site', Some k)
                         | None \<Rightarrow> reply_headers rq 503 ''Site is at capacity.\<newline>'' [(''retry-after'', ''1''), no_store],
                         put_site domain site' g)))))"

section \<open>Payment headers\<close>

definition l402_scheme :: "string \<Rightarrow> string option" where
  "l402_scheme v =
     (if \<not> header_text_ok v then None
      else case split_once CHR '' '' v of
        Some (scheme, credential) \<Rightarrow>
          if eq_ignore_ascii_case scheme ''L402'' \<and> credential \<noteq> [] \<and> length credential \<le> MAX_PAYMENT_HEADER
          then Some credential else None
      | None \<Rightarrow> None)"

definition l402_header :: "request \<Rightarrow> site \<Rightarrow> stop + string option" where
  "l402_header rq site =
     (if \<not> l402_enabled site then Inr None
      else case get_all (rq_headers rq) ''authorization'' of
        [] \<Rightarrow> Inr None
      | v # vs \<Rightarrow>
          (case (vs, l402_scheme v) of
             ([], Some credential) \<Rightarrow> Inr (Some credential)
           | _ \<Rightarrow> reply_headers rq 401 ''This site requires an L402 Authorization credential.\<newline>''
                    [no_store, (''www-authenticate'', ''L402'')]))"

definition x402_header :: "request \<Rightarrow> site \<Rightarrow> stop + string option" where
  "x402_header rq site =
     (case site_lightning site of
        None \<Rightarrow> Inr None
      | Some p \<Rightarrow>
          (case get_all (rq_headers rq) ''payment-signature'' of
             [] \<Rightarrow> Inr None
           | v # vs \<Rightarrow>
               if vs \<noteq> [] \<or> contains_key (rq_headers rq) ''x-cashu''
               then reply rq 400 ''Select exactly one payment method.\<newline>''
               else if header_text_ok v \<and> length v \<le> MAX_PAYMENT_HEADER then Inr (Some v)
               else reply rq 400 ''Invalid Lightning payment header.\<newline>''))"

definition x402_disabled :: "site \<Rightarrow> bool" where
  "x402_disabled site = (case site_lightning site of Some p \<Rightarrow> \<not> proto_x402 (lp_protocols p) | None \<Rightarrow> False)"

text \<open>The proof of a Lightning payment and whether it is an L402 credential.\<close>

definition lightning_proof :: "request \<Rightarrow> site \<Rightarrow> stop + (string \<times> bool) option" where
  "lightning_proof rq site =
     bind_result (l402_header rq site) (\<lambda>l402.
     bind_result (if l402 \<noteq> None \<and> (contains_key (rq_headers rq) ''payment-signature'' \<or> contains_key (rq_headers rq) ''x-cashu'')
        then reply rq 400 ''Select exactly one payment method.\<newline>'' else Inr ()) (\<lambda>_.
     bind_result (if x402_disabled site \<and> contains_key (rq_headers rq) ''payment-signature''
        then reply rq 400 ''Lightning x402 is disabled.\<newline>'' else Inr ()) (\<lambda>_.
     bind_result (x402_header rq site) (\<lambda>x402.
     Inr (case l402 of Some c \<Rightarrow> Some (c, True) | None \<Rightarrow> map_option (\<lambda>v. (v, False)) x402)))))"

section \<open>Binding\<close>

definition MAX_BODY :: nat where "MAX_BODY = 64 * 1024"

fun read_body :: "nat \<Rightarrow> string \<Rightarrow> string option list \<Rightarrow> string option" where
  "read_body limit body [] = Some body"
| "read_body limit body (None # chunks) = None"
| "read_body limit body (Some chunk # chunks) =
     (if limit < length body + length chunk then None else read_body limit (body @ chunk) chunks)"

definition http_scheme :: "proxy \<Rightarrow> string" where
  "http_scheme px = (if px_tls px then ''https'' else ''http'')"

definition lightning_binding :: "gateway_ext \<Rightarrow> proxy \<Rightarrow> request \<Rightarrow> lightning_policy \<Rightarrow> nat option \<Rightarrow> (string \<times> string) option" where
  "lightning_binding x px rq p limit =
     (if contains_key (rq_headers rq) ''trailer'' \<or> contains_key (rq_headers rq) ''upgrade'' then None
      else case request_authority rq of
        None \<Rightarrow> None
      | Some authority \<Rightarrow>
          (let origin = http_scheme px @ ''://'' @ authority;
               path = (case rq_path_and_query rq of Some p \<Rightarrow> p | None \<Rightarrow> ''/'');
               url = origin @ path
           in if origin \<noteq> lp_origin p \<or> (rq_scheme rq \<noteq> None \<and> rq_scheme rq \<noteq> Some (http_scheme px))
                 \<or> (rq_authority rq \<noteq> None \<and> rq_authority rq \<noteq> Some authority) \<or> \<not> prefix ''/'' path
                 \<or> rq_body_timeout rq
              then None
              else case read_body (min (case limit of Some n \<Rightarrow> n | None \<Rightarrow> 2 ^ 64 - 1) MAX_BODY) [] (rq_body rq) of
                None \<Rightarrow> None
              | Some body \<Rightarrow>
                  if rq_buffer_truncated rq then None
                  else map_option (\<lambda>hash. (url, hash)) (request_hash (gx_ln x) p (rq_method rq) url (rq_headers rq) body)))"

section \<open>Payment\<close>

text \<open>What admitted a request: a proof of payment, with the receipt of an x402 one, or the free allowance.\<close>

datatype admission = By_l402 | By_x402 string | By_cashu | By_allowance | Free

definition private_channel :: "proxy \<Rightarrow> request \<Rightarrow> bool" where
  "private_channel px rq \<longleftrightarrow> px_tls px \<or> (case rq_client rq of Some ip \<Rightarrow> is_loopback ip | None \<Rightarrow> False)"

definition settle_lightning ::
  "gateway_ext \<Rightarrow> proxy \<Rightarrow> request_env \<Rightarrow> request \<Rightarrow> site \<Rightarrow> string \<Rightarrow> bool \<Rightarrow> gateway \<Rightarrow> (stop + admission) \<times> gateway" where
  "settle_lightning x px env rq site encoded using_l402 g =
     (if \<not> private_channel px rq then (reply rq 400 ''Use HTTPS to send payments.\<newline>'', g)
      else case (site_lightning site, gw_lightning g) of
        (None, _) \<Rightarrow> (Inl Internal_error, g)
      | (Some p, None) \<Rightarrow> (reply rq 503 ''Lightning unavailable.\<newline>'', g)
      | (Some p, Some service) \<Rightarrow>
          (case lightning_binding x px rq p (max_body_bytes (site_controls site)) of
             None \<Rightarrow> (reply rq 400 ''Unsupported Lightning request binding or body size.\<newline>'', g)
           | Some (url, hash) \<Rightarrow>
               (case (if using_l402
                      then map_prod (map_sum id (\<lambda>_. By_l402)) id (settle_l402 (gx_ln x) (gx_l402 x) (re_settle env) p hash encoded (ls_store service))
                      else map_prod (map_sum id (\<lambda>(h, network). By_x402 (gx_receipt x h network))) id
                             (ln_settle (gx_ln x) (re_settle env) p hash encoded (ls_store service))) of
                  (r, store) \<Rightarrow>
                    (case r of
                       Inr a \<Rightarrow> Inr a
                     | Inl Invalid \<Rightarrow>
                         if using_l402 then reply_headers rq 401 ''Invalid, expired, or already used Lightning payment.\<newline>''
                                              [no_store, (''www-authenticate'', ''L402'')]
                         else reply_headers rq 400 ''Invalid, expired, or already used Lightning payment.\<newline>'' [no_store]
                     | Inl Unavailable \<Rightarrow> reply_headers rq 503 ''Lightning payments temporarily unavailable.\<newline>'' [no_store],
                     g\<lparr>gw_lightning := Some (service\<lparr>ls_store := store\<rparr>)\<rparr>))))"

definition settle_cashu ::
  "gateway_ext \<Rightarrow> proxy \<Rightarrow> request_env \<Rightarrow> request \<Rightarrow> string \<Rightarrow> payment_policy \<Rightarrow> string list \<Rightarrow> gateway \<Rightarrow> (stop + admission) \<times> gateway" where
  "settle_cashu x px env rq domain p tokens g =
     (case tokens of
        [encoded] \<Rightarrow>
          if \<not> private_channel px rq then (reply rq 400 ''Use HTTPS to send payment tokens.\<newline>'', g)
          else if \<not> header_text_ok encoded then (reply rq 400 ''Invalid Cashu token.\<newline>'', g)
          else (case gw_payments g of
                  None \<Rightarrow> (reply rq 503 ''Payments are unavailable.\<newline>'', g)
                | Some ps \<Rightarrow>
                    (case collect (gx_cashu x) (re_collect env) (re_collect_timeout env) domain p encoded ps of
                       (r, ps') \<Rightarrow>
                         (case r of
                            Inr _ \<Rightarrow> Inr By_cashu
                          | Inl Payment_invalid \<Rightarrow>
                              reply_headers rq 400 ''Invalid, insufficient, or already used Cashu payment.\<newline>'' [no_store]
                          | Inl Payment_unavailable \<Rightarrow>
                              reply_headers rq 503 ''Payments temporarily unavailable; retry the same token.\<newline>''
                                [(''retry-after'', ''1''), no_store],
                          g\<lparr>gw_payments := Some ps'\<rparr>)))
      | _ \<Rightarrow> (reply rq 400 ''Provide exactly one X-Cashu token.\<newline>'', g))"

definition challenge_headers :: "string option \<Rightarrow> string option \<Rightarrow> challenge option \<Rightarrow> header_map" where
  "challenge_headers retry_after cashu needed =
     [no_store]
     @ (case retry_after of Some r \<Rightarrow> [(''retry-after'', r)] | None \<Rightarrow> [])
     @ (case cashu of Some c \<Rightarrow> [(''x-cashu'', c)] | None \<Rightarrow> [])
     @ (case needed of
          Some c \<Rightarrow> (case ch_x402 c of Some v \<Rightarrow> [(''payment-required'', v)] | None \<Rightarrow> [])
                   @ (case ch_l402 c of Some v \<Rightarrow> [(''www-authenticate'', v)] | None \<Rightarrow> [])
        | None \<Rightarrow> [])"

definition ask_payment ::
  "gateway_ext \<Rightarrow> proxy \<Rightarrow> request_env \<Rightarrow> request \<Rightarrow> site \<Rightarrow> ip_addr \<Rightarrow> string option \<Rightarrow> gateway \<Rightarrow> (stop + 'a) \<times> gateway" where
  "ask_payment x px env rq site client retry_after g =
     (let cashu = map_option (gx_cashu_challenge x) (site_payment site);
          (needed, g') =
            (case (site_lightning site, gw_lightning g) of
               (Some p, Some service) \<Rightarrow>
                 (case lightning_binding x px rq p (max_body_bytes (site_controls site)) of
                    Some (url, hash) \<Rightarrow>
                      (case lightning_challenge (gx_externals x) (gx_ln x) (gx_l402 x) (gx_required_json x) (re_challenge env)
                              p url hash client service of
                         (c, service') \<Rightarrow> (c, g\<lparr>gw_lightning := Some service'\<rparr>))
                  | None \<Rightarrow> (None, g))
             | _ \<Rightarrow> (None, g))
      in (if cashu = None \<and> needed = None
          then reply_headers rq 503 ''Lightning challenge unavailable.\<newline>'' [(''retry-after'', ''1''), no_store]
          else reply_headers rq 402
                 (if retry_after \<noteq> None then ''Payment required, or wait for the free allowance.\<newline>'' else ''Payment required.\<newline>'')
                 (challenge_headers retry_after cashu needed), g'))"

definition free_allowance ::
  "gateway_ext \<Rightarrow> proxy \<Rightarrow> request_env \<Rightarrow> request \<Rightarrow> string \<Rightarrow> site \<Rightarrow> gateway \<Rightarrow> (stop + admission) \<times> gateway" where
  "free_allowance x px env rq domain site g =
     (case rq_client rq of
        None \<Rightarrow> (Inl Internal_error, g)
      | Some client \<Rightarrow>
          (let (checked, g1) =
             (case site_rate_limit site of
                None \<Rightarrow> (None, g)
              | Some limiter \<Rightarrow>
                  (case limiter_check limiter client (re_limit_now env) of
                     (c, limiter') \<Rightarrow> (Some c, put_site domain (site\<lparr>site_rate_limit := Some limiter'\<rparr>) g)))
           in case checked of
                Some Admitted \<Rightarrow> (Inr By_allowance, g1)
              | Some Check_panic \<Rightarrow> (Inl Internal_error, g1)
              | _ \<Rightarrow>
                  (let retry_after = (case checked of Some (Wait w) \<Rightarrow> Some (show_nat (max (retry_seconds w) 1)) | _ \<Rightarrow> None)
                   in if site_payment site \<noteq> None \<or> site_lightning site \<noteq> None
                      then ask_payment x px env rq site client retry_after g1
                      else (reply_headers rq 429 ''Too many requests.\<newline>''
                              [(''retry-after'', case retry_after of Some r \<Rightarrow> r | None \<Rightarrow> ''1''), no_store], g1))))"

definition admit_request ::
  "gateway_ext \<Rightarrow> proxy \<Rightarrow> request_env \<Rightarrow> request \<Rightarrow> string \<Rightarrow> site \<Rightarrow> gateway \<Rightarrow> (stop + admission) \<times> gateway" where
  "admit_request x px env rq domain site g =
     (case lightning_proof rq site of
        Inl e \<Rightarrow> (Inl e, g)
      | Inr (Some (encoded, using_l402)) \<Rightarrow> settle_lightning x px env rq site encoded using_l402 g
      | Inr None \<Rightarrow>
          (case (site_payment site, get_all (rq_headers rq) ''x-cashu'') of
             (Some p, t # ts) \<Rightarrow> settle_cashu x px env rq domain p (t # ts) g
           | _ \<Rightarrow>
               if site_rate_limit site \<noteq> None \<or> site_payment site \<noteq> None \<or> site_lightning site \<noteq> None
               then free_allowance x px env rq domain site g
               else (Inr Free, g)))"

section \<open>The request filter\<close>

definition takes_payment :: "site \<Rightarrow> bool" where
  "takes_payment site \<longleftrightarrow> site_payment site \<noteq> None \<or> site_lightning site \<noteq> None"

definition strip_credentials :: "site \<Rightarrow> header_map \<Rightarrow> header_map" where
  "strip_credentials site headers =
     (let h1 = (if l402_enabled site then remove_header ''authorization'' headers else headers)
      in if takes_payment site then remove_header ''payment-signature'' (remove_header ''x-cashu'' h1) else h1)"

definition receipt_of :: "admission \<Rightarrow> string option" where
  "receipt_of a = (case a of By_x402 r \<Rightarrow> Some r | _ \<Rightarrow> None)"

text \<open>The decision: \<open>Stopped\<close> ends the request before the site's handler, \<open>Served\<close> is the site's static
  response, \<open>Forwarded\<close> goes on to the upstream with the remaining headers.\<close>

datatype verdict = Stopped stop | Served admission response | Forwarded admission request

definition finish_request :: "request \<Rightarrow> site \<Rightarrow> admission \<Rightarrow> verdict" where
  "finish_request rq site a =
     (let rq' = rq\<lparr>rq_headers := strip_credentials site (rq_headers rq)\<rparr>
      in case site_handler site of
           Respond body status \<Rightarrow>
             Served a (respond_with_headers rq' status body
               ((if takes_payment site then [no_store] else [])
                @ (case receipt_of a of Some r \<Rightarrow> [(''payment-response'', r)] | None \<Rightarrow> [])))
         | Proxy up \<Rightarrow> Forwarded a rq')"

definition request_filter ::
  "gateway_ext \<Rightarrow> proxy \<Rightarrow> request_env \<Rightarrow> request \<Rightarrow> gateway \<Rightarrow> verdict \<times> request_context \<times> gateway" where
  "request_filter x px env rq g =
     (let ctx0 = (new_ctx (re_started env))\<lparr>cx_host := (case Option.bind (request_authority rq) (request_domain (gx_authority x)) of
            None \<Rightarrow> [] | Some _ \<Rightarrow> (case request_authority rq of Some a \<Rightarrow> a | None \<Rightarrow> []))\<rparr>
      in case route x px env rq g of
           (Inl e, g1) \<Rightarrow> (Stopped e, ctx0, g1)
         | (Inr (domain, site), g1) \<Rightarrow>
             (let ctx1 = ctx0\<lparr>cx_deadline := map_option (\<lambda>seconds. re_started env + seconds * TOKEN) (request_timeout (site_controls site)),
                               cx_site := Some site\<rparr>
              in case check_body_length rq site of
                   Inl e \<Rightarrow> (Stopped e, ctx1, g1)
                 | Inr _ \<Rightarrow>
                     (case limit_attempts env rq domain site g1 of
                        (Inl e, g2) \<Rightarrow> (Stopped e, ctx1, g2)
                      | (Inr site2, g2) \<Rightarrow>
                          (case take_capacity rq domain site2 g2 of
                             (Inl e, g3) \<Rightarrow> (Stopped e, ctx1, g3)
                           | (Inr (site3, permit), g3) \<Rightarrow>
                               (let ctx2 = ctx1\<lparr>cx_permit := permit\<rparr>
                                in case admit_request x px env rq domain site3 g3 of
                                     (Inl e, g4) \<Rightarrow> (Stopped e, ctx2, g4)
                                   | (Inr a, g4) \<Rightarrow>
                                       (finish_request rq site3 a, ctx2\<lparr>cx_receipt := receipt_of a\<rparr>, g4))))))"

definition request_expired :: "request_context \<Rightarrow> nat \<Rightarrow> bool" where
  "request_expired ctx now = (case cx_deadline ctx of Some d \<Rightarrow> d \<le> now | None \<Rightarrow> False)"

text \<open>The end of a request, also by its deadline, drops its context and with it the permit. The permit has a
  reference to the capacity it was taken from; here that is the capacity of the site of its domain, which
  is the same one unless a reload has changed the limit of the site since, when nothing would be given back
  to the new capacity.\<close>

definition end_request :: "string \<Rightarrow> request_context \<Rightarrow> gateway \<Rightarrow> gateway" where
  "end_request domain ctx g =
     (case (cx_permit ctx, fmlookup (cfg_sites (gw_config g)) domain) of
        (Some k, Some site) \<Rightarrow> put_site domain (site\<lparr>site_capacity := map_option (\<lambda>c. give_back c k) (site_capacity site)\<rparr>) g
      | _ \<Rightarrow> g)"

section \<open>The other callbacks\<close>

datatype proxy_error = Http_status nat | Connect_error | Connect_timeout | No_route

definition request_body_filter :: "nat option \<Rightarrow> string option \<Rightarrow> request_context \<Rightarrow> (proxy_error + unit) \<times> request_context" where
  "request_body_filter written body ctx =
     (if written = Some 101 then (Inr (), ctx)
      else (let n = saturating_add 64 (cx_body_bytes ctx) (case body of Some b \<Rightarrow> length b | None \<Rightarrow> 0);
                ctx' = ctx\<lparr>cx_body_bytes := n\<rparr>
            in case Option.bind (cx_site ctx) (\<lambda>site. max_body_bytes (site_controls site)) of
                 Some limit \<Rightarrow> if limit < n then (Inl (Http_status 413), ctx') else (Inr (), ctx')
               | None \<Rightarrow> (Inr (), ctx')))"

text \<open>\<open>dns\<close> is the answer of the resolver: nothing in time, a failure, or addresses.\<close>

definition upstream_peer ::
  "(string list option) option \<Rightarrow> request_context \<Rightarrow> (proxy_error + (string \<times> bool \<times> string)) \<times> request_context" where
  "upstream_peer dns ctx =
     (case cx_site ctx of
        None \<Rightarrow> (Inl No_route, ctx)
      | Some site \<Rightarrow>
          (case site_handler site of
             Respond body status \<Rightarrow> (Inl No_route, ctx)
           | Proxy up \<Rightarrow>
               (case (if cx_addresses ctx \<noteq> [] then Inr ctx
                      else (case dns of
                              None \<Rightarrow> Inl Connect_timeout
                            | Some None \<Rightarrow> Inl Connect_error
                            | Some (Some addresses) \<Rightarrow> Inr (ctx\<lparr>cx_addresses := take 8 addresses\<rparr>))) of
                  Inl e \<Rightarrow> (Inl e, ctx)
                | Inr ctx' \<Rightarrow>
                    if cx_address_index ctx' < length (cx_addresses ctx')
                    then (Inr (cx_addresses ctx' ! cx_address_index ctx', up_tls up, up_host up), ctx')
                    else (Inl Connect_error, ctx'))))"

definition fail_to_connect :: "request_context \<Rightarrow> bool \<times> request_context" where
  "fail_to_connect ctx =
     (let ctx' = ctx\<lparr>cx_address_index := cx_address_index ctx + 1\<rparr>
      in (cx_address_index ctx' < length (cx_addresses ctx'), ctx'))"

definition forwarding_headers :: "string list" where
  "forwarding_headers = [''forwarded'', ''x-forwarded-for'', ''x-forwarded-host'', ''x-forwarded-proto'', ''x-forwarded-port'', ''x-real-ip'']"

definition upstream_request_filter ::
  "(ip_addr \<Rightarrow> string) \<Rightarrow> proxy \<Rightarrow> request_context \<Rightarrow> ip_addr option \<Rightarrow> header_map \<Rightarrow> header_map" where
  "upstream_request_filter show_ip px ctx client headers =
     (let h1 = (case cx_site ctx of Some site \<Rightarrow> strip_credentials site headers | None \<Rightarrow> headers);
          h2 = fold remove_header forwarding_headers h1;
          h3 = (case client of
                  Some ip \<Rightarrow> insert_header ''x-real-ip'' (show_ip ip) (insert_header ''x-forwarded-for'' (show_ip ip) h2)
                | None \<Rightarrow> h2);
          h4 = insert_header ''x-forwarded-host'' (cx_host ctx) (insert_header ''x-forwarded-proto'' (http_scheme px) h3)
      in case cx_site ctx of
           Some site \<Rightarrow>
             (case site_handler site of
                Proxy up \<Rightarrow> insert_header ''host'' (if up_tls up then up_authority up else cx_host ctx) h4
              | Respond body status \<Rightarrow> h4)
         | None \<Rightarrow> h4)"

definition response_filter :: "request_context \<Rightarrow> header_map \<Rightarrow> header_map" where
  "response_filter ctx headers =
     (case cx_site ctx of
        Some site \<Rightarrow>
          if takes_payment site then
            (let h = remove_header ''payment-response'' (insert_header ''cache-control'' ''no-store'' headers)
             in case cx_receipt ctx of Some r \<Rightarrow> insert_header ''payment-response'' r h | None \<Rightarrow> h)
          else headers
      | None \<Rightarrow> headers)"

section \<open>What a phase keeps\<close>

lemma put_site_fields [simp]:
  "gw_payments (put_site d s g) = gw_payments g" "gw_lightning (put_site d s g) = gw_lightning g"
  "gw_challenges (put_site d s g) = gw_challenges g" "gw_redirects (put_site d s g) = gw_redirects g"
  by (simp_all add: put_site_def)

text \<open>The policies of a site: what the limits of the request path never change.\<close>

definition same_policies :: "site \<Rightarrow> site \<Rightarrow> bool" where
  "same_policies s t \<longleftrightarrow> site_payment s = site_payment t \<and> site_lightning s = site_lightning t \<and> site_handler s = site_handler t
     \<and> site_rate_limit s = site_rate_limit t \<and> site_controls s = site_controls t \<and> site_https s = site_https t"

lemma limit_attempts_Inr:
  "limit_attempts env rq domain site g = (Inr site', g') \<Longrightarrow>
     same_policies site' site \<and> gw_payments g' = gw_payments g \<and> gw_lightning g' = gw_lightning g"
  by (auto simp: limit_attempts_def same_policies_def reply_headers_def Let_def
      split: if_splits option.splits prod.splits check_result.splits)

lemma take_capacity_Inr:
  "take_capacity rq domain site g = (Inr (site', permit), g') \<Longrightarrow>
     same_policies site' site \<and> gw_payments g' = gw_payments g \<and> gw_lightning g' = gw_lightning g"
  by (auto simp: take_capacity_def same_policies_def reply_headers_def Let_def split: option.splits prod.splits)

lemma reply_not_Inr [simp]: "reply rq n b \<noteq> Inr a" "reply_headers rq n b h \<noteq> Inr a"
  by (simp_all add: reply_def reply_headers_def)

lemma route_Inr:
  assumes "route x px env rq g = (Inr (domain, site), g')"
  shows "Option.bind (request_authority rq) (request_domain (gx_authority x)) = Some domain
     \<and> fmlookup (cfg_sites (gw_config g)) domain = Some site \<and> px_tls px = site_https site \<and> g' = g"
  using assms
  by (auto simp: route_def answer_challenge_def redirect_to_https_def Let_def
      split: option.splits if_splits check_result.splits prod.splits)

text \<open>A request that gets past the filter went through all the phases.\<close>

lemma request_filter_passes:
  assumes "request_filter x px env rq g = (v, ctx, g')" "v = Served a r \<or> v = Forwarded a rq'"
  obtains domain site site3 g3 where "route x px env rq g = (Inr (domain, site), g)" "same_policies site3 site"
    "admit_request x px env rq domain site3 g3 = (Inr a, g')" "gw_payments g3 = gw_payments g" "gw_lightning g3 = gw_lightning g"
    "v = finish_request rq site3 a" "cx_site ctx = Some site" "cx_receipt ctx = receipt_of a" "request_authority rq = Some (cx_host ctx)"
proof -
  obtain r1 g1 where ro: "route x px env rq g = (r1, g1)" by fastforce
  obtain domain site where r1: "r1 = Inr (domain, site)"
    using assms ro by (cases r1) (auto simp: request_filter_def Let_def)
  have g1: "g1 = g" using route_Inr ro r1 by blast
  obtain site2 g2 where l: "limit_attempts env rq domain site g = (Inr site2, g2)"
    using assms ro r1 g1 by (auto simp: request_filter_def Let_def split: sum.splits prod.splits)
  obtain site3 permit g3 where t: "take_capacity rq domain site2 g2 = (Inr (site3, permit), g3)"
    using assms ro r1 g1 l by (auto simp: request_filter_def Let_def split: sum.splits prod.splits)
  obtain a' where ad: "admit_request x px env rq domain site3 g3 = (Inr a', g')" "v = finish_request rq site3 a'"
    "cx_site ctx = Some site" "cx_receipt ctx = receipt_of a'"
    "cx_host ctx = (case Option.bind (request_authority rq) (request_domain (gx_authority x)) of
            None \<Rightarrow> [] | Some _ \<Rightarrow> (case request_authority rq of Some a \<Rightarrow> a | None \<Rightarrow> []))"
    using assms ro r1 g1 l t by (auto simp: request_filter_def Let_def split: sum.splits prod.splits)
  have "a' = a" using assms(2) ad(2) by (auto simp: finish_request_def Let_def split: handler.splits)
  moreover have "request_authority rq = Some (cx_host ctx)"
    using route_Inr [OF ro [unfolded r1]] ad(5) by (auto simp: bind_eq_Some_conv)
  ultimately show ?thesis
    using that [of domain site site3 g3] ro r1 g1 ad(1-4) limit_attempts_Inr [OF l] take_capacity_Inr [OF t]
    by (auto simp: same_policies_def)
qed

section \<open>Admission\<close>

text \<open>The evidence for an admission: the settlement that succeeded, of the payment in the request's header, on
  a private channel and for the hash of this very request, with its effect on the state; or the limiter
  that let the client pass.\<close>

definition evidence ::
  "gateway_ext \<Rightarrow> proxy \<Rightarrow> request_env \<Rightarrow> request \<Rightarrow> string \<Rightarrow> site \<Rightarrow> gateway \<Rightarrow> admission \<Rightarrow> gateway \<Rightarrow> bool" where
  "evidence x px env rq domain site g a g' \<longleftrightarrow>
     (case a of
        By_l402 \<Rightarrow> private_channel px rq \<and> (\<exists>p service url hash v encoded store.
          site_lightning site = Some p \<and> proto_l402 (lp_protocols p) \<and> gw_lightning g = Some service
          \<and> get_all (rq_headers rq) ''authorization'' = [v] \<and> l402_scheme v = Some encoded
          \<and> lightning_binding x px rq p (max_body_bytes (site_controls site)) = Some (url, hash)
          \<and> settle_l402 (gx_ln x) (gx_l402 x) (re_settle env) p hash encoded (ls_store service) = (Inr (), store)
          \<and> gw_lightning g' = Some (service\<lparr>ls_store := store\<rparr>))
      | By_x402 receipt \<Rightarrow> private_channel px rq \<and> (\<exists>p service url hash encoded h network store.
          site_lightning site = Some p \<and> proto_x402 (lp_protocols p) \<and> gw_lightning g = Some service
          \<and> get_all (rq_headers rq) ''payment-signature'' = [encoded]
          \<and> lightning_binding x px rq p (max_body_bytes (site_controls site)) = Some (url, hash)
          \<and> ln_settle (gx_ln x) (re_settle env) p hash encoded (ls_store service) = (Inr (h, network), store)
          \<and> receipt = gx_receipt x h network \<and> gw_lightning g' = Some (service\<lparr>ls_store := store\<rparr>))
      | By_cashu \<Rightarrow> private_channel px rq \<and> (\<exists>p encoded ps ps'.
          site_payment site = Some p \<and> gw_payments g = Some ps \<and> get_all (rq_headers rq) ''x-cashu'' = [encoded]
          \<and> collect (gx_cashu x) (re_collect env) (re_collect_timeout env) domain p encoded ps = (Inr (), ps')
          \<and> gw_payments g' = Some ps')
      | By_allowance \<Rightarrow> (\<exists>limiter client limiter'. site_rate_limit site = Some limiter \<and> rq_client rq = Some client
          \<and> limiter_check limiter client (re_limit_now env) = (Admitted, limiter'))
      | Free \<Rightarrow> \<not> takes_payment site \<and> site_rate_limit site = None)"

lemma evidence_cong:
  "same_policies s t \<Longrightarrow> gw_payments g = gw_payments h \<Longrightarrow> gw_lightning g = gw_lightning h \<Longrightarrow>
    evidence x px env rq domain s g a g' = evidence x px env rq domain t h a g'"
  by (cases a) (simp_all add: evidence_def same_policies_def takes_payment_def)

text \<open>The header a Lightning proof is taken from.\<close>

definition proof_header :: "request \<Rightarrow> string \<Rightarrow> bool \<Rightarrow> bool" where
  "proof_header rq encoded using_l402 \<longleftrightarrow>
     (if using_l402 then \<exists>v. get_all (rq_headers rq) ''authorization'' = [v] \<and> l402_scheme v = Some encoded
      else get_all (rq_headers rq) ''payment-signature'' = [encoded])"

lemma lightning_proof_Inr:
  assumes "lightning_proof rq site = Inr (Some (encoded, using_l402))"
  obtains p where "site_lightning site = Some p" "if using_l402 then proto_l402 (lp_protocols p) else proto_x402 (lp_protocols p)"
    "proof_header rq encoded using_l402"
proof -
  obtain l402 x402 where l: "l402_header rq site = Inr l402" "x402_header rq site = Inr x402"
    "x402_disabled site \<longrightarrow> \<not> contains_key (rq_headers rq) ''payment-signature''"
    "(case l402 of Some c \<Rightarrow> Some (c, True) | None \<Rightarrow> map_option (\<lambda>v. (v, False)) x402) = Some (encoded, using_l402)"
    using assms unfolding lightning_proof_def bind_result_eq_Inr by (auto split: if_splits)
  show ?thesis
  proof (cases l402)
    case (Some c)
    then have "l402_enabled site" "proof_header rq encoded using_l402"
      using l(1,4) by (auto simp: l402_header_def proof_header_def reply_headers_def split: if_splits list.splits option.splits)
    then show ?thesis using that Some l(4) by (auto simp: l402_enabled_def split: option.splits)
  next
    case None
    then obtain v where v: "x402 = Some v" "\<not> using_l402" "encoded = v" using l(4) by auto
    then have "contains_key (rq_headers rq) ''payment-signature''" "site_lightning site \<noteq> None" "proof_header rq encoded using_l402"
      using l(2) by (auto simp: x402_header_def contains_key_def proof_header_def reply_def split: option.splits list.splits if_splits)
    then show ?thesis using that v(2) l(3) by (auto simp: x402_disabled_def split: option.splits)
  qed
qed

lemma settle_lightning_Inr:
  assumes "settle_lightning x px env rq site encoded using_l402 g = (Inr a, g')" "site_lightning site = Some p"
    and "if using_l402 then proto_l402 (lp_protocols p) else proto_x402 (lp_protocols p)" "proof_header rq encoded using_l402"
  shows "evidence x px env rq domain site g a g'"
proof -
  have pc: "private_channel px rq" using assms(1) by (auto simp: settle_lightning_def split: if_splits)
  obtain service url hash where b: "gw_lightning g = Some service"
    "lightning_binding x px rq p (max_body_bytes (site_controls site)) = Some (url, hash)"
    using assms(1,2) pc by (auto simp: settle_lightning_def split: option.splits)
  show ?thesis
  proof (cases using_l402)
    case True
    obtain r store where s: "settle_l402 (gx_ln x) (gx_l402 x) (re_settle env) p hash encoded (ls_store service) = (r, store)" by fastforce
    have "r = Inr () \<and> a = By_l402 \<and> gw_lightning g' = Some (service\<lparr>ls_store := store\<rparr>)"
      using assms(1,2) pc b s True by (cases r) (auto simp: settle_lightning_def split: ln_error.splits)
    then show ?thesis using pc b s assms(2-4) True by (auto simp: evidence_def proof_header_def)
  next
    case False
    obtain r store where s: "ln_settle (gx_ln x) (re_settle env) p hash encoded (ls_store service) = (r, store)" by fastforce
    obtain h network where "r = Inr (h, network)" "a = By_x402 (gx_receipt x h network)" "gw_lightning g' = Some (service\<lparr>ls_store := store\<rparr>)"
      using assms(1,2) pc b s False by (cases r) (auto simp: settle_lightning_def split: ln_error.splits)
    then show ?thesis using pc b s assms(2-4) False unfolding evidence_def admission.case proof_header_def by auto
  qed
qed

lemma settle_cashu_Inr:
  assumes "settle_cashu x px env rq domain p (t # ts) g = (Inr a, g')" "site_payment site = Some p"
    and "get_all (rq_headers rq) ''x-cashu'' = t # ts"
  shows "evidence x px env rq domain site g a g'"
proof -
  have c: "ts = []" "private_channel px rq"
    using assms(1) by (auto simp: settle_cashu_def split: list.splits if_splits)
  obtain ps where ps: "gw_payments g = Some ps"
    using assms(1) c by (auto simp: settle_cashu_def split: if_splits option.splits)
  obtain r ps' where s: "collect (gx_cashu x) (re_collect env) (re_collect_timeout env) domain p t ps = (r, ps')" by fastforce
  have "r = Inr () \<and> a = By_cashu \<and> gw_payments g' = Some ps'"
    using assms(1) c ps s by (cases r) (auto simp: settle_cashu_def split: if_splits payment_error.splits)
  then show ?thesis using assms(2,3) c ps s by (auto simp: evidence_def)
qed

lemma ask_payment_not_Inr: "ask_payment x px env rq site client retry g \<noteq> (Inr a, g')"
  by (auto simp: ask_payment_def Let_def split: prod.splits)

lemma free_allowance_Inr:
  assumes "free_allowance x px env rq domain site g = (Inr a, g')"
  shows "evidence x px env rq domain site g a g'"
proof -
  obtain client where c: "rq_client rq = Some client" using assms by (cases "rq_client rq") (auto simp: free_allowance_def)
  show ?thesis
  proof (cases "site_rate_limit site")
    case None
    then show ?thesis using assms c by (auto simp: free_allowance_def ask_payment_not_Inr Let_def split: if_splits)
  next
    case (Some limiter)
    obtain r limiter' where l: "limiter_check limiter client (re_limit_now env) = (r, limiter')" by fastforce
    have "r = Admitted \<and> a = By_allowance"
      using assms c Some l by (cases r) (auto simp: free_allowance_def ask_payment_not_Inr Let_def split: if_splits)
    then show ?thesis using c Some l by (simp add: evidence_def)
  qed
qed

lemma admit_request_evidence:
  assumes "admit_request x px env rq domain site g = (Inr a, g')"
  shows "evidence x px env rq domain site g a g'"
proof (cases "lightning_proof rq site")
  case (Inl e)
  then show ?thesis using assms by (simp add: admit_request_def)
next
  case (Inr pf)
  show ?thesis
  proof (cases pf)
    case (Some ep)
    obtain encoded using_l402 where ep: "ep = (encoded, using_l402)" by fastforce
    obtain p where "site_lightning site = Some p" "if using_l402 then proto_l402 (lp_protocols p) else proto_x402 (lp_protocols p)"
      "proof_header rq encoded using_l402"
      using lightning_proof_Inr Inr Some ep by blast
    then show ?thesis using settle_lightning_Inr assms Inr Some ep by (auto simp: admit_request_def)
  next
    case None
    consider (cashu) p t ts where "site_payment site = Some p" "get_all (rq_headers rq) ''x-cashu'' = t # ts"
      | (free) "site_rate_limit site = None" "\<not> takes_payment site" "a = Free"
      | (allow) "free_allowance x px env rq domain site g = (Inr a, g')"
      using assms Inr None
      by (auto simp: admit_request_def takes_payment_def split: option.splits list.splits if_splits)
    then show ?thesis
    proof cases
      case cashu
      then show ?thesis using settle_cashu_Inr assms Inr None by (auto simp: admit_request_def)
    next
      case free
      then show ?thesis by (simp add: evidence_def)
    next
      case allow
      then show ?thesis by (rule free_allowance_Inr)
    qed
  qed
qed

text \<open>
  C1: No paid site is reached unpaid. When a request is forwarded to the upstream of a site or answered by
  its static response, the site is the configured one for the request's host, it is reached over its
  own scheme, and the admission has its evidence. For a site that takes payments this is a successful
  settlement, over TLS or from the machine itself, of the L402 credential or x402 payment in the request's
  only header for it, bound to this very request, or of the single Cashu token presented, and the settled
  state is the one the gateway goes on with; or an admission by the site's free allowance.
\<close>

theorem paid_site_needs_evidence:
  assumes "request_filter x px env rq g = (v, ctx, g')" "v = Served a r \<or> v = Forwarded a rq'"
  shows "\<exists>domain site. Option.bind (request_authority rq) (request_domain (gx_authority x)) = Some domain
     \<and> fmlookup (cfg_sites (gw_config g)) domain = Some site \<and> px_tls px = site_https site
     \<and> evidence x px env rq domain site g a g' \<and> (takes_payment site \<longrightarrow> a \<noteq> Free)"
proof -
  obtain domain site site3 g3 where f: "route x px env rq g = (Inr (domain, site), g)" "same_policies site3 site"
    "admit_request x px env rq domain site3 g3 = (Inr a, g')" "gw_payments g3 = gw_payments g" "gw_lightning g3 = gw_lightning g"
    by (rule request_filter_passes [OF assms])
  have e: "evidence x px env rq domain site g a g'"
    using admit_request_evidence [OF f(3)] evidence_cong [OF f(2,4,5)] by simp
  show ?thesis
    using route_Inr [OF f(1)] e by (auto simp: evidence_def)
qed

section \<open>Headers\<close>

lemma get_all_remove [simp]: "get_all (remove_header m hs) n = (if n = m then [] else get_all hs n)"
  by (induction hs) (auto simp: get_all_def remove_header_def)

lemma get_all_append: "get_all (hs @ hs') n = get_all hs n @ get_all hs' n"
  by (simp add: get_all_def)

lemma get_all_insert [simp]: "get_all (insert_header m v hs) n = (if n = m then [v] else get_all hs n)"
  by (simp add: insert_header_def get_all_append) (simp add: get_all_def)

lemma get_all_fold_remove: "get_all (fold remove_header ms hs) n = (if n \<in> set ms then [] else get_all hs n)"
  by (induction ms arbitrary: hs) auto

lemma get_all_strip:
  "get_all (strip_credentials site hs) n =
     (if (l402_enabled site \<and> n = ''authorization'') \<or> (takes_payment site \<and> n \<in> {''x-cashu'', ''payment-signature''}) then []
      else get_all hs n)"
  by (simp add: strip_credentials_def Let_def)

lemma insert_header_other: "n \<noteq> m \<Longrightarrow> get_all (insert_header m v hs) n = get_all hs n"
  by simp

text \<open>
  C17: The upstream sees no credentials and no forged addresses. A forwarded request goes to the upstream of
  the configured site for its host. When the site takes payments, what is sent has no Cashu token and no
  payment signature, and when its Lightning policy enables L402 no authorization. The forwarding headers
  are exactly the ones the gateway wrote from the connection and the request's host, whatever the client
  sent. Every other header arrives as the client sent it; so does the authorization at a site without L402.
\<close>

theorem upstream_headers_clean:
  assumes "request_filter x px env rq g = (Forwarded a rq', ctx, g')"
    and "h = upstream_request_filter show_ip px ctx (rq_client rq) (rq_headers rq')"
  shows "\<exists>host domain site up. request_authority rq = Some host \<and> request_domain (gx_authority x) host = Some domain
     \<and> fmlookup (cfg_sites (gw_config g)) domain = Some site \<and> site_handler site = Proxy up
     \<and> get_all h ''x-forwarded-for'' = (case rq_client rq of Some ip \<Rightarrow> [show_ip ip] | None \<Rightarrow> [])
     \<and> get_all h ''x-real-ip'' = (case rq_client rq of Some ip \<Rightarrow> [show_ip ip] | None \<Rightarrow> [])
     \<and> get_all h ''x-forwarded-proto'' = [http_scheme px] \<and> get_all h ''x-forwarded-host'' = [host]
     \<and> get_all h ''forwarded'' = [] \<and> get_all h ''x-forwarded-port'' = []
     \<and> get_all h ''host'' = [if up_tls up then up_authority up else host]
     \<and> (\<forall>n. n \<notin> {''forwarded'', ''x-forwarded-for'', ''x-forwarded-host'', ''x-forwarded-proto'', ''x-forwarded-port'', ''x-real-ip'', ''host''}
          \<longrightarrow> get_all h n =
            (if n \<in> {''x-cashu'', ''payment-signature''} \<and> (site_payment site \<noteq> None \<or> site_lightning site \<noteq> None)
                \<or> n = ''authorization'' \<and> (\<exists>p. site_lightning site = Some p \<and> proto_l402 (lp_protocols p))
             then [] else get_all (rq_headers rq) n))"
proof -
  obtain domain site site3 g3 where f: "route x px env rq g = (Inr (domain, site), g)" "same_policies site3 site"
    "Forwarded a rq' = finish_request rq site3 a" "cx_site ctx = Some site" "request_authority rq = Some (cx_host ctx)"
    using request_filter_passes [OF assms(1) disjI2 [OF refl]] by metis
  obtain up where up: "site_handler site = Proxy up" "rq_headers rq' = strip_credentials site (rq_headers rq)"
  proof (cases "site_handler site3")
    case (Proxy up)
    have "strip_credentials site3 hs = strip_credentials site hs" for hs
      using f(2) by (simp add: strip_credentials_def l402_enabled_def takes_payment_def same_policies_def)
    moreover have "site_handler site = Proxy up" using f(2) Proxy by (simp add: same_policies_def)
    ultimately show ?thesis using that [of up] f(3) Proxy by (simp add: finish_request_def Let_def)
  next
    case (Respond body status)
    then show ?thesis using f(3) by (simp add: finish_request_def Let_def)
  qed
  have l: "l402_enabled site \<longleftrightarrow> (\<exists>p. site_lightning site = Some p \<and> proto_l402 (lp_protocols p))"
    by (simp add: l402_enabled_def split: option.split)
  note s = assms(2) [unfolded upstream_request_filter_def Let_def f(4) option.case up handler.case]
  note r = route_Inr [OF f(1)]
  show ?thesis
  proof (intro exI conjI)
    show "request_authority rq = Some (cx_host ctx)" "site_handler site = Proxy up" by (rule f up)+
    show "request_domain (gx_authority x) (cx_host ctx) = Some domain" "fmlookup (cfg_sites (gw_config g)) domain = Some site"
      using r f(5) by simp_all
    have p: "takes_payment site \<longleftrightarrow> site_payment site \<noteq> None \<or> site_lightning site \<noteq> None"
      by (auto simp: takes_payment_def)
    have n: "get_all h n = get_all (strip_credentials site (rq_headers rq)) n" if "n \<notin> set forwarding_headers \<union> {''host''}" for n
      using that by (auto simp: s get_all_fold_remove get_all_strip forwarding_headers_def split: option.split)
    have strip: "get_all (strip_credentials site (rq_headers rq)) n =
      (if n \<in> {''x-cashu'', ''payment-signature''} \<and> takes_payment site \<or> n = ''authorization'' \<and> l402_enabled site
       then [] else get_all (rq_headers rq) n)" for n
      by (simp only: get_all_strip disj_commute conj_commute)
    show "\<forall>n. n \<notin> {''forwarded'', ''x-forwarded-for'', ''x-forwarded-host'', ''x-forwarded-proto'', ''x-forwarded-port'', ''x-real-ip'', ''host''}
          \<longrightarrow> get_all h n =
            (if n \<in> {''x-cashu'', ''payment-signature''} \<and> (site_payment site \<noteq> None \<or> site_lightning site \<noteq> None)
                \<or> n = ''authorization'' \<and> (\<exists>p. site_lightning site = Some p \<and> proto_l402 (lp_protocols p))
             then [] else get_all (rq_headers rq) n)"
      unfolding p [symmetric] l [symmetric] strip [symmetric]
      by (intro allI impI n) (simp add: forwarding_headers_def)
  qed (simp_all add: s get_all_fold_remove get_all_strip forwarding_headers_def split: option.split)
qed

section \<open>Responses\<close>

lemma get_all_fold_insert: "n \<notin> fst ` set hs \<Longrightarrow> get_all (fold (\<lambda>(n, v). insert_header n v) hs base) n = get_all base n"
  by (induction hs arbitrary: base) auto

text \<open>
  The gateway's own responses are framed right. A response to HEAD and one with status 204, 205 or 304
  has no body; 204 and 304 have no content length; and every other response to another method states
  the length of exactly the body it sends, once, unless the caller passes a length of its own.
\<close>

lemma response_framing:
  assumes "''content-length'' \<notin> fst ` set headers" "status = 205 \<longrightarrow> body = []"
  shows "(rq_method rq = ''HEAD'' \<or> status \<in> {204, 205, 304} \<longrightarrow> rs_body (respond_with_headers rq status body headers) = [])
     \<and> (status \<in> {204, 304} \<longrightarrow> get_all (rs_headers (respond_with_headers rq status body headers)) ''content-length'' = [])
     \<and> (status \<notin> {204, 304} \<and> rq_method rq \<noteq> ''HEAD'' \<longrightarrow>
          rs_body (respond_with_headers rq status body headers) = body
          \<and> get_all (rs_headers (respond_with_headers rq status body headers)) ''content-length'' = [show_nat (length body)])"
  using assms(2) get_all_fold_insert [OF assms(1)]
  by (auto simp: respond_with_headers_def Let_def) (simp_all add: get_all_def)

section \<open>Permits\<close>

definition capacity_at :: "string \<Rightarrow> gateway \<Rightarrow> capacity option" where
  "capacity_at domain g = Option.bind (fmlookup (cfg_sites (gw_config g)) domain) site_capacity"

lemma capacity_at_simps [simp]:
  "capacity_at domain (put_site domain s g) = site_capacity s"
  "capacity_at domain (g\<lparr>gw_lightning := l\<rparr>) = capacity_at domain g"
  "capacity_at domain (g\<lparr>gw_payments := p\<rparr>) = capacity_at domain g"
  "capacity_at domain (g\<lparr>gw_redirects := w\<rparr>) = capacity_at domain g"
  by (simp_all add: capacity_at_def put_site_def)

lemma route_capacity: "route x px env rq g = (r, g') \<Longrightarrow> capacity_at domain g' = capacity_at domain g"
  by (auto simp: route_def redirect_to_https_def Let_def split: option.splits if_splits prod.splits)

lemma ask_payment_capacity: "ask_payment x px env rq site client retry g = (r, g') \<Longrightarrow> capacity_at domain g' = capacity_at domain g"
  by (auto simp: ask_payment_def Let_def split: option.splits prod.splits)

lemma limit_attempts_capacity:
  "limit_attempts env rq domain site g = (r, g') \<Longrightarrow> capacity_at domain g = site_capacity site \<Longrightarrow>
    capacity_at domain g' = site_capacity site \<and> (\<forall>site'. r = Inr site' \<longrightarrow> site_capacity site' = site_capacity site)"
  by (auto simp: limit_attempts_def Let_def split: if_splits option.splits prod.splits check_result.splits)

lemma free_allowance_capacity:
  assumes "free_allowance x px env rq domain site g = (r, g')" "capacity_at domain g = site_capacity site"
  shows "capacity_at domain g' = site_capacity site"
proof (cases "rq_client rq")
  case (Some client)
  show ?thesis
  proof (cases "site_rate_limit site")
    case None
    then show ?thesis using assms Some
      by (auto simp: free_allowance_def Let_def split: if_splits dest: ask_payment_capacity [where domain = domain])
  next
    case (Some limiter)
    obtain q limiter' where "limiter_check limiter client (re_limit_now env) = (q, limiter')" by fastforce
    then show ?thesis using assms Some \<open>rq_client rq = Some client\<close>
      by (cases q) (auto simp: free_allowance_def Let_def split: if_splits dest: ask_payment_capacity [where domain = domain])
  qed
qed (use assms in \<open>simp add: free_allowance_def\<close>)

lemma admit_request_capacity:
  assumes "admit_request x px env rq domain site g = (r, g')" "capacity_at domain g = site_capacity site"
  shows "capacity_at domain g' = site_capacity site"
proof -
  have l: "settle_lightning x px env rq site e u g = (r, g') \<Longrightarrow> capacity_at domain g' = capacity_at domain g" for e u
    by (auto simp: settle_lightning_def split: if_splits option.splits prod.splits)
  have c: "settle_cashu x px env rq domain p ts g = (r, g') \<Longrightarrow> capacity_at domain g' = capacity_at domain g" for p ts
    by (auto simp: settle_cashu_def split: if_splits option.splits prod.splits list.splits)
  show ?thesis
    using assms l c free_allowance_capacity
    by (auto simp: admit_request_def split: sum.splits option.splits list.splits if_splits)
qed

lemma end_request_capacity:
  "cx_permit ctx = Some k \<Longrightarrow> capacity_at domain g = Some c \<Longrightarrow> capacity_at domain (end_request domain ctx g) = Some (give_back c k)"
  by (auto simp: end_request_def capacity_at_def put_site_def split: option.splits Option.bind_splits)

lemma take_capacity_cases:
  assumes "take_capacity rq domain site g = (r, g')" "site_capacity site = Some c" "capacity_at domain g = Some c"
  obtains e where "r = Inl e" "capacity_at domain g' = Some c"
  | ip k c' site' where "r = Inr (site', Some k)" "try_acquire c ip = (Some k, c')" "site_capacity site' = Some c'"
      "capacity_at domain g' = Some c'"
proof (cases "rq_client rq")
  case None
  then show ?thesis using assms that(1) by (auto simp: take_capacity_def)
next
  case (Some ip)
  obtain q c' where q: "try_acquire c ip = (q, c')" by fastforce
  show ?thesis
  proof (cases q)
    case None
    then have "c' = c" using q by (auto simp: try_acquire_def Let_def split: if_splits)
    then show ?thesis using assms that(1) Some None q by (auto simp: take_capacity_def reply_headers_def Let_def)
  next
    case (Some k)
    then show ?thesis using assms that(2) [of "site\<lparr>site_capacity := Some c'\<rparr>" k ip c'] q \<open>rq_client rq = Some ip\<close>
      by (auto simp: take_capacity_def Let_def)
  qed
qed

text \<open>
  C33: Capacity is not leaked. Whatever becomes of a request, refused, failed, served or forwarded, once it
  has ended the capacity of its site is exactly what it was before: the slot and the client's share it
  took are given back.
\<close>

theorem capacity_given_back:
  assumes "request_filter x px env rq g = (v, ctx, g')"
    and "Option.bind (request_authority rq) (request_domain (gx_authority x)) = Some domain"
    and "capacity_at domain g = Some c" "capacity_counts c"
  shows "capacity_at domain (end_request domain ctx g') = Some c"
proof -
  have kept: "capacity_at domain (end_request domain ctx g') = capacity_at domain g'" if "cx_permit ctx = None"
    using that by (simp add: end_request_def)
  have none: "cx_permit (new_ctx t) = None" for t by (simp add: new_ctx_def)
  obtain r1 g1 where ro: "route x px env rq g = (r1, g1)" by fastforce
  note rc = route_capacity [OF ro, of domain]
  show ?thesis
  proof (cases r1)
    case (Inl e)
    then show ?thesis using assms(1,3) ro rc kept none by (auto simp: request_filter_def Let_def)
  next
    case (Inr ds)
    obtain domain' site where ds': "ds = (domain', site)" by fastforce
    have ds: "ds = (domain, site)" "fmlookup (cfg_sites (gw_config g)) domain = Some site" "g1 = g"
      using route_Inr [OF ro [unfolded Inr ds']] assms(2) ds' by simp_all
    note u1 = assms(1) [unfolded request_filter_def Let_def ro Inr ds(1,3) sum.case prod.case]
    show ?thesis
    proof (cases "check_body_length rq site")
      case (Inl e)
      then show ?thesis using u1 kept none assms(3) by auto
    next
      case True: (Inr ok)
      obtain r2 g2 where l: "limit_attempts env rq domain site g = (r2, g2)" by fastforce
      have lc: "capacity_at domain g2 = Some c" "r2 = Inr site2 \<Longrightarrow> site_capacity site2 = Some c" for site2
        using limit_attempts_capacity [OF l] assms(3) ds(2) by (auto simp: capacity_at_def)
      note u = u1 [unfolded True l sum.case prod.case]
      show ?thesis
      proof (cases r2)
        case (Inl e)
        then show ?thesis using u kept lc(1) none by auto
      next
        case (Inr site2)
        obtain r3 g3 where t: "take_capacity rq domain site2 g2 = (r3, g3)" by fastforce
        show ?thesis
        proof (rule take_capacity_cases [OF t lc(2) [OF Inr] lc(1)])
          fix e assume "r3 = Inl e" "capacity_at domain g3 = Some c"
          then show ?thesis using u kept none Inr t by auto
        next
          fix ip k c' site3
          assume k: "r3 = Inr (site3, Some k)" "try_acquire c ip = (Some k, c')" "site_capacity site3 = Some c'" "capacity_at domain g3 = Some c'"
          obtain r4 g4 where ad: "admit_request x px env rq domain site3 g3 = (r4, g4)" by fastforce
          have "cx_permit ctx = Some k" "g' = g4" using u Inr t k(1) ad by (auto split: sum.splits)
          then show ?thesis
            using end_request_capacity [of ctx k domain g4 c'] admit_request_capacity [OF ad] give_back_acquired [OF assms(4) k(2)] k(3,4)
            by simp
        qed
      qed
    qed
  qed
qed

section \<open>Witnesses\<close>

definition demo_site :: site where
  "demo_site = \<lparr>site_domain = ''w'', site_https = False,
     site_handler = Proxy \<lparr>up_host = ''b'', up_port = 80, up_tls = False, up_authority = ''b''\<rparr>,
     site_rate_limit = None, site_payment = Some demo_price, site_lightning = None, site_capacity = Some (capacity_new 4),
     site_controls = controls_default, payment_verification = demo_limiter\<rparr>"

definition demo_gateway :: gateway where
  "demo_gateway = \<lparr>gw_config = \<lparr>cfg_sites = fmupd ''w'' demo_site fmempty, cfg_payouts = []\<rparr>, gw_redirects = demo_limiter,
     gw_payments = Some demo_wallets, gw_lightning = None, gw_challenges = fmempty\<rparr>"

definition demo_gateway_ext :: gateway_ext where
  "demo_gateway_ext = \<lparr>gx_authority = (\<lambda>s. Some (s, s)), gx_externals = demo_ext, gx_ln = demo_ln, gx_l402 = demo_l402,
     gx_cashu = demo_cashu, gx_required_json = (\<lambda>_ _. []), gx_cashu_challenge = (\<lambda>_. ''creq''), gx_receipt = (\<lambda>_ _. [])\<rparr>"

definition demo_rq :: request where
  "demo_rq = \<lparr>rq_method = ''GET'', rq_scheme = None, rq_authority = None, rq_path = ''/'', rq_path_and_query = Some ''/'',
     rq_headers = [(''host'', ''w''), (''x-cashu'', ''cashuB1''), (''x-real-ip'', ''6''), (''accept'', ''a'')],
     rq_client = Some (V4 0x7F000001), rq_body = [], rq_buffer_truncated = False, rq_body_timeout = False\<rparr>"

definition demo_rq_env :: request_env where
  "demo_rq_env = \<lparr>re_started = 0, re_redirect_now = 0, re_verify_now = 0, re_limit_now = 0, re_settle = demo_env 0,
     re_collect = demo_collect, re_collect_timeout = None,
     re_challenge = \<lparr>ce_instant = 0, ce_capacity = demo_env 0, ce_ldk_invoice = None, ce_cashu = demo_env 0, ce_now = None,
       ce_root = None, ce_random = None, ce_mint = demo_env 0\<rparr>\<rparr>"

definition demo_px :: proxy where "demo_px = \<lparr>px_tls = False, px_https_port = 443\<rparr>"

lemma demo_request_domain:
  "request_authority demo_rq = Some ''w''" "request_domain (gx_authority demo_gateway_ext) ''w'' = Some ''w''"
  by (simp_all add: request_authority_def header_str_def demo_rq_def get_all_def header_text_ok_def request_domain_def demo_gateway_ext_def
      to_ascii_lowercase_def ascii_lower_def is_ascii_upper_def trim_matches_def trim_end_matches_def trim_start_matches_def)

lemma demo_verified: "fst (limiter_check demo_limiter (V4 0x7F000001) 0) = Admitted"
  by (simp add: limiter_check_def shard_index_def limiter_eval)

lemma demo_private: "private_channel demo_px demo_rq"
proof -
  have "drop_bit 24 (0x7F000001 :: 32 word) = 127" by (simp add: drop_bit_eq_div)
  then show ?thesis by (simp add: private_channel_def demo_px_def demo_rq_def is_loopback_def)
qed

lemma demo_forwarded:
  "\<exists>rq' ctx g'. request_filter demo_gateway_ext demo_px demo_rq_env demo_rq demo_gateway = (Forwarded By_cashu rq', ctx, g')"
proof -
  let ?x = demo_gateway_ext
  let ?env = demo_rq_env
  have ro: "route ?x demo_px ?env demo_rq demo_gateway = (Inr (''w'', demo_site), demo_gateway)"
    by (simp add: route_def demo_request_domain demo_px_def demo_gateway_def demo_site_def strip_prefix_def acme_prefix_def)
      (simp add: demo_rq_def)
  have len: "check_body_length demo_rq demo_site = Inr ()"
    by (simp add: check_body_length_def demo_rq_def header_str_def get_all_def demo_site_def controls_default_def)
  obtain limiter where lim: "limiter_check demo_limiter (V4 0x7F000001) 0 = (Admitted, limiter)"
    using demo_verified by (cases "limiter_check demo_limiter (V4 0x7F000001) 0") auto
  let ?s2 = "demo_site\<lparr>payment_verification := limiter\<rparr>"
  have la: "limit_attempts ?env demo_rq ''w'' demo_site demo_gateway = (Inr ?s2, put_site ''w'' ?s2 demo_gateway)"
    using lim by (simp add: limit_attempts_def payment_attempt_def demo_site_def demo_rq_def contains_key_def get_all_def demo_rq_env_def Let_def)
  obtain k c' where c: "try_acquire (capacity_new 4) (V4 0x7F000001) = (Some k, c')"
    by (simp add: try_acquire_def capacity_new_def Let_def)
  let ?s3 = "?s2\<lparr>site_capacity := Some c'\<rparr>"
  let ?g3 = "put_site ''w'' ?s3 (put_site ''w'' ?s2 demo_gateway)"
  have tc: "take_capacity demo_rq ''w'' ?s2 (put_site ''w'' ?s2 demo_gateway) = (Inr (?s3, Some k), ?g3)"
    using c by (simp add: take_capacity_def demo_site_def demo_rq_def Let_def)
  obtain ps' where co: "collect demo_cashu demo_collect None ''w'' demo_price ''cashuB1'' demo_wallets = (Inr (), ps')"
    using demo_collected by blast
  have lp: "lightning_proof demo_rq ?s3 = Inr None"
    by (simp add: lightning_proof_def l402_header_def x402_header_def l402_enabled_def x402_disabled_def demo_site_def)
  have h: "get_all (rq_headers demo_rq) ''x-cashu'' = [''cashuB1'']" by (simp add: demo_rq_def get_all_def)
  have gp: "gw_payments demo_gateway = Some demo_wallets" "site_payment demo_site = Some demo_price" "re_collect ?env = demo_collect"
    "re_collect_timeout ?env = None" "gx_cashu ?x = demo_cashu" "header_text_ok ''cashuB1''"
    by (simp_all add: demo_gateway_def demo_site_def demo_rq_env_def demo_gateway_ext_def header_text_ok_def)
  have ad: "admit_request ?x demo_px ?env demo_rq ''w'' ?s3 ?g3 = (Inr By_cashu, ?g3\<lparr>gw_payments := Some ps'\<rparr>)"
    using co demo_private by (simp add: admit_request_def lp h settle_cashu_def gp)
  show ?thesis
    by (simp add: request_filter_def Let_def ro len la tc ad) (simp add: finish_request_def demo_site_def)
qed

theorem paid_site_needs_evidence_witness:
  "\<exists>rq' ctx g' domain site. request_filter demo_gateway_ext demo_px demo_rq_env demo_rq demo_gateway = (Forwarded By_cashu rq', ctx, g')
     \<and> evidence demo_gateway_ext demo_px demo_rq_env demo_rq domain site demo_gateway By_cashu g'"
proof -
  obtain rq' ctx g' where f: "request_filter demo_gateway_ext demo_px demo_rq_env demo_rq demo_gateway = (Forwarded By_cashu rq', ctx, g')"
    using demo_forwarded by blast
  show ?thesis using paid_site_needs_evidence [OF f disjI2 [OF refl]] f by blast
qed

theorem upstream_headers_clean_witness:
  "\<exists>rq' ctx g'. request_filter demo_gateway_ext demo_px demo_rq_env demo_rq demo_gateway = (Forwarded By_cashu rq', ctx, g')
     \<and> get_all (upstream_request_filter (\<lambda>_. ''127.0.0.1'') demo_px ctx (rq_client demo_rq) (rq_headers rq')) ''x-real-ip'' = [''127.0.0.1'']"
proof -
  obtain rq' ctx g' where f: "request_filter demo_gateway_ext demo_px demo_rq_env demo_rq demo_gateway = (Forwarded By_cashu rq', ctx, g')"
    using demo_forwarded by blast
  have "rq_client demo_rq = Some (V4 0x7F000001)" by (simp add: demo_rq_def)
  then show ?thesis
    using upstream_headers_clean [OF f refl, of "\<lambda>_. ''127.0.0.1''"] f unfolding option.case by (elim exE conjE) auto
qed

theorem capacity_given_back_witness:
  "\<exists>rq' ctx g'. request_filter demo_gateway_ext demo_px demo_rq_env demo_rq demo_gateway = (Forwarded By_cashu rq', ctx, g')
     \<and> capacity_at ''w'' (end_request ''w'' ctx g') = Some (capacity_new 4)"
proof -
  obtain rq' ctx g' where f: "request_filter demo_gateway_ext demo_px demo_rq_env demo_rq demo_gateway = (Forwarded By_cashu rq', ctx, g')"
    using demo_forwarded by blast
  have "capacity_at ''w'' (end_request ''w'' ctx g') = Some (capacity_new 4)"
    by (rule capacity_given_back [OF f])
      (simp_all add: demo_request_domain, simp_all add: capacity_at_def demo_gateway_def demo_site_def capacity_counts_def capacity_new_def)
  then show ?thesis using f by blast
qed

end
