(* ===== verification/Service.thy ===== *)
theory Service
  imports Gateway
begin

text \<open>
  The shared state of a running gateway: \<^verbatim>\<open>state.rs\<close> (start and reload of the configuration), the transport
  admission of \<^verbatim>\<open>connections.rs\<close>, and the summaries of rejected requests of \<^verbatim>\<open>proxy.rs\<close>. A limiter or a
  capacity that is shared across a reload is the old value in the new configuration; requests change the
  state of these, never a setting.
\<close>

section \<open>Start and reload\<close>

definition state_new :: "(ip_addr \<Rightarrow> nat) \<Rightarrow> (nat \<Rightarrow> nat) \<Rightarrow> config \<Rightarrow> gateway option" where
  "state_new hash now c =
     map_option (\<lambda>redirects. \<lparr>gw_config = c, gw_redirects = redirects, gw_payments = None, gw_lightning = None, gw_challenges = fmempty\<rparr>)
       (with_prefix \<lparr>per_second = 10, burst = 20\<rparr> 64 hash now)"

definition same_limiter :: "rate_limiter \<Rightarrow> rate_limiter \<Rightarrow> bool" where
  "same_limiter a b \<longleftrightarrow> rl_limit a = rl_limit b \<and> rl_ipv6_prefix a = rl_ipv6_prefix b"

definition keep_verification :: "site option \<Rightarrow> site \<Rightarrow> site" where
  "keep_verification previous site =
     (case previous of
        Some old \<Rightarrow>
          if same_limiter (payment_verification site) (payment_verification old)
          then site\<lparr>payment_verification := payment_verification old\<rparr> else site
      | None \<Rightarrow> site)"

definition keep_capacity :: "site option \<Rightarrow> site \<Rightarrow> site" where
  "keep_capacity previous site =
     (case (site_capacity site, Option.bind previous site_capacity) of
        (Some new, Some old) \<Rightarrow>
          if cap_max new = cap_max old \<and> cap_ipv6_prefix new = cap_ipv6_prefix old then site\<lparr>site_capacity := Some old\<rparr> else site
      | _ \<Rightarrow> site)"

definition keep_rate_limit :: "site option \<Rightarrow> site \<Rightarrow> site" where
  "keep_rate_limit previous site =
     (case (site_rate_limit site, Option.bind previous site_rate_limit) of
        (Some new, Some old) \<Rightarrow> if same_limiter new old then site\<lparr>site_rate_limit := Some old\<rparr> else site
      | _ \<Rightarrow> site)"

definition replace_config :: "config \<Rightarrow> gateway \<Rightarrow> gateway" where
  "replace_config c g =
     g\<lparr>gw_config := c\<lparr>cfg_sites := fmmap_keys (\<lambda>domain site.
         let previous = fmlookup (cfg_sites (gw_config g)) domain
         in keep_rate_limit previous (keep_capacity previous (keep_verification previous site))) (cfg_sites c)\<rparr>\<rparr>"

section \<open>Connections\<close>

definition connections_default :: capacity where
  "connections_default = (capacity_new 1024)\<lparr>per_client := 64\<rparr>"

text \<open>The rejection of a connection is counted under status 0.\<close>

definition connection_acquire :: "ip_addr option \<Rightarrow> capacity \<Rightarrow> ip_addr option \<times> capacity \<times> bool" where
  "connection_acquire peer c =
     (case peer of
        None \<Rightarrow> (None, c, True)
      | Some ip \<Rightarrow> (case try_acquire c ip of (permit, c') \<Rightarrow> (permit, c', permit = None)))"

text \<open>TLS connections have acquired before their handshake; a plaintext one acquires before its first byte
  is read, and is dropped when it gets no permit.\<close>

definition connection_admit :: "bool \<Rightarrow> ip_addr option \<Rightarrow> capacity \<Rightarrow> (ip_addr option) option \<times> capacity \<times> bool" where
  "connection_admit tls peer c =
     (if tls then (Some None, c, False)
      else (case connection_acquire peer c of
              (Some permit, c', rejected) \<Rightarrow> (Some (Some permit), c', rejected)
            | (None, c', rejected) \<Rightarrow> (None, c', rejected)))"

section \<open>Rejection summaries\<close>

record rejection_logs =
  rej_last :: nat
  rej_counts :: "nat list"

definition rejections_init :: "nat \<Rightarrow> rejection_logs" where
  "rejections_init now = \<lparr>rej_last = now, rej_counts = replicate 600 0\<rparr>"

definition record_status :: "nat \<Rightarrow> nat \<Rightarrow> rejection_logs \<Rightarrow> (nat \<times> nat) list option \<times> rejection_logs" where
  "record_status status now logs =
     (let index = min status 599;
          counts = (rej_counts logs)[index := saturating_add 64 (rej_counts logs ! index) 1]
      in if now - rej_last logs < 10 * TOKEN then (None, logs\<lparr>rej_counts := counts\<rparr>)
         else (Some (filter (\<lambda>(_, n). n \<noteq> 0) (List.enumerate 0 counts)),
               \<lparr>rej_last = now, rej_counts = replicate (length counts) 0\<rparr>))"

definition log_request :: "nat \<Rightarrow> bool \<Rightarrow> bool" where
  "log_request status failed \<longleftrightarrow> \<not> (400 \<le> status \<or> status = 308 \<or> status = 0 \<or> failed)"

section \<open>The settings of a configuration\<close>

text \<open>
  What the Geatafile says of a site, without the state its limits have gathered since: the buckets of the
  limiters and the permits in use. The running configuration of a gateway and the one last loaded have the
  same settings, whatever requests have changed in the former.
\<close>

definition limiter_settings :: "rate_limiter \<Rightarrow> limit \<times> nat" where
  "limiter_settings rl = (rl_limit rl, rl_ipv6_prefix rl)"

definition capacity_settings :: "capacity \<Rightarrow> nat \<times> nat" where
  "capacity_settings c = (cap_max c, cap_ipv6_prefix c)"

record site_settings =
  st_site :: "string \<times> bool \<times> handler \<times> request_controls"
  st_prices :: "payment_policy option \<times> lightning_policy option"
  st_verification :: "limit \<times> nat"
  st_rate_limit :: "(limit \<times> nat) option"
  st_capacity :: "(nat \<times> nat) option"

definition settings_of :: "site \<Rightarrow> site_settings" where
  "settings_of s =
     \<lparr>st_site = (site_domain s, site_https s, site_handler s, site_controls s), st_prices = (site_payment s, site_lightning s),
      st_verification = limiter_settings (payment_verification s), st_rate_limit = map_option limiter_settings (site_rate_limit s),
      st_capacity = map_option capacity_settings (site_capacity s)\<rparr>"

definition config_settings :: "config \<Rightarrow> (string, site_settings) fmap \<times> payout_policy list" where
  "config_settings c = (fmmap settings_of (cfg_sites c), cfg_payouts c)"

lemma settings_of_upd [simp]:
  "settings_of (s\<lparr>payment_verification := rl\<rparr>) = (settings_of s)\<lparr>st_verification := limiter_settings rl\<rparr>"
  "settings_of (s\<lparr>site_rate_limit := l\<rparr>) = (settings_of s)\<lparr>st_rate_limit := map_option limiter_settings l\<rparr>"
  "settings_of (s\<lparr>site_capacity := c\<rparr>) = (settings_of s)\<lparr>st_capacity := map_option capacity_settings c\<rparr>"
  by (simp_all add: settings_of_def)

lemma settings_of_sel [simp]:
  "st_verification (settings_of s) = limiter_settings (payment_verification s)"
  "st_rate_limit (settings_of s) = map_option limiter_settings (site_rate_limit s)"
  "st_capacity (settings_of s) = map_option capacity_settings (site_capacity s)"
  by (simp_all add: settings_of_def)

lemma limiter_check_settings: "limiter_check rl ip now = (r, rl') \<Longrightarrow> limiter_settings rl' = limiter_settings rl"
  by (auto simp: limiter_check_def limiter_settings_def Let_def split: if_splits prod.splits)

lemma try_acquire_settings: "try_acquire c ip = (r, c') \<Longrightarrow> capacity_settings c' = capacity_settings c"
  by (auto simp: try_acquire_def capacity_settings_def Let_def split: if_splits)

lemma give_back_settings [simp]: "capacity_settings (give_back c k) = capacity_settings c"
  by (auto simp: give_back_def permit_release_def permit_drop_def capacity_settings_def Let_def split: option.splits)

text \<open>\<open>configured d s g\<close>: the site \<open>s\<close> in hand has the settings of the running configuration.\<close>

definition configured :: "string \<Rightarrow> site \<Rightarrow> gateway \<Rightarrow> bool" where
  "configured d s g \<longleftrightarrow> map_option settings_of (fmlookup (cfg_sites (gw_config g)) d) = Some (settings_of s)"

abbreviation gateway_settings :: "gateway \<Rightarrow> (string, site_settings) fmap \<times> payout_policy list" where
  "gateway_settings g \<equiv> config_settings (gw_config g)"

lemma gateway_settings_put:
  assumes "configured d s g" "settings_of s' = settings_of s"
  shows "gateway_settings (put_site d s' g) = gateway_settings g"
  using assms by (auto simp: configured_def config_settings_def put_site_def intro!: fmap_ext)

lemma configured_iff: "configured d s g \<longleftrightarrow> fmlookup (fst (gateway_settings g)) d = Some (settings_of s)"
  by (simp add: configured_def config_settings_def)

section \<open>Requests keep the settings\<close>

lemma redirect_settings: "redirect_to_https px env rq domain g = (r, g') \<Longrightarrow> gateway_settings g' = gateway_settings g"
  by (auto simp: redirect_to_https_def Let_def split: prod.splits option.splits)

lemma route_settings: "route x px env rq g = (r, g') \<Longrightarrow> gateway_settings g' = gateway_settings g"
  by (auto simp: route_def split: option.splits if_splits dest: redirect_settings)

lemma limit_attempts_settings:
  assumes "limit_attempts env rq domain site g = (r, g')" "configured domain site g"
  shows "gateway_settings g' = gateway_settings g \<and> (\<forall>s. r = Inr s \<longrightarrow> settings_of s = settings_of site)"
  using assms
  by (auto simp: limit_attempts_def Let_def reply_headers_def limiter_check_settings intro!: gateway_settings_put [OF assms(2)]
      split: if_splits option.splits prod.splits check_result.splits)

lemma take_capacity_settings:
  assumes "take_capacity rq domain site g = (r, g')" "configured domain site g"
  shows "gateway_settings g' = gateway_settings g \<and> (\<forall>s k. r = Inr (s, k) \<longrightarrow> settings_of s = settings_of site)"
  using assms
  by (auto simp: take_capacity_def Let_def reply_headers_def try_acquire_settings intro!: gateway_settings_put [OF assms(2)]
      split: option.splits prod.splits)

lemma ask_payment_settings: "ask_payment x px env rq site client retry g = (r, g') \<Longrightarrow> gateway_settings g' = gateway_settings g"
  by (auto simp: ask_payment_def Let_def split: option.splits prod.splits)

lemma free_allowance_settings:
  assumes "free_allowance x px env rq domain site g = (r, g')" "configured domain site g"
  shows "gateway_settings g' = gateway_settings g"
proof (cases "rq_client rq")
  case None
  then show ?thesis using assms by (simp add: free_allowance_def)
next
  case client: (Some client)
  show ?thesis
  proof (cases "site_rate_limit site")
    case None
    then show ?thesis using assms client
      by (auto simp: free_allowance_def Let_def split: if_splits dest: ask_payment_settings)
  next
    case (Some rl)
    obtain q rl' where q: "limiter_check rl client (re_limit_now env) = (q, rl')" by fastforce
    have "gateway_settings (put_site domain (site\<lparr>site_rate_limit := Some rl'\<rparr>) g) = gateway_settings g"
      by (rule gateway_settings_put [OF assms(2)]) (simp add: Some limiter_check_settings [OF q])
    then show ?thesis using assms(1) client Some q
      by (cases q) (auto simp: free_allowance_def Let_def split: if_splits dest: ask_payment_settings)
  qed
qed

lemma admit_request_settings:
  assumes "admit_request x px env rq domain site g = (r, g')" "configured domain site g"
  shows "gateway_settings g' = gateway_settings g"
proof -
  have "settle_lightning x px env rq site encoded u g = (r, g') \<Longrightarrow> gateway_settings g' = gateway_settings g" for encoded u
    by (auto simp: settle_lightning_def split: if_splits option.splits prod.splits sum.splits ln_error.splits)
  moreover have "settle_cashu x px env rq domain p ts g = (r, g') \<Longrightarrow> gateway_settings g' = gateway_settings g" for p ts
    by (auto simp: settle_cashu_def split: if_splits option.splits prod.splits list.splits sum.splits payment_error.splits)
  ultimately show ?thesis using assms(1) free_allowance_settings [OF _ assms(2)]
    by (auto simp: admit_request_def split: sum.splits option.splits list.splits if_splits)
qed

lemma request_filter_settings:
  assumes "request_filter x px env rq g = (v, ctx, g')"
  shows "gateway_settings g' = gateway_settings g"
proof -
  obtain r1 g1 where ro: "route x px env rq g = (r1, g1)" by fastforce
  note u = assms [unfolded request_filter_def Let_def ro prod.case]
  show ?thesis
  proof (cases "\<exists>domain site. r1 = Inr (domain, site) \<and> check_body_length rq site = Inr ()")
    case False
    then have "g' = g1" using u by (auto split: sum.splits prod.splits)
    then show ?thesis using route_settings [OF ro] by simp
  next
    case True
    then obtain domain site where r1: "r1 = Inr (domain, site)" "check_body_length rq site = Inr ()" by blast
    have g1: "g1 = g" and c: "configured domain site g" using route_Inr [OF ro [unfolded r1]] by (simp_all add: configured_def)
    obtain r2 g2 where la: "limit_attempts env rq domain site g = (r2, g2)" by fastforce
    note k2 = limit_attempts_settings [OF la c]
    show ?thesis
    proof (cases r2)
      case (Inl e)
      then show ?thesis using u r1 g1 la k2 by simp
    next
      case r2: (Inr site2)
      obtain r3 g3 where t: "take_capacity rq domain site2 g2 = (r3, g3)" by fastforce
      have k3: "gateway_settings g3 = gateway_settings g2 \<and> (\<forall>s k. r3 = Inr (s, k) \<longrightarrow> settings_of s = settings_of site2)"
        by (rule take_capacity_settings [OF t]) (use k2 r2 c in \<open>simp add: configured_iff\<close>)
      obtain r4 g4 where ad: "\<forall>site3 k. r3 = Inr (site3, k) \<longrightarrow> admit_request x px env rq domain site3 g3 = (r4, g4)"
        by (cases r3) (auto simp: split_paired_all intro: prod.exhaust)
      have "gateway_settings g4 = gateway_settings g3" if "r3 = Inr (site3, k)" for site3 k
        by (rule admit_request_settings [OF ad [rule_format, OF that]]) (use that k2 k3 r2 c in \<open>simp add: configured_iff\<close>)
      then show ?thesis using u r1 g1 la r2 t k2 k3 ad
        by (cases r3) (auto split: sum.splits)
    qed
  qed
qed

section \<open>Reload\<close>

text \<open>
  A gateway together with the configuration last loaded into it. Requests are handled, and end by giving a
  permit back to the capacity of a site (a permit of a capacity that a reload has replaced changes nothing);
  services are enabled and challenges published; and any configuration is loaded.
\<close>

inductive service_step :: "gateway_ext \<Rightarrow> config \<times> gateway \<Rightarrow> config \<times> gateway \<Rightarrow> bool" for x :: gateway_ext where
  serve: "request_filter x px env rq g = (v, ctx, g') \<Longrightarrow> service_step x (c, g) (c, g')"
| release: "fmlookup (cfg_sites (gw_config g)) domain = Some site \<Longrightarrow>
    service_step x (c, g) (c, put_site domain (site\<lparr>site_capacity := map_option (\<lambda>cap. give_back cap k) (site_capacity site)\<rparr>) g)"
| enable: "service_step x (c, g) (c, g\<lparr>gw_payments := p, gw_lightning := l, gw_challenges := ch\<rparr>)"
| load: "service_step x (c, g) (c', replace_config c' g)"

lemma kept_site_settings [simp]:
  "settings_of (keep_rate_limit p (keep_capacity p (keep_verification p s))) = settings_of s"
  by (auto simp: keep_rate_limit_def keep_capacity_def keep_verification_def same_limiter_def settings_of_def limiter_settings_def
      capacity_settings_def split: option.splits)

lemma replace_config_settings [simp]: "gateway_settings (replace_config c g) = config_settings c"
  by (auto simp: replace_config_def config_settings_def Let_def option.map_comp comp_def intro!: fmap_ext)

definition loaded :: "config \<times> gateway \<Rightarrow> bool" where
  "loaded s \<longleftrightarrow> gateway_settings (snd s) = config_settings (fst s)"

lemma service_step_loaded: "service_step x s s' \<Longrightarrow> loaded s \<Longrightarrow> loaded s'"
proof (induction rule: service_step.induct)
  case (serve px env rq g v ctx g' c)
  then show ?case by (simp add: loaded_def request_filter_settings)
next
  case (release g domain site c k)
  have "configured domain site g" using release(1) by (simp add: configured_def)
  then show ?case using release(2) by (simp add: loaded_def gateway_settings_put option.map_comp comp_def)
qed (simp_all add: loaded_def)

interpretation service_run: step_invariant "service_step x" loaded for x :: gateway_ext
  by unfold_locales (rule service_step_loaded)

lemma kept_site_limits:
  assumes "settings_of cur = settings_of l" "r = keep_rate_limit (Some cur) (keep_capacity (Some cur) (keep_verification (Some cur) s))"
  shows "payment_verification r = (if limiter_settings (payment_verification s) = limiter_settings (payment_verification l)
      then payment_verification cur else payment_verification s)" (is ?v)
    and "site_rate_limit r = (if map_option limiter_settings (site_rate_limit s) = map_option limiter_settings (site_rate_limit l)
      then site_rate_limit cur else site_rate_limit s)" (is ?r)
    and "site_capacity r = (if map_option capacity_settings (site_capacity s) = map_option capacity_settings (site_capacity l)
      then site_capacity cur else site_capacity s)" (is ?c)
proof -
  note l = settings_of_sel [of l, folded assms(1), unfolded settings_of_sel, symmetric]
  note keep = keep_rate_limit_def keep_capacity_def keep_verification_def same_limiter_def limiter_settings_def capacity_settings_def
  show ?v unfolding l assms(2) by (simp add: keep split: option.splits)
  show ?r unfolding l assms(2) by (auto simp: keep split: option.splits)
  show ?c unfolding l assms(2) by (auto simp: keep split: option.splits)
qed

lemma replace_config_lookup:
  "fmlookup (cfg_sites (gw_config (replace_config c g))) d =
     map_option (\<lambda>s. keep_rate_limit (fmlookup (cfg_sites (gw_config g)) d) (keep_capacity (fmlookup (cfg_sites (gw_config g)) d)
       (keep_verification (fmlookup (cfg_sites (gw_config g)) d) s))) (fmlookup (cfg_sites c) d)"
  by (simp add: replace_config_def Let_def)

lemma settings_lookup:
  "config_settings a = config_settings b \<Longrightarrow> map_option settings_of (fmlookup (cfg_sites a) d) = map_option settings_of (fmlookup (cfg_sites b) d)"
  by (metis config_settings_def fmlookup_map prod.inject)

text \<open>Loading the settings a gateway runs with changes nothing.\<close>

lemma kept_site_same: "settings_of s = settings_of cur \<Longrightarrow> keep_rate_limit (Some cur) (keep_capacity (Some cur) (keep_verification (Some cur) s)) = cur"
proof -
  assume e: "settings_of s = settings_of cur"
  let ?r = "keep_rate_limit (Some cur) (keep_capacity (Some cur) (keep_verification (Some cur) s))"
  have "settings_of ?r = settings_of cur" by (simp add: e)
  moreover have "payment_verification ?r = payment_verification cur" "site_rate_limit ?r = site_rate_limit cur" "site_capacity ?r = site_capacity cur"
    using kept_site_limits [OF refl refl, of cur s] settings_of_sel [of s] settings_of_sel [of cur] by (simp_all add: e)
  ultimately show ?thesis by (simp add: settings_of_def)
qed

lemma replace_config_same:
  assumes "config_settings c = gateway_settings g"
  shows "replace_config c g = g"
proof -
  have "cfg_sites (gw_config (replace_config c g)) = cfg_sites (gw_config g)"
  proof (rule fmap_ext)
    fix d
    show "fmlookup (cfg_sites (gw_config (replace_config c g))) d = fmlookup (cfg_sites (gw_config g)) d"
      using settings_lookup [OF assms, of d]
      by (cases "fmlookup (cfg_sites c) d"; cases "fmlookup (cfg_sites (gw_config g)) d") (simp_all add: replace_config_lookup kept_site_same)
  qed
  moreover have "cfg_payouts (gw_config (replace_config c g)) = cfg_payouts (gw_config g)"
    using assms by (simp add: replace_config_def config_settings_def)
  ultimately have eq: "gw_config (replace_config c g) = gw_config g" by simp
  have "replace_config c g = g\<lparr>gw_config := gw_config (replace_config c g)\<rparr>" by (simp add: replace_config_def)
  then show ?thesis unfolding eq by simp
qed

text \<open>
  C34: A reload forgets no limit and keeps nothing else. Let a gateway have run with any requests, ends of
  requests, changes of its services and reloads, the last of \<open>c\<close>. Loading \<open>c'\<close> gives it the settings of \<open>c'\<close>
  and no others: the same domains, sites, prices, limits and payouts, none of a removed site, while the
  redirect limiter, the payment services and the challenges stay. A configuration with the settings of \<open>c\<close>
  changes nothing at all. A site whose rate limit, verification limit or capacity is set in \<open>c'\<close> as it was in
  \<open>c\<close> keeps that limit in its present state, with the level of every client and the permits in use; one that
  is set differently, and every limit of a domain that \<open>c\<close> did not have, starts fresh from \<open>c'\<close>.
\<close>

theorem reload_keeps_limits:
  assumes "state_new hash now c0 = Some g0" "(service_step x)\<^sup>*\<^sup>* (c0, g0) (c, g)" "g' = replace_config c' g"
  shows "gateway_settings g' = config_settings c' \<and> g' = g\<lparr>gw_config := gw_config g'\<rparr>
     \<and> (config_settings c' = config_settings c \<longrightarrow> g' = g)
     \<and> (\<forall>d s. fmlookup (cfg_sites c') d = Some s \<longrightarrow>
          (\<exists>r. fmlookup (cfg_sites (gw_config g')) d = Some r \<and> settings_of r = settings_of s
             \<and> (fmlookup (cfg_sites c) d = None \<longrightarrow> r = s)
             \<and> (\<forall>l. fmlookup (cfg_sites c) d = Some l \<longrightarrow>
                  (\<exists>cur. fmlookup (cfg_sites (gw_config g)) d = Some cur
                     \<and> payment_verification r =
                          (if limiter_settings (payment_verification s) = limiter_settings (payment_verification l)
                           then payment_verification cur else payment_verification s)
                     \<and> site_rate_limit r =
                          (if map_option limiter_settings (site_rate_limit s) = map_option limiter_settings (site_rate_limit l)
                           then site_rate_limit cur else site_rate_limit s)
                     \<and> site_capacity r =
                          (if map_option capacity_settings (site_capacity s) = map_option capacity_settings (site_capacity l)
                           then site_capacity cur else site_capacity s)))))"
proof -
  have "loaded (c0, g0)" using assms(1) by (auto simp: state_new_def loaded_def)
  then have l: "gateway_settings g = config_settings c"
    using service_run.reach_inv [OF assms(2)] by (simp add: loaded_def)
  show ?thesis
  proof (intro conjI allI impI)
    show "gateway_settings g' = config_settings c'" "g' = g\<lparr>gw_config := gw_config g'\<rparr>"
      by (simp_all add: assms(3)) (simp add: replace_config_def)
    show "g' = g" if "config_settings c' = config_settings c" using that l replace_config_same by (simp add: assms(3))
  next
    fix d s
    assume s: "fmlookup (cfg_sites c') d = Some s"
    note r = replace_config_lookup [of c' g d, folded assms(3), unfolded s option.map]
    show "\<exists>r. fmlookup (cfg_sites (gw_config g')) d = Some r \<and> settings_of r = settings_of s
       \<and> (fmlookup (cfg_sites c) d = None \<longrightarrow> r = s)
       \<and> (\<forall>l. fmlookup (cfg_sites c) d = Some l \<longrightarrow>
            (\<exists>cur. fmlookup (cfg_sites (gw_config g)) d = Some cur
               \<and> payment_verification r =
                    (if limiter_settings (payment_verification s) = limiter_settings (payment_verification l)
                     then payment_verification cur else payment_verification s)
               \<and> site_rate_limit r =
                    (if map_option limiter_settings (site_rate_limit s) = map_option limiter_settings (site_rate_limit l)
                     then site_rate_limit cur else site_rate_limit s)
               \<and> site_capacity r =
                    (if map_option capacity_settings (site_capacity s) = map_option capacity_settings (site_capacity l)
                     then site_capacity cur else site_capacity s)))"
    proof (cases "fmlookup (cfg_sites (gw_config g)) d")
      case None
      then show ?thesis using r settings_lookup [OF l, of d]
        by (auto simp: keep_rate_limit_def keep_capacity_def keep_verification_def split: option.splits)
    next
      case (Some cur)
      then obtain l' where l': "fmlookup (cfg_sites c) d = Some l'" "settings_of cur = settings_of l'"
        using settings_lookup [OF l, of d] by (cases "fmlookup (cfg_sites c) d") simp_all
      show ?thesis using r l'(1) kept_site_limits [OF l'(2) refl, of s] by (simp add: Some)
    qed
  qed
qed

section \<open>No rejection is lost\<close>

definition summary_total :: "(nat \<times> nat) list option \<Rightarrow> nat" where
  "summary_total s = (case s of Some rows \<Rightarrow> sum_list (map snd rows) | None \<Rightarrow> 0)"

lemma sum_nonzero: "sum_list (map snd (filter (\<lambda>(_, n). 0 < (n :: nat)) (List.enumerate k xs))) = sum_list xs"
  by (induction xs arbitrary: k) auto

lemma record_status_total:
  assumes "record_status status now logs = (s, logs')" "length (rej_counts logs) = 600" "sum_list (rej_counts logs) + 1 < 2 ^ 64"
  shows "length (rej_counts logs') = 600 \<and> summary_total s + sum_list (rej_counts logs') = sum_list (rej_counts logs) + 1"
proof -
  let ?i = "min status 599"
  have "rej_counts logs ! ?i \<le> sum_list (rej_counts logs)" using assms(2) by (auto intro!: member_le_sum_list)
  then have "saturating_add 64 (rej_counts logs ! ?i) 1 = rej_counts logs ! ?i + 1"
    using assms(3) by (simp add: saturating_add_def)
  moreover have "sum_list ((rej_counts logs)[?i := rej_counts logs ! ?i + 1]) = sum_list (rej_counts logs) + 1"
    using assms(2) member_le_sum_list [of "rej_counts logs ! ?i" "rej_counts logs"] by (simp add: sum_list_update)
  ultimately show ?thesis
    using assms(1,2) by (auto simp: record_status_def Let_def summary_total_def sum_nonzero sum_list_replicate split: if_splits)
qed

text \<open>
  Rejections are counted in bounded memory and none is lost. Over any sequence of rejections with any
  statuses and clock readings, the numbers in the summaries logged and in the 600 counters kept add up
  to the number of rejections.
\<close>

lemma rejections_accounted:
  assumes "run_ops (\<lambda>logs (status, now). record_status status now logs) (rejections_init start) events = (summaries, logs)"
    and "length events < 2 ^ 64"
  shows "length (rej_counts logs) = 600
     \<and> sum_list (map summary_total summaries) + sum_list (rej_counts logs) = length events"
proof -
  have "run_ops (\<lambda>logs (status, now). record_status status now logs) l0 es = (ss, l1) \<Longrightarrow> length (rej_counts l0) = 600 \<Longrightarrow>
      sum_list (rej_counts l0) + length es < 2 ^ 64 \<Longrightarrow>
      length (rej_counts l1) = 600 \<and> sum_list (map summary_total ss) + sum_list (rej_counts l1) = sum_list (rej_counts l0) + length es"
    for l0 es ss l1
  proof (induction es arbitrary: l0 ss)
    case (Cons e es)
    obtain status now where e: "e = (status, now)" by fastforce
    obtain s l where s: "record_status status now l0 = (s, l)" by fastforce
    obtain ss' l' where r: "run_ops (\<lambda>logs (status, now). record_status status now logs) l es = (ss', l')" by fastforce
    have t: "length (rej_counts l) = 600" "summary_total s + sum_list (rej_counts l) = sum_list (rej_counts l0) + 1"
      using record_status_total [OF s] Cons.prems by simp_all
    have eq: "ss = s # ss'" "l1 = l'" using Cons.prems(1) e s r by simp_all
    show ?case using Cons.IH [OF r [folded eq(2)] t(1)] t Cons.prems(3) by (simp add: eq)
  qed simp
  from this [OF assms(1)] assms(2) show ?thesis by (simp add: rejections_init_def sum_list_replicate)
qed

section \<open>No internal errors\<close>

definition limiter_live :: "rate_limiter \<Rightarrow> bool" where
  "limiter_live rl \<longleftrightarrow> 0 < per_second (rl_limit rl)"

definition site_live :: "site \<Rightarrow> bool" where
  "site_live s \<longleftrightarrow> limiter_live (payment_verification s) \<and> pred_option limiter_live (site_rate_limit s)"

definition gateway_live :: "gateway \<Rightarrow> bool" where
  "gateway_live g \<longleftrightarrow> limiter_live (gw_redirects g) \<and> (\<forall>d s. fmlookup (cfg_sites (gw_config g)) d = Some s \<longrightarrow> site_live s)"

lemma limiter_check_live:
  "limiter_check rl ip now = (r, rl') \<Longrightarrow> limiter_live rl \<Longrightarrow> r \<noteq> Check_panic \<and> limiter_live rl'"
  by (auto simp: limiter_check_def shard_check_def limiter_live_def Let_def split: if_splits prod.splits)

lemma put_site_live: "gateway_live g \<Longrightarrow> site_live s \<Longrightarrow> gateway_live (put_site d s g)"
  by (auto simp: gateway_live_def put_site_def)

lemma gateway_live_upd [simp]:
  "gateway_live (g\<lparr>gw_lightning := l\<rparr>) = gateway_live g" "gateway_live (g\<lparr>gw_payments := p\<rparr>) = gateway_live g"
  by (simp_all add: gateway_live_def)

lemma reply_not_internal [simp]: "reply rq n b \<noteq> Inl Internal_error" "reply_headers rq n b h \<noteq> Inl Internal_error"
  by (simp_all add: reply_def reply_headers_def)

lemma redirect_live:
  assumes "redirect_to_https px env rq domain g = (r, g')" "gateway_live g"
  shows "r \<noteq> Inl Internal_error \<and> gateway_live g'"
proof (cases "rq_client rq")
  case None
  then show ?thesis using assms by (auto simp: redirect_to_https_def gateway_live_def)
next
  case (Some ip)
  obtain q rl where q: "limiter_check (gw_redirects g) ip (re_redirect_now env) = (q, rl)" by fastforce
  then have "q \<noteq> Check_panic" "limiter_live rl" using limiter_check_live assms(2) by (auto simp: gateway_live_def)
  then show ?thesis using assms Some q by (cases q) (auto simp: redirect_to_https_def gateway_live_def)
qed

lemma redirect_not_Inr: "redirect_to_https px env rq domain g \<noteq> (Inr a, g')"
  by (auto simp: redirect_to_https_def Let_def split: prod.splits check_result.splits)

lemma route_live:
  assumes "route x px env rq g = (r, g')" "gateway_live g"
  shows "r \<noteq> Inl Internal_error \<and> gateway_live g' \<and> (\<forall>d s. r = Inr (d, s) \<longrightarrow> site_live s)"
  using assms
  by (auto simp: route_def answer_challenge_def gateway_live_def redirect_not_Inr split: option.splits if_splits
      dest: redirect_live [unfolded gateway_live_def])

lemma limit_attempts_live:
  assumes "limit_attempts env rq domain site g = (r, g')" "gateway_live g" "site_live site"
  shows "(r = Inl Internal_error \<longrightarrow> rq_client rq = None) \<and> gateway_live g' \<and> (\<forall>s. r = Inr s \<longrightarrow> site_live s)"
proof (cases "rq_client rq")
  case None
  then show ?thesis using assms by (auto simp: limit_attempts_def split: if_splits)
next
  case (Some ip)
  obtain q rl where q: "limiter_check (payment_verification site) ip (re_verify_now env) = (q, rl)" by fastforce
  then have "q \<noteq> Check_panic" "limiter_live rl" using limiter_check_live assms(3) by (auto simp: site_live_def)
  then show ?thesis using assms Some q
    by (cases q) (auto simp: limit_attempts_def Let_def site_live_def split: if_splits intro!: put_site_live)
qed

lemma take_capacity_live:
  assumes "take_capacity rq domain site g = (r, g')" "gateway_live g" "site_live site"
  shows "(r = Inl Internal_error \<longrightarrow> rq_client rq = None) \<and> gateway_live g' \<and> (\<forall>s k. r = Inr (s, k) \<longrightarrow> site_live s)"
  using assms
  by (auto simp: take_capacity_def Let_def site_live_def split: option.splits prod.splits intro!: put_site_live)

lemma ask_payment_live:
  assumes "ask_payment x px env rq site client retry g = (r, g')" "gateway_live g"
  shows "r \<noteq> Inl Internal_error \<and> gateway_live g'"
  using assms by (auto simp: ask_payment_def Let_def split: option.splits prod.splits if_splits)

lemma free_allowance_live:
  assumes "free_allowance x px env rq domain site g = (r, g')" "gateway_live g" "site_live site"
  shows "(r = Inl Internal_error \<longrightarrow> rq_client rq = None) \<and> gateway_live g'"
proof (cases "rq_client rq")
  case None
  then show ?thesis using assms by (simp add: free_allowance_def)
next
  case client: (Some client)
  show ?thesis
  proof (cases "site_rate_limit site")
    case None
    then show ?thesis using assms client
      by (auto simp: free_allowance_def Let_def split: if_splits dest: ask_payment_live)
  next
    case (Some rl)
    obtain q rl' where q: "limiter_check rl client (re_limit_now env) = (q, rl')" by fastforce
    then have "q \<noteq> Check_panic" "limiter_live rl'" using limiter_check_live [OF q] assms(3) Some by (auto simp: site_live_def)
    then have g: "gateway_live (put_site domain (site\<lparr>site_rate_limit := Some rl'\<rparr>) g)"
      using assms(2,3) by (intro put_site_live) (simp_all add: site_live_def)
    show ?thesis
      using assms(1) client Some q \<open>q \<noteq> Check_panic\<close> g
      by (cases q) (auto simp: free_allowance_def Let_def split: if_splits dest: ask_payment_live)
  qed
qed

lemma settle_lightning_live:
  assumes "settle_lightning x px env rq site encoded u g = (r, g')" "gateway_live g" "site_lightning site = Some p"
  shows "r \<noteq> Inl Internal_error \<and> gateway_live g'"
  using assms by (auto simp: settle_lightning_def split: if_splits option.splits prod.splits sum.splits ln_error.splits)

lemma settle_cashu_live:
  "settle_cashu x px env rq domain p ts g = (r, g') \<Longrightarrow> gateway_live g \<Longrightarrow> r \<noteq> Inl Internal_error \<and> gateway_live g'"
  by (auto simp: settle_cashu_def split: if_splits option.splits prod.splits list.splits sum.splits payment_error.splits)

lemma headers_not_internal: "l402_header rq site \<noteq> Inl Internal_error" "x402_header rq site \<noteq> Inl Internal_error"
  by (auto simp: l402_header_def x402_header_def split: list.splits option.splits if_splits)

lemma lightning_proof_not_internal: "lightning_proof rq site \<noteq> Inl Internal_error"
  using headers_not_internal [of rq site]
  by (auto simp: lightning_proof_def bind_result_def reply_def split: sum.splits if_splits)

lemma admit_request_live:
  assumes "admit_request x px env rq domain site g = (r, g')" "gateway_live g" "site_live site"
  shows "(r = Inl Internal_error \<longrightarrow> rq_client rq = None) \<and> gateway_live g'"
proof (cases "lightning_proof rq site")
  case (Inl e)
  then show ?thesis using assms lightning_proof_not_internal by (auto simp: admit_request_def)
next
  case (Inr pf)
  show ?thesis
  proof (cases pf)
    case (Some ep)
    obtain encoded u where ep: "ep = (encoded, u)" by fastforce
    obtain p where "site_lightning site = Some p" using lightning_proof_Inr Inr Some ep by blast
    then show ?thesis using settle_lightning_live assms Inr Some ep by (auto simp: admit_request_def)
  next
    case None
    then show ?thesis using assms Inr free_allowance_live [OF _ assms(2,3)] settle_cashu_live [OF _ assms(2)]
      by (auto simp: admit_request_def split: option.splits list.splits if_splits)
  qed
qed

lemma check_body_length_not_internal: "check_body_length rq site \<noteq> Inl Internal_error"
  by (auto simp: check_body_length_def reply_def split: option.splits if_splits)

lemma request_filter_live:
  assumes "request_filter x px env rq g = (v, ctx, g')" "gateway_live g"
  shows "(v = Stopped Internal_error \<longrightarrow> rq_client rq = None) \<and> gateway_live g'"
proof -
  obtain r1 g1 where ro: "route x px env rq g = (r1, g1)" by fastforce
  note l1 = route_live [OF ro assms(2)]
  show ?thesis
  proof (cases r1)
    case (Inl e)
    then show ?thesis using assms(1) ro l1 by (auto simp: request_filter_def Let_def)
  next
    case (Inr ds)
    obtain domain site where ds: "ds = (domain, site)" by fastforce
    note u1 = assms(1) [unfolded request_filter_def Let_def ro Inr ds sum.case prod.case]
    obtain r2 g2 where la: "limit_attempts env rq domain site g1 = (r2, g2)" by fastforce
    have l2: "(r2 = Inl Internal_error \<longrightarrow> rq_client rq = None) \<and> gateway_live g2 \<and> (\<forall>s. r2 = Inr s \<longrightarrow> site_live s)"
      by (rule limit_attempts_live [OF la]) (use l1 Inr ds in auto)
    show ?thesis
    proof (cases "check_body_length rq site")
      case (Inl e)
      then show ?thesis using u1 l1 check_body_length_not_internal [of rq site] by auto
    next
      case ok: (Inr ok)
      show ?thesis
      proof (cases r2)
        case (Inl e)
        then show ?thesis using u1 l2 la ok by auto
      next
        case (Inr site2)
        obtain r3 g3 where t: "take_capacity rq domain site2 g2 = (r3, g3)" by fastforce
        have l3: "(r3 = Inl Internal_error \<longrightarrow> rq_client rq = None) \<and> gateway_live g3 \<and> (\<forall>s k. r3 = Inr (s, k) \<longrightarrow> site_live s)"
          by (rule take_capacity_live [OF t]) (use l2 Inr in auto)
        show ?thesis
        proof (cases r3)
          case (Inl e)
          then show ?thesis using u1 l3 la ok Inr t by auto
        next
          case sp: (Inr sp)
          obtain site3 k where s3: "sp = (site3, k)" by fastforce
          obtain r4 g4 where ad: "admit_request x px env rq domain site3 g3 = (r4, g4)" by fastforce
          have "(r4 = Inl Internal_error \<longrightarrow> rq_client rq = None) \<and> gateway_live g4"
            by (rule admit_request_live [OF ad]) (use l3 sp s3 in auto)
          then show ?thesis
            using u1 la ok Inr t sp s3 ad
            by (cases r4) (auto simp: finish_request_def Let_def split: handler.splits)
        qed
      qed
    qed
  qed
qed

section \<open>Runs of the gateway\<close>

text \<open>A run handles requests, ends them (which changes only capacities, here in any way), reloads accepted
  configurations, and enables services and publishes challenge tokens.\<close>

inductive gateway_step :: "gateway_ext \<Rightarrow> gateway \<Rightarrow> gateway \<Rightarrow> bool" for x :: gateway_ext where
  handle: "request_filter x px env rq g = (v, ctx, g') \<Longrightarrow> gateway_step x g g'"
| finish: "fmlookup (cfg_sites (gw_config g)) domain = Some site \<Longrightarrow>
    gateway_step x g (put_site domain (site\<lparr>site_capacity := c\<rparr>) g)"
| reload: "config_parse (gx_externals x) env input = Some (Inr c) \<Longrightarrow> gateway_step x g (replace_config c g)"
| services: "gateway_step x g (g\<lparr>gw_payments := p, gw_lightning := l, gw_challenges := ch\<rparr>)"

lemma config_live:
  "config_parse x env input = Some (Inr c) \<Longrightarrow> fmlookup (cfg_sites c) domain = Some site \<Longrightarrow> site_live site"
  by (drule config_parse_ok)
    (auto simp: config_ok_def site_ok_def site_live_def limiter_live_def controls_ok_def limit_ok_def option.pred_set)

lemma replace_config_live:
  assumes "config_parse x env input = Some (Inr c)" "gateway_live g"
  shows "gateway_live (replace_config c g)"
proof -
  have old: "fmlookup (cfg_sites (gw_config g)) d = Some s \<Longrightarrow> site_live s" for d s using assms(2) by (simp add: gateway_live_def)
  have new: "fmlookup (cfg_sites c) d = Some s \<Longrightarrow> site_live s" for d s using config_live assms(1) by blast
  have kept: "site_live (keep_rate_limit p (keep_capacity p (keep_verification p s)))" if "site_live s" "pred_option site_live p" for p s
    using that by (auto simp: keep_rate_limit_def keep_capacity_def keep_verification_def site_live_def split: option.splits)
  show ?thesis
    using assms(2) kept old new
    by (auto simp: gateway_live_def replace_config_def Let_def option.pred_set split: option.splits)
qed

lemma gateway_step_live:
  assumes "gateway_step x g g'" "gateway_live g"
  shows "gateway_live g'"
  using assms
proof cases
  case (handle px env rq v ctx)
  then show ?thesis using request_filter_live assms(2) by blast
next
  case (finish domain site c)
  have "site_live (site\<lparr>site_capacity := c\<rparr>)" using assms(2) finish(2) by (auto simp: gateway_live_def site_live_def)
  then show ?thesis unfolding finish(1) by (rule put_site_live [OF assms(2)])
next
  case (reload env input c)
  then show ?thesis using replace_config_live assms(2) by blast
next
  case (services p l ch)
  then show ?thesis using assms(2) by (simp add: gateway_live_def)
qed

interpretation gateway_run: step_invariant "gateway_step x" gateway_live for x :: gateway_ext
  by unfold_locales (rule gateway_step_live)

lemma state_new_live:
  assumes "config_parse x env input = Some (Inr c)" "state_new hash now c = Some g"
  shows "gateway_live g"
  using assms(2) config_live [OF assms(1)]
  by (auto simp: state_new_def with_prefix_def gateway_live_def limiter_live_def split: if_splits)

text \<open>
  C20: The request path has no internal failures. A gateway started with an accepted configuration, after any
  sequence of requests, their ends, reloads of accepted configurations and changes of its services,
  answers, serves or forwards every request whose client address is known: no limiter divides by a
  zero rate and no expectation of the code fails.
\<close>

theorem no_internal_errors:
  assumes "config_parse (gx_externals x) env input = Some (Inr c)" "state_new hash now c = Some g0"
    and "(gateway_step x)\<^sup>*\<^sup>* g0 g" "request_filter x px renv rq g = (v, ctx, g')" "rq_client rq \<noteq> None"
  shows "v \<noteq> Stopped Internal_error"
proof -
  have "gateway_live g" by (rule gateway_run.reach_inv [OF assms(3) state_new_live [OF assms(1,2)]])
  then show ?thesis using request_filter_live [OF assms(4)] assms(5) by blast
qed

section \<open>Witnesses\<close>

text \<open>A request is handled. The configuration is loaded again unchanged, or with the price removed and another
  capacity: then the verification limiter stays as the request left it and the capacity starts fresh.\<close>

definition demo_reload :: config where
  "demo_reload = \<lparr>cfg_sites = fmupd ''w'' (demo_site\<lparr>site_payment := None, site_capacity := Some (capacity_new 5)\<rparr>) fmempty, cfg_payouts = []\<rparr>"

theorem reload_keeps_limits_witness:
  "\<exists>g0 v ctx g r. state_new (\<lambda>_. 0) (\<lambda>_. 0) (gw_config demo_gateway) = Some g0
     \<and> request_filter demo_gateway_ext demo_px demo_rq_env demo_rq g0 = (v, ctx, g)
     \<and> replace_config (gw_config demo_gateway) g = g
     \<and> fmlookup (cfg_sites (gw_config (replace_config demo_reload g))) ''w'' = Some r \<and> site_payment r = None
     \<and> Some (payment_verification r) = map_option payment_verification (fmlookup (cfg_sites (gw_config g)) ''w'')
     \<and> site_capacity r = Some (capacity_new 5)"
proof -
  let ?c = "gw_config demo_gateway"
  obtain g0 where g0: "state_new (\<lambda>_. 0) (\<lambda>_. 0) ?c = Some g0" by (simp add: state_new_def with_prefix_def)
  obtain v ctx g where f: "request_filter demo_gateway_ext demo_px demo_rq_env demo_rq g0 = (v, ctx, g)" by (metis prod.exhaust)
  have run: "(service_step demo_gateway_ext)\<^sup>*\<^sup>* (?c, g0) (?c, g)" using service_step.serve [OF f] by blast
  have same: "replace_config ?c g = g" using reload_keeps_limits [OF g0 run refl, of ?c] by blast
  have c: "fmlookup (cfg_sites ?c) ''w'' = Some demo_site" by (simp add: demo_gateway_def)
  have d: "fmlookup (cfg_sites demo_reload) ''w'' = Some (demo_site\<lparr>site_payment := None, site_capacity := Some (capacity_new 5)\<rparr>)"
    by (simp add: demo_reload_def)
  obtain r cur where r: "fmlookup (cfg_sites (gw_config (replace_config demo_reload g))) ''w'' = Some r"
    "settings_of r = settings_of (demo_site\<lparr>site_payment := None, site_capacity := Some (capacity_new 5)\<rparr>)"
    "fmlookup (cfg_sites (gw_config g)) ''w'' = Some cur" "payment_verification r = payment_verification cur"
    "site_capacity r = Some (capacity_new 5)"
    using reload_keeps_limits [OF g0 run refl, of demo_reload, THEN conjunct2, THEN conjunct2, THEN conjunct2, THEN spec, THEN spec, THEN mp, OF d] c
    by (elim exE conjE) (auto simp: demo_site_def capacity_settings_def capacity_new_def)
  then show ?thesis using g0 f same by (auto simp: settings_of_def)
qed

theorem no_internal_errors_witness:
  "\<exists>c g0. config_parse demo_ext demo_limiter_env ''http://w { respond 204 }'' = Some (Inr c) \<and> state_new (\<lambda>_. 0) (\<lambda>_. 0) c = Some g0
     \<and> fst (request_filter demo_gateway_ext demo_px demo_rq_env demo_rq g0) \<noteq> Stopped Internal_error"
proof -
  obtain c where c: "config_parse demo_ext demo_limiter_env ''http://w { respond 204 }'' = Some (Inr c)" using demo_parse by blast
  obtain g0 where g: "state_new (\<lambda>_. 0) (\<lambda>_. 0) c = Some g0" by (simp add: state_new_def with_prefix_def)
  obtain v ctx g' where f: "request_filter demo_gateway_ext demo_px demo_rq_env demo_rq g0 = (v, ctx, g')" by (metis prod.exhaust)
  have x: "gx_externals demo_gateway_ext = demo_ext" by (simp add: demo_gateway_ext_def)
  have "v \<noteq> Stopped Internal_error"
    by (rule no_internal_errors [OF c [folded x] g rtranclp.rtrancl_refl f]) (simp add: demo_rq_def)
  then show ?thesis using c g f by auto
qed

end
