(* ===== verification/Connections.thy ===== *)
theory Connections
  imports Service
begin

text \<open>
  Transport connections and the listener's log: \<^verbatim>\<open>connections.rs\<close>, \<^verbatim>\<open>logging.rs\<close> and the log filter of
  \<^verbatim>\<open>main.rs\<close>. A TLS connection takes its permit before the handshake and holds it in the stream; a plaintext
  one takes it before its first byte is read. The permits are those of \<open>Capacity\<close>.
\<close>

section \<open>Connections and their permits\<close>

text \<open>The open connections with the client key each permit counts for, and the permits half given back.\<close>

record transport =
  tr_cap :: capacity
  tr_open :: "(nat, ip_addr) fmap"
  tr_releasing :: nat

definition transport_start :: transport where
  "transport_start = \<lparr>tr_cap = connections_default, tr_open = fmempty, tr_releasing = 0\<rparr>"

definition pre_tls :: "nat \<Rightarrow> ip_addr option \<Rightarrow> transport \<Rightarrow> bool \<times> transport" where
  "pre_tls i peer s =
     (case connection_acquire peer (tr_cap s) of
        (Some k, c, _) \<Rightarrow> (True, s\<lparr>tr_cap := c, tr_open := fmupd i k (tr_open s)\<rparr>)
      | (None, c, _) \<Rightarrow> (False, s\<lparr>tr_cap := c\<rparr>))"

definition process_new :: "nat \<Rightarrow> bool \<Rightarrow> ip_addr option \<Rightarrow> transport \<Rightarrow> bool \<times> transport" where
  "process_new i tls peer s =
     (case connection_admit tls peer (tr_cap s) of
        (Some (Some k), c, _) \<Rightarrow> (True, s\<lparr>tr_cap := c, tr_open := fmupd i k (tr_open s)\<rparr>)
      | (Some None, c, _) \<Rightarrow> (True, s\<lparr>tr_cap := c\<rparr>)
      | (None, c, _) \<Rightarrow> (False, s\<lparr>tr_cap := c\<rparr>))"

text \<open>A connection ends with the last copy of its guard: the counter is given back, then the slot.\<close>

definition close_connection :: "nat \<Rightarrow> transport \<Rightarrow> transport" where
  "close_connection i s =
     (case fmlookup (tr_open s) i of
        Some k \<Rightarrow> s\<lparr>tr_cap := permit_drop (tr_cap s) k, tr_open := fmdrop i (tr_open s), tr_releasing := tr_releasing s + 1\<rparr>
      | None \<Rightarrow> s)"

definition release_slot :: "transport \<Rightarrow> transport" where
  "release_slot s = (if 0 < tr_releasing s then s\<lparr>tr_cap := permit_release (tr_cap s), tr_releasing := tr_releasing s - 1\<rparr> else s)"

inductive transport_step :: "transport \<Rightarrow> transport \<Rightarrow> bool" where
  accept_tls: "i |\<notin>| fmdom (tr_open s) \<Longrightarrow> transport_step s (snd (pre_tls i peer s))"
| serve_tls: "i |\<in>| fmdom (tr_open s) \<Longrightarrow> transport_step s (snd (process_new i True peer s))"
| serve_plain: "i |\<notin>| fmdom (tr_open s) \<Longrightarrow> transport_step s (snd (process_new i False peer s))"
| closed: "transport_step s (close_connection i s)"
| released: "transport_step s (release_slot s)"

text \<open>
  The wait for the first request of an HTTP/2 connection: whichever comes first of its end, ten seconds,
  the first request and the loss of the sender. Only the second and the last cut the connection.
\<close>

datatype startup_event = Completed | Deadline | First_request | Sender_dropped

record startup =
  up_completed :: "nat option"
  up_request :: "nat option"
  up_dropped :: "nat option"

fun event_at :: "startup \<Rightarrow> startup_event \<Rightarrow> nat option" where
  "event_at u Completed = up_completed u"
| "event_at u Deadline = Some (10 * TOKEN)"
| "event_at u First_request = up_request u"
| "event_at u Sender_dropped = up_dropped u"

definition startup_events :: "startup_event list" where
  "startup_events = [Completed, Deadline, First_request, Sender_dropped]"

definition comes_first :: "startup \<Rightarrow> startup_event \<Rightarrow> bool" where
  "comes_first u e \<longleftrightarrow>
     (case event_at u e of
        None \<Rightarrow> False
      | Some t \<Rightarrow> list_all (\<lambda>e'. case event_at u e' of None \<Rightarrow> True | Some t' \<Rightarrow> t \<le> t') startup_events)"

text \<open>The result: \<open>None\<close> when the connection is cut, otherwise what it returned.\<close>

definition startup_deadline :: "startup_event \<Rightarrow> 'r \<Rightarrow> 'r option" where
  "startup_deadline first result = (if first \<in> {Completed, First_request} then Some result else None)"

lemma startup_events_all: "e \<in> set startup_events"
  by (cases e) (simp_all add: startup_events_def)

lemma startup_cut:
  assumes "comes_first u e" "startup_deadline e r = None" "up_dropped u = None"
  shows "(\<forall>t. up_completed u = Some t \<or> up_request u = Some t \<longrightarrow> 10 * TOKEN \<le> t)"
  using assms by (cases e) (auto simp: comes_first_def startup_deadline_def startup_events_def split: option.splits if_splits)

lemma startup_kept:
  assumes "up_request u = Some t" "t < 10 * TOKEN" "\<And>t'. up_dropped u = Some t' \<Longrightarrow> t < t'" "comes_first u e"
  shows "startup_deadline e r = Some r"
  using assms by (cases e) (force simp: comes_first_def startup_deadline_def startup_events_def split: option.splits)+

section \<open>Connections are bounded\<close>

definition open_keys :: "(nat, ip_addr) fmap \<Rightarrow> ip_addr multiset" where
  "open_keys m = image_mset (\<lambda>i. the (fmlookup m i)) (mset_set (fset (fmdom m)))"

definition transport_pool :: "transport \<Rightarrow> pool" where
  "transport_pool s = \<lparr>pool_cap = tr_cap s, held = open_keys (tr_open s), releasing = tr_releasing s\<rparr>"

lemma open_keys_upd:
  assumes "i |\<notin>| fmdom m"
  shows "open_keys (fmupd i k m) = add_mset k (open_keys m)"
proof -
  have "i \<notin> fset (fmdom m)" using assms by simp
  moreover have "image_mset (\<lambda>j. the (fmlookup (fmupd i k m) j)) (mset_set (fset (fmdom m)))
      = image_mset (\<lambda>j. the (fmlookup m j)) (mset_set (fset (fmdom m)))"
    using assms by (intro image_mset_cong) auto
  ultimately show ?thesis by (simp add: open_keys_def)
qed

lemma open_keys_drop:
  assumes "fmlookup m i = Some k"
  shows "open_keys m = add_mset k (open_keys (fmdrop i m))"
proof -
  have "fmupd i k (fmdrop i m) = m" using assms by (intro fmap_ext) auto
  then show ?thesis using open_keys_upd [of i "fmdrop i m" k] by simp
qed

lemma count_open_keys: "count (open_keys m) k = card {i. fmlookup m i = Some k}"
proof -
  have "(\<lambda>i. the (fmlookup m i)) -` {k} \<inter> fset (fmdom m) = {i. fmlookup m i = Some k}" by (auto simp: fmlookup_dom_iff)
  moreover have "(\<Sum>i\<in>{i. fmlookup m i = Some k}. count (mset_set (fset (fmdom m))) i) = card {i. fmlookup m i = Some k}"
    by (subst sum.cong [OF refl, of _ _ "\<lambda>_. 1"]) (auto simp: fmlookup_dom_iff)
  ultimately show ?thesis by (simp add: open_keys_def count_image_mset)
qed

lemma size_open_keys: "size (open_keys m) = fcard (fmdom m)"
  by (simp add: open_keys_def fcard.rep_eq)

lemma acquire_step:
  assumes "try_acquire (tr_cap s) ip = (r, c)" "i |\<notin>| fmdom (tr_open s)"
  shows "pool_step (transport_pool s) (transport_pool
    (case r of Some k \<Rightarrow> s\<lparr>tr_cap := c, tr_open := fmupd i k (tr_open s)\<rparr> | None \<Rightarrow> s\<lparr>tr_cap := c\<rparr>))"
proof (cases r)
  case None
  then show ?thesis using pool_step.refuse [of "transport_pool s" ip c] assms by (simp add: transport_pool_def)
next
  case (Some k)
  then show ?thesis
    using pool_step.acquire [of "transport_pool s" ip k c] assms by (simp add: transport_pool_def open_keys_upd)
qed

lemma transport_simulation:
  assumes "transport_step s t"
  shows "pool_step\<^sup>*\<^sup>* (transport_pool s) (transport_pool t)"
  using assms
proof cases
  case (accept_tls i peer)
  then show ?thesis
    using acquire_step [OF _ accept_tls(2), of "the peer"]
    by (cases peer; cases "try_acquire (tr_cap s) (the peer)")
      (auto simp: pre_tls_def connection_acquire_def split: option.splits)
next
  case (serve_tls i peer)
  then show ?thesis by (simp add: process_new_def connection_admit_def)
next
  case (serve_plain i peer)
  then show ?thesis
    using acquire_step [OF _ serve_plain(2), of "the peer"]
    by (cases peer; cases "try_acquire (tr_cap s) (the peer)")
      (auto simp: process_new_def connection_admit_def connection_acquire_def split: option.splits)
next
  case (closed i)
  show ?thesis
  proof (cases "fmlookup (tr_open s) i")
    case None
    then show ?thesis using closed by (simp add: close_connection_def)
  next
    case (Some k)
    then show ?thesis
      using closed pool_step.drop_counter [of k "transport_pool s"]
      by (simp add: close_connection_def transport_pool_def open_keys_drop r_into_rtranclp)
  qed
next
  case released
  then show ?thesis using pool_step.drop_permit [of "transport_pool s"] by (auto simp: release_slot_def transport_pool_def)
qed

lemma transport_reaches:
  "transport_step\<^sup>*\<^sup>* s t \<Longrightarrow> pool_step\<^sup>*\<^sup>* (transport_pool s) (transport_pool t)"
  by (induction rule: rtranclp_induct) (auto dest: transport_simulation)

lemma connections_fresh: "fresh_capacity connections_default"
  by (simp add: fresh_capacity_def connections_default_def capacity_new_def)

lemma transport_start_pool: "transport_pool transport_start = pool_init connections_default"
  by (simp add: transport_pool_def transport_start_def pool_init_def open_keys_def)

text \<open>
  C15: Connections are bounded. In every interleaving of accepted TLS and plaintext connections, handshakes,
  refusals and closings, at most 1024 connections are open, and at most 64 from one client key; a
  connection from a known address is refused only when one of these is reached, where slots half given back
  still count; and when all are closed nothing has leaked.
\<close>

theorem connections_bounded:
  assumes "transport_step\<^sup>*\<^sup>* transport_start s"
  shows "fcard (fmdom (tr_open s)) \<le> 1024 \<and> (\<forall>k. card {i. fmlookup (tr_open s) i = Some k} \<le> 64)
    \<and> (\<forall>i ip. fst (pre_tls i (Some ip) s) \<longleftrightarrow>
         card {j. fmlookup (tr_open s) j = Some (client_key ip 64)} < 64 \<and> fcard (fmdom (tr_open s)) + tr_releasing s < 1024)
    \<and> (\<forall>i ip. fst (process_new i False (Some ip) s) = fst (pre_tls i (Some ip) s))
    \<and> (tr_open s = fmempty \<and> tr_releasing s = 0 \<longrightarrow> s = transport_start)"
proof -
  have r: "pool_step\<^sup>*\<^sup>* (pool_init connections_default) (transport_pool s)"
    using transport_reaches [OF assms] by (simp add: transport_start_pool)
  have inv: "pool_inv connections_default (transport_pool s)" using connections_fresh r by (rule pool_reach_inv)
  have d: "cap_max connections_default = 1024" "per_client connections_default = 64" "cap_ipv6_prefix connections_default = 64"
    by (simp_all add: connections_default_def capacity_new_def)
  have "fst (pre_tls i (Some ip) s) \<longleftrightarrow> fst (try_acquire (tr_cap s) ip) \<noteq> None"
    "fst (process_new i False (Some ip) s) \<longleftrightarrow> fst (try_acquire (tr_cap s) ip) \<noteq> None" for i ip
    by (auto simp: pre_tls_def process_new_def connection_admit_def connection_acquire_def split: option.splits prod.splits)
  moreover have "fst (try_acquire (tr_cap s) ip) \<noteq> None \<longleftrightarrow>
      card {j. fmlookup (tr_open s) j = Some (client_key ip 64)} < 64 \<and> fcard (fmdom (tr_open s)) + tr_releasing s < 1024" for ip
    using capacity_acquire_iff [OF connections_fresh r, of ip]
    by (simp add: d transport_pool_def count_open_keys size_open_keys)
  moreover have "s = transport_start" if "tr_open s = fmempty" "tr_releasing s = 0"
  proof -
    have "pool_cap (transport_pool s) = connections_default"
    proof (rule pool_drained [OF connections_fresh inv])
    qed (use that in \<open>simp_all add: transport_pool_def open_keys_def\<close>)
    then show ?thesis using that by (simp add: transport_pool_def transport_start_def)
  qed
  moreover have "fcard (fmdom (tr_open s)) \<le> 1024" "card {i. fmlookup (tr_open s) i = Some k} \<le> 64" for k
    using inv d by (auto simp: pool_inv_def transport_pool_def count_open_keys size_open_keys)
  ultimately show ?thesis by blast
qed

section \<open>The log\<close>

datatype level = Trace_level | Debug_level | Info_level | Warn_level | Error_level

text \<open>An event, with the target of the record it was bridged from and its formatted message.\<close>

record log_event =
  ev_target :: string
  ev_level :: level
  ev_message :: string

definition safe_dependencies :: "log_event \<Rightarrow> bool" where
  "safe_dependencies e \<longleftrightarrow>
     \<not> prefix ''cdk'' (ev_target e) \<and> \<not> prefix ''cashu'' (ev_target e)
   \<and> (ev_level e \<noteq> Trace_level \<or> \<not> prefix ''pingora_proxy'' (ev_target e))"

text \<open>The time of the last sampled failure; an \<^verbatim>\<open>Instant\<close> is in nanoseconds and differences do not go below 0.\<close>

definition sample_allow :: "nat \<Rightarrow> nat option \<Rightarrow> bool \<times> nat option" where
  "sample_allow now sample =
     (case sample of
        Some previous \<Rightarrow> if now - previous < 10 * TOKEN then (False, sample) else (True, Some now)
      | None \<Rightarrow> (True, Some now))"

definition listener_error :: "log_event \<Rightarrow> bool" where
  "listener_error e \<longleftrightarrow> ev_target e = ''pingora_core::services::listening'' \<and> ev_level e = Error_level"

definition capacity_rejection :: "log_event \<Rightarrow> bool" where
  "capacity_rejection e \<longleftrightarrow>
     prefix ''Downstream handshake error'' (ev_message e) \<and> suffix ''connection capacity exhausted'' (ev_message e)"

definition client_failure :: "log_event \<Rightarrow> bool" where
  "client_failure e \<longleftrightarrow>
     ev_message e = ''Downstream handshake timeout''
   \<or> (prefix ''Downstream handshake error'' (ev_message e) \<and> contains_str ''TLSHandshakeFailure'' (ev_message e)
      \<and> contains_str ''TLS accept() failed:'' (ev_message e))"

definition event_enabled :: "nat \<Rightarrow> log_event \<Rightarrow> nat option \<Rightarrow> bool \<times> nat option" where
  "event_enabled now e sample =
     (if \<not> listener_error e then (True, sample)
      else if capacity_rejection e then (False, sample)
      else if \<not> client_failure e then (True, sample)
      else sample_allow now sample)"

text \<open>The filter of the subscriber: what \<^verbatim>\<open>RUST_LOG\<close> asks for, without unsafe dependencies, then the listener's filter.\<close>

definition log_filter :: "(log_event \<Rightarrow> bool) \<Rightarrow> nat option \<Rightarrow> nat \<times> log_event \<Rightarrow> bool \<times> nat option" where
  "log_filter requested sample = (\<lambda>(now, e).
     if requested e \<and> safe_dependencies e then event_enabled now e sample else (False, sample))"

definition sampled_failure :: "log_event \<Rightarrow> bool" where
  "sampled_failure e \<longleftrightarrow> listener_error e \<and> \<not> capacity_rejection e \<and> client_failure e"

lemmas log_filter_defs = log_filter_def event_enabled_def sampled_failure_def sample_allow_def

lemma log_filter_sampled:
  assumes "log_filter requested sample (now, e) = (True, sample')" "sampled_failure e"
  shows "sample' = Some now \<and> (\<forall>t. sample = Some t \<longrightarrow> t + 10 * TOKEN \<le> now)"
  using assms by (auto simp: log_filter_defs TOKEN_def split: if_splits option.splits)

lemma log_filter_other:
  assumes "log_filter requested sample (now, e) = (logged, sample')" "\<not> (logged \<and> sampled_failure e)"
  shows "sample' = sample"
  using assms by (auto simp: log_filter_defs split: if_splits option.splits)

lemma log_filter_verdict:
  assumes "log_filter requested sample (now, e) = (logged, sample')"
  shows "logged \<Longrightarrow> requested e \<and> safe_dependencies e \<and> \<not> (listener_error e \<and> capacity_rejection e)"
    and "\<lbrakk>requested e; safe_dependencies e; \<not> listener_error e \<or> \<not> capacity_rejection e \<and> \<not> client_failure e\<rbrakk> \<Longrightarrow> logged"
  using assms by (auto simp: log_filter_defs split: if_splits)

definition logged_failures :: "(nat \<times> log_event) list \<Rightarrow> bool list \<Rightarrow> nat list" where
  "logged_failures events logged = map (fst \<circ> fst) (filter (\<lambda>((now, e), l). l \<and> sampled_failure e) (zip events logged))"

text \<open>Times that are ten seconds apart.\<close>

definition apart :: "nat list \<Rightarrow> bool" where
  "apart ts \<longleftrightarrow> sorted_wrt (\<lambda>t u. t + 10 * TOKEN \<le> u) ts"

lemma log_run_apart:
  "run_ops (log_filter requested) sample events = (logged, sample') \<Longrightarrow>
    apart (logged_failures events logged) \<and> (\<forall>t u. sample = Some t \<longrightarrow> u \<in> set (logged_failures events logged) \<longrightarrow> t + 10 * TOKEN \<le> u)"
proof (induction events arbitrary: sample logged)
  case (Cons ev events)
  obtain now e where ev: "ev = (now, e)" by (cases ev)
  obtain l s1 where l: "log_filter requested sample (now, e) = (l, s1)" by force
  obtain ls s2 where ls: "run_ops (log_filter requested) s1 events = (ls, s2)" by force
  have logged: "logged = l # ls" "s2 = sample'" using Cons.prems l ls ev by auto
  note IH = Cons.IH [OF ls [unfolded logged(2)]]
  show ?case
  proof (cases "l \<and> sampled_failure e")
    case True
    then have "s1 = Some now" "\<forall>t. sample = Some t \<longrightarrow> t + 10 * TOKEN \<le> now" using log_filter_sampled [of requested sample now e s1] l by simp_all
    moreover have "logged_failures (ev # events) logged = now # logged_failures events ls"
      using True by (simp add: logged_failures_def logged ev)
    ultimately show ?thesis using IH by (simp add: apart_def) fastforce
  next
    case False
    then have "s1 = sample" using log_filter_other [OF l] by simp
    moreover have "logged_failures (ev # events) logged = logged_failures events ls"
      using False by (simp add: logged_failures_def logged ev)
    ultimately show ?thesis using IH by simp
  qed
qed (simp add: apart_def logged_failures_def)

lemma run_ops_zip:
  "\<lbrakk>run_ops step s xs = (rs, s'); (x, r) \<in> set (zip xs rs)\<rbrakk> \<Longrightarrow> \<exists>t t'. step t x = (r, t')"
proof (induction xs arbitrary: s rs)
  case (Cons y ys)
  obtain q s1 where y: "step s y = (q, s1)" by (cases "step s y")
  obtain qs s2 where ys: "run_ops step s1 ys = (qs, s2)" by (cases "run_ops step s1 ys")
  then have "rs = q # qs" "s2 = s'" using Cons.prems(1) y by auto
  then show ?case using Cons.IH [of s1 qs] Cons.prems(2) ys y by auto
qed simp

text \<open>
  C16: The log keeps secrets and is not flooded. Whatever filter is asked for, an event that is logged does not
  come from the wallet libraries, nor from the proxy library at its trace level, and is no counted capacity
  rejection; the failures of clients at the listener that are logged are ten seconds apart from each other;
  and every other event that was asked for is logged.
\<close>

theorem log_filter_sound:
  assumes "run_ops (log_filter requested) sample events = (logged, sample')"
  shows "(\<forall>now e l. ((now, e), l) \<in> set (zip events logged) \<longrightarrow>
       (l \<longrightarrow> requested e \<and> \<not> prefix ''cdk'' (ev_target e) \<and> \<not> prefix ''cashu'' (ev_target e)
          \<and> (prefix ''pingora_proxy'' (ev_target e) \<longrightarrow> ev_level e \<noteq> Trace_level) \<and> \<not> (listener_error e \<and> capacity_rejection e))
     \<and> (requested e \<and> safe_dependencies e \<and> (\<not> listener_error e \<or> \<not> capacity_rejection e \<and> \<not> client_failure e) \<longrightarrow> l))
    \<and> apart (logged_failures events logged)"
proof (intro conjI allI impI)
  fix now e l assume "((now, e), l) \<in> set (zip events logged)"
  then obtain t t' where "log_filter requested t (now, e) = (l, t')" using run_ops_zip [OF assms] by blast
  note v = log_filter_verdict [OF this]
  { assume l
    then show "requested e" "\<not> (listener_error e \<and> capacity_rejection e)" using v(1) by simp_all
    have "safe_dependencies e" using v(1) \<open>l\<close> by simp
    then show "\<not> prefix ''cdk'' (ev_target e)" "\<not> prefix ''cashu'' (ev_target e)"
      "prefix ''pingora_proxy'' (ev_target e) \<Longrightarrow> ev_level e \<noteq> Trace_level"
      unfolding safe_dependencies_def by blast+ }
  show l if "requested e \<and> safe_dependencies e \<and> (\<not> listener_error e \<or> \<not> capacity_rejection e \<and> \<not> client_failure e)"
    using v(2) that by simp
qed (use log_run_apart [OF assms] in blast)

section \<open>Witnesses\<close>

definition demo_transport :: transport where
  "demo_transport = snd (pre_tls 0 (Some (V4 1)) transport_start)"

theorem connections_bounded_witness: "fcard (fmdom (tr_open demo_transport)) \<le> 1024 \<and> tr_open demo_transport \<noteq> fmempty"
proof -
  have "transport_step transport_start demo_transport"
    unfolding demo_transport_def by (rule transport_step.accept_tls) (simp add: transport_start_def)
  then have "fcard (fmdom (tr_open demo_transport)) \<le> 1024" using connections_bounded [OF r_into_rtranclp] by blast
  moreover have "fmlookup (tr_open demo_transport) 0 \<noteq> None"
    by (simp add: demo_transport_def pre_tls_def connection_acquire_def transport_start_def connections_default_def capacity_eval)
  ultimately show ?thesis by auto
qed

definition demo_failure :: log_event where
  "demo_failure = \<lparr>ev_target = ''pingora_core::services::listening'', ev_level = Error_level, ev_message = ''Downstream handshake timeout''\<rparr>"

definition demo_log :: "(nat \<times> log_event) list" where
  "demo_log = [(0, demo_failure), (TOKEN, demo_failure), (10 * TOKEN, demo_failure)]"

theorem log_filter_sound_witness: "apart (logged_failures demo_log [True, False, True])"
proof -
  have "run_ops (log_filter (\<lambda>_. True)) None demo_log = ([True, False, True], Some (10 * TOKEN))"
    by (simp add: demo_log_def log_filter_def safe_dependencies_def event_enabled_def listener_error_def capacity_rejection_def
        client_failure_def sample_allow_def demo_failure_def TOKEN_def suffix_def)
  from log_filter_sound [OF this] show ?thesis by blast
qed

end
