(* ===== verification/Receiver.thy ===== *)
theory Receiver
  imports Challenges
begin

text \<open>
  Asking a Lightning node for an invoice: \<^verbatim>\<open>payments/lightning/receiver.rs\<close>. The files of the node's credentials,
  the authority of its URL and the RPC client of the node are parameters; the answer is what a challenge is
  issued with.
\<close>

section \<open>Credentials and the request\<close>

record receive_request =
  rr_amount_msat :: nat
  rr_description_hash :: string
  rr_expiry_secs :: nat

text \<open>\<open>rx_file\<close>: the bytes of a file; \<open>rx_max_macaroon\<close>: the limit of the client library; \<open>rx_receive\<close>: the invoice,
  \<open>None\<close> when the call fails or takes ten seconds.\<close>

record 'c receiver_ext =
  rx_file :: "string \<Rightarrow> string option"
  rx_max_macaroon :: nat
  rx_authority :: "string \<Rightarrow> string option"
  rx_client :: "string \<Rightarrow> string \<Rightarrow> string \<Rightarrow> 'c option"
  rx_receive :: "'c \<Rightarrow> receive_request \<Rightarrow> string option"

text \<open>No more than one byte past the limit is ever read.\<close>

definition read_bounded :: "'c receiver_ext \<Rightarrow> string \<Rightarrow> nat \<Rightarrow> string option" where
  "read_bounded x name limit =
     Option.bind (rx_file x name) (\<lambda>contents.
       let bytes = take (limit + 1) contents in if length bytes \<le> limit then Some bytes else None)"

definition trim :: "string \<Rightarrow> string" where
  "trim s = concat (rev (dropWhile is_whitespace (rev (dropWhile is_whitespace (chars s)))))"

definition receiver_client :: "'c receiver_ext \<Rightarrow> ldk_receiver_config \<Rightarrow> 'c option" where
  "receiver_client x node =
     Option.bind (read_bounded x (ldk_macaroon_file node) (rx_max_macaroon x * 2 + 2)) (\<lambda>token.
     if \<not> utf8_valid token then None
     else Option.bind (read_bounded x (ldk_tls_cert_file node) (1024 * 1024)) (\<lambda>cert.
          Option.bind (rx_authority x (ldk_endpoint node)) (\<lambda>authority.
          rx_client x authority (trim token) cert)))"

definition receiver_invoice :: "'c receiver_ext \<Rightarrow> ldk_receiver_config \<Rightarrow> nat \<Rightarrow> string \<Rightarrow> string option" where
  "receiver_invoice x node amount hash =
     Option.bind (receiver_client x node) (\<lambda>client.
     filter_option (\<lambda>invoice. invoice \<noteq> [])
       (rx_receive x client \<lparr>rr_amount_msat = amount, rr_description_hash = hash, rr_expiry_secs = ldk_expiry_seconds node\<rparr>))"

text \<open>A challenge whose invoice comes from the node of the policy.\<close>

definition node_challenge ::
  "'c receiver_ext \<Rightarrow> externals \<Rightarrow> ln_ext \<Rightarrow> l402_ext \<Rightarrow> (string \<Rightarrow> requirements \<Rightarrow> string) \<Rightarrow> challenge_env \<Rightarrow> lightning_policy
     \<Rightarrow> string \<Rightarrow> string \<Rightarrow> ip_addr \<Rightarrow> lightning_service \<Rightarrow> challenge option \<times> lightning_service" where
  "node_challenge rx x l m required_json env p url hash client s =
     lightning_challenge x l m required_json
       (env\<lparr>ce_ldk_invoice := Option.bind (receiver_ldk (lp_receiver p)) (\<lambda>node. receiver_invoice rx node (lp_amount_msat p) hash)\<rparr>)
       p url hash client s"

section \<open>What the node is asked\<close>

lemma read_bounded_whole:
  "read_bounded x name limit = Some bytes \<Longrightarrow> rx_file x name = Some bytes \<and> length bytes \<le> limit"
  by (auto simp: read_bounded_def Let_def bind_eq_Some_conv split: if_splits)

text \<open>Trimming takes white space off both ends and nothing else.\<close>

lemma trim_parts:
  obtains a b where "s = concat a @ trim s @ concat b" "\<forall>c\<in>set a. is_whitespace c" "\<forall>c\<in>set b. is_whitespace c"
proof -
  let ?r = "dropWhile is_whitespace (chars s)"
  have "s = concat (takeWhile is_whitespace (chars s)) @ concat ?r" by (metis concat_append concat_chars takeWhile_dropWhile_id)
  moreover have "?r = rev (dropWhile is_whitespace (rev ?r)) @ rev (takeWhile is_whitespace (rev ?r))"
    by (metis rev_append rev_rev_ident takeWhile_dropWhile_id)
  then have "concat ?r = trim s @ concat (rev (takeWhile is_whitespace (rev ?r)))"
    unfolding trim_def by (metis concat_append)
  ultimately show thesis using that [of "takeWhile is_whitespace (chars s)" "rev (takeWhile is_whitespace (rev ?r))"]
    by (auto dest: set_takeWhileD)
qed

lemma receiver_invoice_sound:
  assumes "receiver_invoice x node amount hash = Some invoice"
  obtains client token cert authority where "rx_file x (ldk_macaroon_file node) = Some token" "length token \<le> 2 * rx_max_macaroon x + 2"
    "rx_file x (ldk_tls_cert_file node) = Some cert" "length cert \<le> 1024 * 1024" "rx_authority x (ldk_endpoint node) = Some authority"
    "rx_client x authority (trim token) cert = Some client"
    "rx_receive x client \<lparr>rr_amount_msat = amount, rr_description_hash = hash, rr_expiry_secs = ldk_expiry_seconds node\<rparr> = Some invoice"
    "invoice \<noteq> []"
  using assms
  by (auto simp: receiver_invoice_def receiver_client_def bind_eq_Some_conv filter_option_eq_Some split: if_splits
      dest!: read_bounded_whole intro!: that)

lemma challenge_uses_invoice:
  assumes "lightning_challenge x l m required_json env p url hash client s = (Some c, s')" "lp_receiver p = Ldk node"
  shows "ce_ldk_invoice env \<noteq> None"
  using assms
  by (auto simp: lightning_challenge_def challenge_store_def challenge_invoice_def ok_or_def filter_option_def Let_def
      split: prod.splits sum.splits option.splits if_splits check_result.splits)

text \<open>
  A challenge for a node's policy is issued only when the node, addressed with its bounded credentials, was
  asked for the price of the policy and this very request, and answered.
\<close>

lemma node_challenge_asks:
  assumes "node_challenge rx x l m required_json env p url hash client s = (Some c, s')" "lp_receiver p = Ldk node"
  shows "\<exists>conn invoice. receiver_client rx node = Some conn \<and> invoice \<noteq> [] \<and>
    rx_receive rx conn \<lparr>rr_amount_msat = lp_amount_msat p, rr_description_hash = hash, rr_expiry_secs = ldk_expiry_seconds node\<rparr> = Some invoice"
  using challenge_uses_invoice [OF assms(1) [unfolded node_challenge_def] assms(2)] assms(2)
  by (auto simp: receiver_invoice_def bind_eq_Some_conv filter_option_eq_Some)

end
