(* ===== verification/Private_Files.thy ===== *)
theory Private_Files
  imports Cashu_Payments "HOL-Library.Word"
begin

text \<open>
  Private files: \<^verbatim>\<open>private_directory\<close>, \<^verbatim>\<open>private_file\<close> and \<^verbatim>\<open>prepare_storage\<close> of \<^verbatim>\<open>payments/mod.rs\<close> and
  \<^verbatim>\<open>Storage::open\<close> of \<^verbatim>\<open>storage.rs\<close>. A host is a tree of directories, files and symbolic links with
  their mode bits, the entries that have reached the disk, and the locked files. Every call may fail
  (\<open>io_fails\<close>); a power loss may take every entry that was not synced.
\<close>

unbundle bit_operations_syntax

section \<open>The host\<close>

type_synonym path = "string list"

text \<open>A link holds its target as an absolute path.\<close>

datatype node = Dir "32 word" | File "32 word" string | Link path

type_synonym tree = "(path, node) fmap"

record host =
  h_tree :: tree
  h_synced :: "path fset"
  h_locks :: "path fset"

datatype io_error = Not_found | Already_exists | Other_io

datatype io_call =
    Io_mkdir path | Io_lstat path | Io_exists path | Io_create path | Io_temporary path | Io_persist path
  | Io_sync path | Io_read path | Io_open path | Io_lock path

record io_env =
  io_fails :: "io_call \<Rightarrow> bool"
  io_umask :: "32 word"
  io_random :: "string option"

text \<open>Where a path leads: links are followed in every component but the last, at most 40 of them.\<close>

fun locate :: "nat \<Rightarrow> tree \<Rightarrow> path \<Rightarrow> path \<Rightarrow> io_error + path" where
  "locate n t base [] = Inr base"
| "locate n t base (c # cs) =
     (case fmlookup t base of
        None \<Rightarrow> Inl Not_found
      | Some (File _ _) \<Rightarrow> Inl Other_io
      | Some (Link _) \<Rightarrow> Inl Other_io
      | Some (Dir _) \<Rightarrow>
          if cs = [] then Inr (base @ [c])
          else (case fmlookup t (base @ [c]) of
                  Some (Link target) \<Rightarrow> if n = 0 then Inl Other_io else locate (n - 1) t [] (target @ cs)
                | _ \<Rightarrow> locate n t (base @ [c]) cs))"

abbreviation located :: "tree \<Rightarrow> path \<Rightarrow> io_error + path" where
  "located t p \<equiv> locate 40 t [] p"

text \<open>Following the last component too.\<close>

fun resolve :: "nat \<Rightarrow> tree \<Rightarrow> path \<Rightarrow> io_error + path" where
  "resolve n t p =
     (case located t p of
        Inl e \<Rightarrow> Inl e
      | Inr l \<Rightarrow>
          (case fmlookup t l of
             Some (Link target) \<Rightarrow> if n = 0 then Inl Other_io else resolve (n - 1) t target
           | _ \<Rightarrow> Inr l))"

declare resolve.simps [simp del]

abbreviation resolved :: "tree \<Rightarrow> path \<Rightarrow> io_error + path" where
  "resolved t p \<equiv> resolve 40 t p"

definition lstat :: "io_env \<Rightarrow> host \<Rightarrow> path \<Rightarrow> io_error + node" where
  "lstat env h p =
     (if io_fails env (Io_lstat p) then Inl Other_io
      else bind_result (located (h_tree h) p) (\<lambda>l. ok_or Not_found (fmlookup (h_tree h) l)))"

definition stat :: "host \<Rightarrow> path \<Rightarrow> io_error + path \<times> node" where
  "stat h p =
     bind_result (resolved (h_tree h) p) (\<lambda>l. map_sum id (Pair l) (ok_or Not_found (fmlookup (h_tree h) l)))"

definition try_exists :: "io_env \<Rightarrow> host \<Rightarrow> path \<Rightarrow> io_error + bool" where
  "try_exists env h p =
     (if io_fails env (Io_exists p) then Inl Other_io
      else (case stat h p of Inr _ \<Rightarrow> Inr True | Inl Not_found \<Rightarrow> Inr False | Inl e \<Rightarrow> Inl e))"

definition add_node :: "path \<Rightarrow> node \<Rightarrow> host \<Rightarrow> host" where
  "add_node l nd h = h\<lparr>h_tree := fmupd l nd (h_tree h), h_synced := h_synced h |-| {|l|}\<rparr>"

text \<open>A new directory or file: never over an entry, not even a link, and with the bits of the umask off.\<close>

definition new_node :: "node \<Rightarrow> path \<Rightarrow> host \<Rightarrow> (io_error + unit) \<times> host" where
  "new_node nd p h =
     (case located (h_tree h) p of
        Inl e \<Rightarrow> (Inl e, h)
      | Inr l \<Rightarrow> if fmlookup (h_tree h) l \<noteq> None then (Inl Already_exists, h) else (Inr (), add_node l nd h))"

definition mkdir :: "io_env \<Rightarrow> path \<Rightarrow> host \<Rightarrow> (io_error + unit) \<times> host" where
  "mkdir env p h =
     (if io_fails env (Io_mkdir p) then (Inl Other_io, h) else new_node (Dir (0x1C0 AND NOT (io_umask env))) p h)"

definition create_new :: "io_env \<Rightarrow> path \<Rightarrow> host \<Rightarrow> (io_error + unit) \<times> host" where
  "create_new env p h =
     (if io_fails env (Io_create p) then (Inl Other_io, h)
      else new_node (File (0x180 AND NOT (io_umask env)) []) p h)"

text \<open>\<^verbatim>\<open>sync_all\<close> on a directory: its entries reach the disk.\<close>

definition entries :: "path \<Rightarrow> tree \<Rightarrow> path fset" where
  "entries d t = ffilter (\<lambda>l. l \<noteq> [] \<and> butlast l = d) (fmdom t)"

definition sync_dir :: "path \<Rightarrow> host \<Rightarrow> host" where
  "sync_dir p h =
     (case resolved (h_tree h) p of
        Inl _ \<Rightarrow> h
      | Inr d \<Rightarrow> h\<lparr>h_synced := h_synced h |\<union>| entries d (h_tree h)\<rparr>)"

definition private_mode :: "32 word \<Rightarrow> bool" where
  "private_mode m \<longleftrightarrow> m AND 0x3F = 0"

section \<open>Private directories and files\<close>

datatype file_error =
    Fs io_error | Not_private_directory | Not_private_file | No_parent | Seed_missing | Invalid_seed | No_random
  | Ledger_failed ledger_error | In_use

definition check_directory :: "io_env \<Rightarrow> path \<Rightarrow> host \<Rightarrow> file_error + unit" where
  "check_directory env p h =
     (case lstat env h p of
        Inr (Dir m) \<Rightarrow> ensure (private_mode m) Not_private_directory
      | Inr _ \<Rightarrow> Inl Not_private_directory
      | Inl e \<Rightarrow> Inl (Fs e))"

definition make_private :: "io_env \<Rightarrow> path \<Rightarrow> host \<Rightarrow> (file_error + unit) \<times> host" where
  "make_private env p h =
     (case mkdir env p h of
        (Inl e, h1) \<Rightarrow> if e = Already_exists then (check_directory env p h1, h1) else (Inl (Fs e), h1)
      | (Inr _, h1) \<Rightarrow> (check_directory env p h1, h1))"

fun private_directory :: "io_env \<Rightarrow> path \<Rightarrow> host \<Rightarrow> (file_error + unit) \<times> host" where
  "private_directory env p h =
     (if p \<noteq> [] \<and> try_exists env h (butlast p) \<noteq> Inr True
      then (case private_directory env (butlast p) h of
              (Inl e, h1) \<Rightarrow> (Inl e, h1)
            | (Inr _, h1) \<Rightarrow> make_private env p h1)
      else make_private env p h)"

declare private_directory.simps [simp del]

definition private_file :: "io_env \<Rightarrow> path \<Rightarrow> host \<Rightarrow> (file_error + unit) \<times> host" where
  "private_file env p h =
     (case lstat env h p of
        Inr (File m c) \<Rightarrow> (ensure (private_mode m) Not_private_file, h)
      | Inr _ \<Rightarrow> (Inl Not_private_file, h)
      | Inl e \<Rightarrow>
          if e = Not_found
          then (case create_new env p h of (Inl e, h1) \<Rightarrow> (Inl (Fs e), h1) | (Inr _, h1) \<Rightarrow> (Inr (), h1))
          else (Inl (Fs e), h))"

section \<open>The seed and the files of a wallet\<close>

text \<open>Calls in sequence: the first error ends it, and the host keeps what was done before.\<close>

definition and_then :: "('h \<Rightarrow> ('e + 'a) \<times> 'h) \<Rightarrow> ('a \<Rightarrow> 'h \<Rightarrow> ('e + 'b) \<times> 'h) \<Rightarrow> 'h \<Rightarrow> ('e + 'b) \<times> 'h" where
  "and_then m f h = (case m h of (Inl e, h1) \<Rightarrow> (Inl e, h1) | (Inr a, h1) \<Rightarrow> f a h1)"

definition query :: "('h \<Rightarrow> io_error + 'a) \<Rightarrow> 'h \<Rightarrow> (file_error + 'a) \<times> 'h" where
  "query q h = (case q h of Inl e \<Rightarrow> (Inl (Fs e), h) | Inr a \<Rightarrow> (Inr a, h))"

definition exists_at :: "io_env \<Rightarrow> path \<Rightarrow> host \<Rightarrow> (file_error + bool) \<times> host" where
  "exists_at env p = query (\<lambda>h. try_exists env h p)"

text \<open>The temporary file is private, written and synced before it gets its name.\<close>

definition persist_noclobber :: "io_env \<Rightarrow> path \<Rightarrow> string \<Rightarrow> host \<Rightarrow> (file_error + unit) \<times> host" where
  "persist_noclobber env p bytes h =
     (if io_fails env (Io_temporary (butlast p)) \<or> io_fails env (Io_persist p) then (Inl (Fs Other_io), h)
      else (case new_node (File 0x180 bytes) p h of (Inl e, h1) \<Rightarrow> (Inl (Fs e), h1) | (Inr _, h1) \<Rightarrow> (Inr (), h1)))"

definition sync_at :: "io_env \<Rightarrow> path \<Rightarrow> host \<Rightarrow> (file_error + unit) \<times> host" where
  "sync_at env p h = (if io_fails env (Io_sync p) then (Inl (Fs Other_io), h) else (Inr (), sync_dir p h))"

definition new_seed :: "io_env \<Rightarrow> path \<Rightarrow> host \<Rightarrow> (file_error + unit) \<times> host" where
  "new_seed env dir =
     and_then (exists_at env (dir @ [''wallet.sqlite''])) (\<lambda>wallet.
     and_then (if wallet then Pair (Inr True) else exists_at env (dir @ [''ledger.redb''])) (\<lambda>used.
       if used then Pair (Inl Seed_missing)
       else (case io_random env of
               None \<Rightarrow> Pair (Inl No_random)
             | Some seed \<Rightarrow> and_then (persist_noclobber env (dir @ [''seed'']) seed) (\<lambda>_. sync_at env dir))))"

definition read_seed :: "io_env \<Rightarrow> path \<Rightarrow> host \<Rightarrow> (file_error + string) \<times> host" where
  "read_seed env p h =
     (if io_fails env (Io_read p) then (Inl (Fs Other_io), h)
      else (case stat h p of
              Inl e \<Rightarrow> (Inl (Fs e), h)
            | Inr (_, File _ bytes) \<Rightarrow> (if length bytes = 64 then Inr bytes else Inl Invalid_seed, h)
            | Inr _ \<Rightarrow> (Inl (Fs Other_io), h)))"

fun private_files :: "io_env \<Rightarrow> path list \<Rightarrow> host \<Rightarrow> (file_error + unit) \<times> host" where
  "private_files env [] = Pair (Inr ())"
| "private_files env (p # ps) =
     and_then (exists_at env p) (\<lambda>found.
     and_then (if found then private_file env p else Pair (Inr ())) (\<lambda>_. private_files env ps))"

definition seed_file :: "io_env \<Rightarrow> path \<Rightarrow> host \<Rightarrow> (file_error + string) \<times> host" where
  "seed_file env dir =
     and_then (exists_at env (dir @ [''seed''])) (\<lambda>found.
     and_then (if found then Pair (Inr ()) else new_seed env dir) (\<lambda>_.
     and_then (private_file env (dir @ [''seed''])) (\<lambda>_.
       read_seed env (dir @ [''seed'']))))"

definition wallet_files :: "io_env \<Rightarrow> path \<Rightarrow> host \<Rightarrow> (file_error + unit) \<times> host" where
  "wallet_files env dir =
     and_then (private_file env (dir @ [''ledger.redb''])) (\<lambda>_.
     and_then (private_file env (dir @ [''wallet.sqlite''])) (\<lambda>_.
       private_files env [dir @ [''wallet.sqlite-wal''], dir @ [''wallet.sqlite-shm'']]))"

definition prepare_files :: "io_env \<Rightarrow> path \<Rightarrow> host \<Rightarrow> (file_error + string) \<times> host" where
  "prepare_files env dir =
     and_then (if dir = [] then Pair (Inl No_parent) else private_directory env (butlast dir)) (\<lambda>_.
     and_then (private_directory env dir) (\<lambda>_.
     and_then (seed_file env dir) (\<lambda>seed.
     and_then (wallet_files env dir) (\<lambda>_. Pair (Inr seed)))))"

text \<open>Opening the journal ends with a sync of its directory, so that is done when it reports success.\<close>

definition prepare_storage ::
  "io_env \<Rightarrow> tx_env \<Rightarrow> path \<Rightarrow> host \<times> ledger \<Rightarrow> (file_error + string) \<times> host \<times> ledger" where
  "prepare_storage env tx dir =
     (\<lambda>(h, db). case prepare_files env dir h of
        (Inl e, h1) \<Rightarrow> (Inl e, h1, db)
      | (Inr seed, h1) \<Rightarrow>
          (case ledger_open tx db of
             (Inl e, db1) \<Rightarrow> (Inl (Ledger_failed e), h1, db1)
           | (Inr _, db1) \<Rightarrow> (Inr seed, sync_dir dir h1, db1)))"

section \<open>Finding a path again\<close>

text \<open>A path leads to the same place as long as the directories and links it passes stay.\<close>

definition shape_kept :: "tree \<Rightarrow> tree \<Rightarrow> bool" where
  "shape_kept t t' \<longleftrightarrow>
     (\<forall>p m. fmlookup t p = Some (Dir m) \<longrightarrow> fmlookup t' p = Some (Dir m))
   \<and> (\<forall>p q. fmlookup t p = Some (Link q) \<longrightarrow> fmlookup t' p = Some (Link q))"

lemma locate_passes_dir:
  "\<lbrakk>locate n t b p = Inr l; p \<noteq> []\<rbrakk> \<Longrightarrow> \<exists>m. fmlookup t b = Some (Dir m)"
  by (cases p) (auto split: option.splits node.splits)

lemma locate_cases:
  assumes "locate n t b (c # cs) = Inr l" "cs \<noteq> []"
  obtains (link) m target where "fmlookup t b = Some (Dir m)" "fmlookup t (b @ [c]) = Some (Link target)" "0 < n"
      "locate (n - 1) t [] (target @ cs) = Inr l"
  | (dir) m m' where "fmlookup t b = Some (Dir m)" "fmlookup t (b @ [c]) = Some (Dir m')" "locate n t (b @ [c]) cs = Inr l"
proof -
  obtain m where m: "fmlookup t b = Some (Dir m)" using locate_passes_dir [OF assms(1)] by auto
  show thesis
  proof (cases "\<exists>q. fmlookup t (b @ [c]) = Some (Link q)")
    case True
    then show thesis using link [OF m] assms m by (auto split: if_splits)
  next
    case False
    then have l: "locate n t (b @ [c]) cs = Inr l" using assms m by (auto split: option.splits node.splits)
    then show thesis using dir [OF m _ l] locate_passes_dir [OF l assms(2)] by blast
  qed
qed

lemma locate_kept:
  "\<lbrakk>shape_kept t t'; locate n t b p = Inr l\<rbrakk> \<Longrightarrow> locate n t' b p = Inr l"
proof (induction n t b p rule: locate.induct)
  case (2 n t b c cs)
  show ?case
  proof (cases "cs = []")
    case True
    then show ?thesis using "2.prems" locate_passes_dir [OF "2.prems"(2)] by (auto simp: shape_kept_def)
  next
    case False
    from "2.prems"(2) this show ?thesis
    proof (cases rule: locate_cases)
      case (link m target)
      then show ?thesis using 2 False by (auto simp: shape_kept_def)
    next
      case (dir m m')
      then show ?thesis using 2 False by (auto simp: shape_kept_def)
    qed
  qed
qed simp

lemma locate_sibling:
  "locate n t b (p @ [x]) = Inr l \<Longrightarrow>
    \<exists>d m. l = d @ [x] \<and> fmlookup t d = Some (Dir m) \<and> (\<forall>y. locate n t b (p @ [y]) = Inr (d @ [y]))"
proof (induction n t b "p @ [x]" arbitrary: p rule: locate.induct)
  case (2 n t b c cs)
  show ?case
  proof (cases p)
    case Nil
    then show ?thesis using 2(5,6) by (auto split: option.splits node.splits)
  next
    case (Cons c' cs')
    then have cs: "c' = c" "cs = cs' @ [x]" "cs \<noteq> []" using 2(5) by auto
    have "locate n t b (c # cs) = Inr l" using 2(5,6) by simp
    from this cs(3) show ?thesis
    proof (cases rule: locate_cases)
      case (link m target)
      then show ?thesis using 2(4) [OF link(1) refl cs(3) link(2) refl, of "target @ cs'"] cs Cons by auto
    next
      case (dir m m')
      then show ?thesis using 2(2) [OF dir(1) refl cs(3) dir(2) refl, of cs'] cs Cons by auto
    qed
  qed
qed simp

lemma locate_below:
  "\<lbrakk>locate n t b p = Inr d; fmlookup t d = Some (Dir m)\<rbrakk> \<Longrightarrow> locate n t b (p @ [x]) = Inr (d @ [x])"
proof (induction n t b p rule: locate.induct)
  case (2 n t b c cs)
  show ?case
  proof (cases "cs = []")
    case True
    then show ?thesis using 2(5,6) locate_passes_dir [OF 2(5)] by auto
  next
    case False
    from 2(5) this show ?thesis
    proof (cases rule: locate_cases)
      case (link m target)
      then show ?thesis using 2 False by simp
    next
      case (dir m m')
      then show ?thesis using 2 False by simp
    qed
  qed
qed simp

lemma resolved_plain:
  "\<lbrakk>located t p = Inr l; \<And>q. fmlookup t l \<noteq> Some (Link q)\<rbrakk> \<Longrightarrow> resolved t p = Inr l"
  by (subst resolve.simps) (auto split: option.splits node.splits)

lemma stat_located:
  assumes "stat h p = Inr r"
  obtains l nd where "located (h_tree h) p = Inr l" "fmlookup (h_tree h) l = Some nd"
  using assms by (subst (asm) stat_def, subst (asm) resolve.simps)
    (auto simp: bind_result_def ok_or_def split: sum.splits option.splits node.splits)

lemma stat_file:
  assumes "located (h_tree h) p = Inr l" "fmlookup (h_tree h) l = Some (File m c)"
  shows "stat h p = Inr (l, File m c)"
  using assms resolved_plain [OF assms(1)] by (simp add: stat_def ok_or_def)

section \<open>What the calls add\<close>

text \<open>A node that may appear: private, and a seed only where there is no journal.\<close>

definition may_add :: "tree \<Rightarrow> path \<Rightarrow> node \<Rightarrow> bool" where
  "may_add t l nd \<longleftrightarrow>
     (\<exists>m. (nd = Dir m \<or> (\<exists>c. nd = File m c)) \<and> private_mode m)
   \<and> (\<forall>d m c. l = d @ [''seed''] \<and> nd = File m c \<longrightarrow> (\<forall>m c. fmlookup t (d @ [''ledger.redb'']) \<noteq> Some (File m c)))"

definition safely :: "host \<Rightarrow> host \<Rightarrow> bool" where
  "safely h h' \<longleftrightarrow>
     (\<forall>p nd. fmlookup (h_tree h) p = Some nd \<longrightarrow> fmlookup (h_tree h') p = Some nd)
   \<and> (\<forall>p. p |\<in>| h_synced h \<and> fmlookup (h_tree h) p \<noteq> None \<longrightarrow> p |\<in>| h_synced h')
   \<and> (\<forall>p nd. fmlookup (h_tree h) p = None \<and> fmlookup (h_tree h') p = Some nd \<longrightarrow> may_add (h_tree h) p nd)
   \<and> h_locks h' = h_locks h"

lemma safely_refl [simp]: "safely h h"
  by (auto simp: safely_def)

lemma may_add_before: "\<lbrakk>may_add t' l nd; \<And>p nd. fmlookup t p = Some nd \<Longrightarrow> fmlookup t' p = Some nd\<rbrakk> \<Longrightarrow> may_add t l nd"
  unfolding may_add_def by blast

lemma safely_trans: "\<lbrakk>safely h h1; safely h1 h2\<rbrakk> \<Longrightarrow> safely h h2"
  unfolding safely_def
proof (intro conjI allI impI; (elim conjE)?)
  fix p nd
  assume h: "\<forall>p nd. fmlookup (h_tree h) p = Some nd \<longrightarrow> fmlookup (h_tree h1) p = Some nd"
    "\<forall>p nd. fmlookup (h_tree h) p = None \<and> fmlookup (h_tree h1) p = Some nd \<longrightarrow> may_add (h_tree h) p nd"
    "\<forall>p nd. fmlookup (h_tree h1) p = Some nd \<longrightarrow> fmlookup (h_tree h2) p = Some nd"
    "\<forall>p nd. fmlookup (h_tree h1) p = None \<and> fmlookup (h_tree h2) p = Some nd \<longrightarrow> may_add (h_tree h1) p nd"
    "fmlookup (h_tree h) p = None" "fmlookup (h_tree h2) p = Some nd"
  show "may_add (h_tree h) p nd"
  proof (cases "fmlookup (h_tree h1) p")
    case None
    then show ?thesis using h may_add_before [of "h_tree h1" p nd "h_tree h"] by simp
  qed (use h in auto)
qed auto

lemma safely_keeps: "\<lbrakk>safely h h'; fmlookup (h_tree h) p = Some nd\<rbrakk> \<Longrightarrow> fmlookup (h_tree h') p = Some nd"
  by (simp add: safely_def)

lemma safely_located: "\<lbrakk>safely h h'; located (h_tree h) p = Inr l\<rbrakk> \<Longrightarrow> located (h_tree h') p = Inr l"
  by (rule locate_kept) (auto simp: shape_kept_def safely_def)

lemma safely_new_node:
  assumes "new_node nd p h = (r, h')"
    and "\<And>l. located (h_tree h) p = Inr l \<Longrightarrow> fmlookup (h_tree h) l = None \<Longrightarrow> may_add (h_tree h) l nd"
  shows "safely h h'"
  using assms by (auto simp: new_node_def safely_def add_node_def split: sum.splits if_splits)

lemma safely_sync [simp]: "safely h (sync_dir p h)"
  by (auto simp: safely_def sync_dir_def split: sum.splits)

lemma safely_and_then:
  assumes "and_then m f h = (r, h')" "\<And>r h1. m h = (r, h1) \<Longrightarrow> safely h h1"
    and "\<And>a h1. m h = (Inr a, h1) \<Longrightarrow> safely h h1 \<Longrightarrow> f a h1 = (r, h') \<Longrightarrow> safely h1 h'"
  shows "safely h h'"
proof (cases "m h")
  case (Pair q h1)
  then have "safely h h1" by (rule assms(2))
  then show ?thesis using assms(1) Pair assms(3) [of _ h1]
    by (cases q) (auto simp: and_then_def intro: safely_trans)
qed

lemma private_masked [simp]: "private_mode (0x1C0 AND m)" "private_mode (0x180 AND m)" "private_mode 0x180"
  by (simp_all add: private_mode_def and.assoc and.left_commute [of _ m])

lemma mkdir_safely: "mkdir env p h = (r, h') \<Longrightarrow> safely h h'"
  by (auto simp: mkdir_def may_add_def split: if_splits elim!: safely_new_node)

lemma make_private_safely: "make_private env p h = (r, h') \<Longrightarrow> safely h h'"
  by (auto simp: make_private_def split: sum.splits prod.splits if_splits dest: mkdir_safely)

lemma private_directory_safely: "private_directory env p h = (r, h') \<Longrightarrow> safely h h'"
proof (induction env p h arbitrary: r h' rule: private_directory.induct)
  case (1 env p h)
  show ?case
  proof (cases "p \<noteq> [] \<and> try_exists env h (butlast p) \<noteq> Inr True")
    case True
    obtain q h1 where q: "private_directory env (butlast p) h = (q, h1)" by force
    then have "safely h h1" using "1.IH" True by blast
    then show ?thesis
      using "1.prems" True q by (subst (asm) private_directory.simps) (auto split: sum.splits dest: make_private_safely intro: safely_trans)
  next
    case False
    then show ?thesis using "1.prems" by (subst (asm) private_directory.simps) (auto dest: make_private_safely)
  qed
qed

lemma make_private_ok:
  assumes "make_private env p h = (Inr u, h')"
  obtains d m where "located (h_tree h') p = Inr d" "fmlookup (h_tree h') d = Some (Dir m)" "private_mode m"
  using assms
  by (auto simp: make_private_def check_directory_def lstat_def bind_result_def ok_or_def ensure_def
      split: sum.splits prod.splits if_splits option.splits node.splits)

lemma private_directory_ok:
  assumes "private_directory env p h = (Inr u, h')"
  obtains d m where "located (h_tree h') p = Inr d" "fmlookup (h_tree h') d = Some (Dir m)" "private_mode m"
proof -
  obtain h1 where "make_private env p h1 = (Inr u, h')"
    using assms by (subst (asm) private_directory.simps) (auto split: if_splits sum.splits prod.splits)
  then show thesis by (rule make_private_ok) (rule that)
qed

lemma new_file_safely:
  assumes "create_new env (p @ [x]) h = (r, h')" "x \<noteq> ''seed''"
  shows "safely h h'"
proof (cases "io_fails env (Io_create (p @ [x]))")
  case False
  then have "new_node (File (0x180 AND NOT (io_umask env)) []) (p @ [x]) h = (r, h')"
    using assms(1) by (simp add: create_new_def)
  then show ?thesis by (rule safely_new_node) (use assms(2) in \<open>auto simp: may_add_def dest: locate_sibling\<close>)
qed (use assms(1) in \<open>simp add: create_new_def\<close>)

lemma private_file_safely: "\<lbrakk>private_file env (p @ [x]) h = (r, h'); x \<noteq> ''seed''\<rbrakk> \<Longrightarrow> safely h h'"
  by (auto simp: private_file_def split: sum.splits prod.splits if_splits node.splits dest: new_file_safely)

lemma private_file_ok:
  assumes "private_file env p h = (Inr u, h')"
  obtains l m c where "located (h_tree h') p = Inr l" "fmlookup (h_tree h') l = Some (File m c)" "private_mode m"
proof (cases "\<exists>nd. lstat env h p = Inr nd")
  case True
  then show thesis
    using assms that
    by (auto simp: private_file_def lstat_def bind_result_def ok_or_def ensure_def split: sum.splits node.splits if_splits option.splits)
next
  case False
  then have "create_new env p h = (Inr (), h')"
    using assms by (auto simp: private_file_def split: sum.splits if_splits prod.splits)
  then obtain l where l: "located (h_tree h) p = Inr l" "fmlookup (h_tree h) l = None"
      "h' = add_node l (File (0x180 AND NOT (io_umask env)) []) h"
    by (auto simp: create_new_def new_node_def split: if_splits sum.splits)
  have "located (h_tree h') p = Inr l"
    by (rule locate_kept [OF _ l(1)]) (auto simp: shape_kept_def l(2,3) add_node_def)
  then show thesis using that l(3) by (auto simp: add_node_def)
qed

lemma private_file_there:
  assumes "private_file env p h = (r, h')" "located (h_tree h) p = Inr l" "fmlookup (h_tree h) l = Some nd"
  shows "h' = h"
  using assms by (auto simp: private_file_def lstat_def bind_result_def ok_or_def split: sum.splits node.splits if_splits prod.splits)

lemma exists_at_same: "exists_at env p h = (r, h') \<Longrightarrow> h' = h"
  by (auto simp: exists_at_def query_def split: sum.splits)

lemma exists_at_there:
  assumes "exists_at env p h = (Inr True, h')"
  obtains l nd where "located (h_tree h) p = Inr l" "fmlookup (h_tree h) l = Some nd"
  using assms
  by (auto simp: exists_at_def query_def try_exists_def split: sum.splits if_splits io_error.splits elim: stat_located)

lemma exists_at_absent:
  assumes "exists_at env p h = (Inr False, h')" "located (h_tree h) p = Inr l"
  shows "fmlookup (h_tree h) l \<noteq> Some (File m c)"
  using assms stat_file [OF assms(2)]
  by (auto simp: exists_at_def query_def try_exists_def split: sum.splits if_splits io_error.splits)

lemma private_files_safely:
  "\<lbrakk>private_files env ps h = (r, h'); \<forall>p\<in>set ps. \<exists>q x. p = q @ [x] \<and> x \<noteq> ''seed''\<rbrakk> \<Longrightarrow> safely h h'"
proof (induction ps arbitrary: h)
  case (Cons p ps)
  then obtain q x where p: "p = q @ [x]" "x \<noteq> ''seed''" by auto
  show ?case
    using Cons.prems(1) unfolding private_files.simps
  proof (rule safely_and_then)
    fix found h1
    assume "and_then (if found then private_file env p else Pair (Inr ())) (\<lambda>_. private_files env ps) h1 = (r, h')"
    then show "safely h1 h'"
      by (rule safely_and_then) (use p Cons in \<open>auto split: if_splits dest: private_file_safely\<close>)
  qed (auto dest: exists_at_same)
qed simp

lemma persist_seed_safely:
  assumes "persist_noclobber env (dir @ [''seed'']) bytes h = (r, h')" "exists_at env (dir @ [''ledger.redb'']) h = (Inr False, h)"
  shows "safely h h'"
proof (cases "io_fails env (Io_temporary dir) \<or> io_fails env (Io_persist (dir @ [''seed'']))")
  case False
  then obtain q where "new_node (File 0x180 bytes) (dir @ [''seed'']) h = (q, h')"
    using assms(1) by (auto simp: persist_noclobber_def split: sum.splits prod.splits)
  then show ?thesis
  proof (rule safely_new_node)
    fix l assume "located (h_tree h) (dir @ [''seed'']) = Inr l"
    then obtain d where "l = d @ [''seed'']" "located (h_tree h) (dir @ [''ledger.redb'']) = Inr (d @ [''ledger.redb''])"
      using locate_sibling by metis
    then show "may_add (h_tree h) l (File 0x180 bytes)"
      using exists_at_absent [OF assms(2)] by (auto simp: may_add_def)
  qed
qed (use assms(1) in \<open>auto simp: persist_noclobber_def\<close>)

lemma persist_there:
  assumes "persist_noclobber env p bytes h = (Inr u, h')"
  obtains l nd where "located (h_tree h') p = Inr l" "fmlookup (h_tree h') l = Some nd"
proof -
  obtain l where l: "located (h_tree h) p = Inr l" "fmlookup (h_tree h) l = None" "h' = add_node l (File 0x180 bytes) h"
    using assms by (auto simp: persist_noclobber_def new_node_def split: if_splits sum.splits prod.splits)
  have "located (h_tree h') p = Inr l"
    by (rule locate_kept [OF _ l(1)]) (auto simp: shape_kept_def l(2,3) add_node_def)
  then show thesis using that l(3) by (simp add: add_node_def)
qed

lemma new_seed_cases:
  assumes "new_seed env dir h = (r, h')"
  obtains (none) e where "r = Inl e" "h' = h"
  | (unsynced) seed q where "exists_at env (dir @ [''ledger.redb'']) h = (Inr False, h)"
      "persist_noclobber env (dir @ [''seed'']) seed h = (q, h')" "\<exists>e. r = Inl e"
  | (synced) seed h1 where "exists_at env (dir @ [''ledger.redb'']) h = (Inr False, h)"
      "persist_noclobber env (dir @ [''seed'']) seed h = (Inr (), h1)" "h' = sync_dir dir h1"
proof -
  obtain w l where w: "exists_at env (dir @ [''wallet.sqlite'']) h = (w, h)" and l: "exists_at env (dir @ [''ledger.redb'']) h = (l, h)"
    using exists_at_same by (metis surj_pair)
  show thesis
  proof (cases "w = Inr False \<and> l = Inr False \<and> io_random env \<noteq> None")
    case True
    then obtain seed q h1 where q: "persist_noclobber env (dir @ [''seed'']) seed h = (q, h1)"
      "and_then (persist_noclobber env (dir @ [''seed'']) seed) (\<lambda>_. sync_at env dir) h = (r, h')"
      using assms w l by (auto simp: new_seed_def and_then_def split: prod.splits)
    then show thesis
      using l True unsynced [of seed] synced [of seed] by (cases q) (auto simp: and_then_def sync_at_def split: if_splits)
  next
    case False
    then have "\<exists>e. r = Inl e \<and> h' = h"
      using assms w l by (auto simp: new_seed_def and_then_def split: sum.splits if_splits option.splits)
    then show thesis using none by blast
  qed
qed

lemma new_seed_safely: "new_seed env dir h = (r, h') \<Longrightarrow> safely h h'"
  by (erule new_seed_cases) (auto dest: persist_seed_safely intro: safely_trans)

lemma new_seed_there:
  assumes "new_seed env dir h = (Inr u, h')"
  obtains l nd where "located (h_tree h') (dir @ [''seed'']) = Inr l" "fmlookup (h_tree h') l = Some nd"
  using assms
proof (cases rule: new_seed_cases)
  case (synced seed h1)
  have "h_tree h' = h_tree h1" by (simp add: synced(3) sync_dir_def split: sum.splits)
  then show thesis using persist_there [OF synced(2)] that by metis
qed auto

lemma seed_step:
  assumes "exists_at env (dir @ [''seed'']) h = (Inr found, h0)" "(if found then Pair (Inr ()) else new_seed env dir) h = (Inr u, h1)"
  obtains l nd where "located (h_tree h1) (dir @ [''seed'']) = Inr l" "fmlookup (h_tree h1) l = Some nd"
  using assms by (cases found) (auto elim: exists_at_there new_seed_there)

lemma read_seed_same: "read_seed env p h = (r, h') \<Longrightarrow> h' = h"
  by (auto simp: read_seed_def split: if_splits sum.splits node.splits)

lemma and_then_ok:
  assumes "and_then m f h = (Inr b, h')"
  obtains a h1 where "m h = (Inr a, h1)" "f a h1 = (Inr b, h')"
  using assms by (auto simp: and_then_def split: prod.splits sum.splits)

lemma log_files_safely:
  "private_files env [dir @ [''wallet.sqlite-wal''], dir @ [''wallet.sqlite-shm'']] h = (r, h') \<Longrightarrow> safely h h'"
  by (erule private_files_safely) simp

lemma wallet_files_safely: "wallet_files env dir h = (r, h') \<Longrightarrow> safely h h'"
  unfolding wallet_files_def
  by (erule safely_and_then; (erule safely_and_then)?)
    (auto simp del: private_files.simps dest: private_file_safely log_files_safely)

lemma seed_file_safely: "seed_file env dir h = (r, h') \<Longrightarrow> safely h h'"
  unfolding seed_file_def
proof (erule safely_and_then)
  fix found h1
  assume f: "exists_at env (dir @ [''seed'']) h = (Inr found, h1)"
    and "and_then (if found then Pair (Inr ()) else new_seed env dir) (\<lambda>_.
       and_then (private_file env (dir @ [''seed''])) (\<lambda>_. read_seed env (dir @ [''seed'']))) h1 = (r, h')"
  from this(2) show "safely h1 h'"
  proof (rule safely_and_then)
    fix u h2
    assume u: "(if found then Pair (Inr ()) else new_seed env dir) h1 = (Inr u, h2)"
      and "and_then (private_file env (dir @ [''seed''])) (\<lambda>_. read_seed env (dir @ [''seed''])) h2 = (r, h')"
    from this(2) show "safely h2 h'"
      by (rule safely_and_then)
        (use f u exists_at_same [OF f] in \<open>auto dest: read_seed_same private_file_there elim!: seed_step\<close>)
  qed (auto split: if_splits dest: new_seed_safely)
qed (auto dest: exists_at_same)

lemma prepare_files_safely: "prepare_files env dir h = (r, h') \<Longrightarrow> safely h h'"
  unfolding prepare_files_def
  by (erule safely_and_then; (erule safely_and_then)?; (erule safely_and_then)?; (erule safely_and_then)?)
    (auto split: if_splits dest: private_directory_safely seed_file_safely wallet_files_safely)

text \<open>A seed that is returned is the contents of a real private file beside the journal.\<close>

lemma seed_file_ok:
  assumes "seed_file env dir h = (Inr seed, h')"
  obtains l m where "located (h_tree h') (dir @ [''seed'']) = Inr l" "fmlookup (h_tree h') l = Some (File m seed)" "private_mode m"
    "length seed = 64"
proof -
  obtain h1 h2 where p: "private_file env (dir @ [''seed'']) h1 = (Inr (), h2)" "read_seed env (dir @ [''seed'']) h2 = (Inr seed, h')"
    using assms unfolding seed_file_def by (auto elim!: and_then_ok)
  obtain l m c where l: "located (h_tree h2) (dir @ [''seed'']) = Inr l" "fmlookup (h_tree h2) l = Some (File m c)" "private_mode m"
    using private_file_ok [OF p(1)] by blast
  then have "c = seed" "length seed = 64"
    using p(2) stat_file [OF l(1,2)] by (auto simp: read_seed_def split: if_splits)
  then show thesis using that l read_seed_same [OF p(2)] by simp
qed

lemma prepare_files_ok:
  assumes "prepare_files env dir h = (Inr seed, h')"
  obtains d m m1 m2 c where "located (h_tree h') dir = Inr d" "fmlookup (h_tree h') d = Some (Dir m)" "private_mode m"
    "fmlookup (h_tree h') (d @ [''seed'']) = Some (File m1 seed)" "private_mode m1" "length seed = 64"
    "fmlookup (h_tree h') (d @ [''ledger.redb'']) = Some (File m2 c)" "private_mode m2"
proof -
  obtain h1 h2 h3 where p: "private_directory env dir h1 = (Inr (), h2)" "seed_file env dir h2 = (Inr seed, h3)"
    "wallet_files env dir h3 = (Inr (), h')"
    using assms unfolding prepare_files_def by (auto elim!: and_then_ok)
  obtain h4 h5 where q: "private_file env (dir @ [''ledger.redb'']) h3 = (Inr (), h4)"
    "private_file env (dir @ [''wallet.sqlite'']) h4 = (Inr (), h5)"
    "private_files env [dir @ [''wallet.sqlite-wal''], dir @ [''wallet.sqlite-shm'']] h5 = (Inr (), h')"
    using p(3) unfolding wallet_files_def by (auto elim!: and_then_ok simp del: private_files.simps)
  obtain d m where d: "located (h_tree h2) dir = Inr d" "fmlookup (h_tree h2) d = Some (Dir m)" "private_mode m"
    using private_directory_ok [OF p(1)] by blast
  obtain l m1 where l: "located (h_tree h3) (dir @ [''seed'']) = Inr l" "fmlookup (h_tree h3) l = Some (File m1 seed)"
    "private_mode m1" "length seed = 64"
    using seed_file_ok [OF p(2)] by blast
  obtain k m2 c where k: "located (h_tree h4) (dir @ [''ledger.redb'']) = Inr k" "fmlookup (h_tree h4) k = Some (File m2 c)" "private_mode m2"
    using private_file_ok [OF q(1)] by blast
  have s23: "safely h2 h3" and s34: "safely h3 h4" and s3: "safely h3 h'" and s45: "safely h4 h5" and s5: "safely h5 h'"
    using seed_file_safely [OF p(2)] private_file_safely [OF q(1)] wallet_files_safely [OF p(3)] private_file_safely [OF q(2)]
      log_files_safely [OF q(3)] by auto
  have "located (h_tree h3) (dir @ [x]) = Inr (d @ [x])" for x
    using locate_below [OF safely_located [OF s23 d(1)] safely_keeps [OF s23 d(2)]] .
  then have lk: "l = d @ [''seed'']" "k = d @ [''ledger.redb'']"
    using l(1) k(1) safely_located [OF s34, of "dir @ [''ledger.redb'']"] by auto
  have s2: "safely h2 h'" and s4: "safely h4 h'" using safely_trans [OF s23 s3] safely_trans [OF s45 s5] by simp_all
  show thesis
    using that [of d m m1 m2 c] safely_located [OF s2 d(1)] safely_keeps [OF s2 d(2)] safely_keeps [OF s3 l(2)] safely_keeps [OF s4 k(2)]
      d(3) l(3,4) k(3) lk by simp
qed

section \<open>One seed for a wallet\<close>

text \<open>
  An interface for values that are fixed once they have been given out: an answer fixes the value, a fixed
  value stays fixed, and every later answer is that value. Then all answers of a run are equal.
\<close>

locale write_once =
  fixes step :: "'s \<Rightarrow> 'op \<Rightarrow> 'r \<times> 's" and answer :: "'op \<Rightarrow> 'r \<Rightarrow> 'v option" and fixed :: "'s \<Rightarrow> 'v \<Rightarrow> bool"
  assumes answer_fixes: "\<lbrakk>step s x = (r, s'); answer x r = Some v\<rbrakk> \<Longrightarrow> fixed s' v"
    and fixed_stays: "\<lbrakk>step s x = (r, s'); fixed s v\<rbrakk> \<Longrightarrow> fixed s' v"
    and fixed_answers: "\<lbrakk>step s x = (r, s'); fixed s v; answer x r = Some w\<rbrakk> \<Longrightarrow> w = v"
begin

lemma run_fixed:
  "\<lbrakk>run_ops step s xs = (rs, s'); fixed s v; (x, r) \<in> set (zip xs rs); answer x r = Some w\<rbrakk> \<Longrightarrow> w = v"
proof (induction xs arbitrary: s rs)
  case (Cons y ys)
  obtain q s1 where y: "step s y = (q, s1)" by (cases "step s y")
  obtain qs s2 where ys: "run_ops step s1 ys = (qs, s2)" by (cases "run_ops step s1 ys")
  have rs: "rs = q # qs" using Cons.prems(1) y ys by auto
  show ?case
  proof (cases "(x, r) = (y, q)")
    case True
    then show ?thesis using fixed_answers [OF y Cons.prems(2)] Cons.prems(4) by simp
  next
    case False
    then show ?thesis using Cons.IH [of s1 qs] fixed_stays [OF y Cons.prems(2)] ys y Cons.prems rs by auto
  qed
qed simp

lemma run_same:
  "run_ops step s xs = (rs, s') \<Longrightarrow> \<exists>v. \<forall>x r w. (x, r) \<in> set (zip xs rs) \<longrightarrow> answer x r = Some w \<longrightarrow> w = v"
proof (induction xs arbitrary: s rs)
  case (Cons z zs)
  obtain p s1 where z: "step s z = (p, s1)" by (cases "step s z")
  obtain ps s2 where zs: "run_ops step s1 zs = (ps, s2)" by (cases "run_ops step s1 zs")
  have rs: "rs = p # ps" using Cons.prems z zs by auto
  show ?case
  proof (cases "answer z p")
    case None
    then show ?thesis using Cons.IH [of s1 ps] Cons.prems z zs rs by auto
  next
    case (Some v)
    then have "fixed s1 v" using answer_fixes [OF z] by simp
    then show ?thesis using run_fixed [OF zs] Some rs by auto
  qed
qed simp

end

text \<open>
  The life of the storage: wallets are opened, and files vanish, as a power loss takes files whose entries
  were not synced, or as somebody deletes a seed. Directories and links stay.
\<close>

definition may_vanish :: "host \<Rightarrow> path \<Rightarrow> bool" where
  "may_vanish h p \<longleftrightarrow>
     (case fmlookup (h_tree h) p of Some (File _ _) \<Rightarrow> p |\<notin>| h_synced h \<or> last p = ''seed'' | _ \<Rightarrow> False)"

definition vanish :: "path fset \<Rightarrow> host \<Rightarrow> host" where
  "vanish lost h = h\<lparr>h_tree := fmfilter (\<lambda>p. \<not> (p |\<in>| lost \<and> may_vanish h p)) (h_tree h), h_locks := {||}\<rparr>"

datatype storage_op = Open_wallet io_env tx_env path ledger | Vanish "path fset"

fun storage_step :: "host \<Rightarrow> storage_op \<Rightarrow> (file_error + string) option \<times> host" where
  "storage_step h (Open_wallet env tx dir db) = (case prepare_storage env tx dir (h, db) of (r, h', _) \<Rightarrow> (Some r, h'))"
| "storage_step h (Vanish lost) = (None, vanish lost h)"

fun seed_answer :: "path \<Rightarrow> storage_op \<Rightarrow> (file_error + string) option \<Rightarrow> string option" where
  "seed_answer dir (Open_wallet _ _ p _) (Some (Inr seed)) = (if p = dir then Some seed else None)"
| "seed_answer dir _ _ = None"

text \<open>The seed of a directory is fixed when its journal is on disk and the seed file has no other contents.\<close>

definition seed_fixed :: "path \<Rightarrow> host \<Rightarrow> string \<Rightarrow> bool" where
  "seed_fixed dir h seed \<longleftrightarrow>
     (\<exists>d m m1 c. located (h_tree h) dir = Inr d \<and> fmlookup (h_tree h) d = Some (Dir m)
        \<and> fmlookup (h_tree h) (d @ [''ledger.redb'']) = Some (File m1 c) \<and> d @ [''ledger.redb''] |\<in>| h_synced h
        \<and> (\<forall>m c. fmlookup (h_tree h) (d @ [''seed'']) = Some (File m c) \<longrightarrow> c = seed))"

lemma seed_fixed_safely:
  assumes "safely h h'" "seed_fixed dir h seed"
  shows "seed_fixed dir h' seed"
proof -
  obtain d m m1 c where d: "located (h_tree h) dir = Inr d" "fmlookup (h_tree h) d = Some (Dir m)"
    "fmlookup (h_tree h) (d @ [''ledger.redb'']) = Some (File m1 c)" "d @ [''ledger.redb''] |\<in>| h_synced h"
    "\<And>m c. fmlookup (h_tree h) (d @ [''seed'']) = Some (File m c) \<Longrightarrow> c = seed"
    using assms(2) unfolding seed_fixed_def by blast
  have "c' = seed" if "fmlookup (h_tree h') (d @ [''seed'']) = Some (File m' c')" for m' c'
  proof (cases "fmlookup (h_tree h) (d @ [''seed''])")
    case None
    then have "may_add (h_tree h) (d @ [''seed'']) (File m' c')" using assms(1) that by (simp add: safely_def)
    then show ?thesis using d(3) by (auto simp: may_add_def)
  next
    case (Some nd)
    then show ?thesis using that d(5) safely_keeps [OF assms(1) Some] by auto
  qed
  moreover have "d @ [''ledger.redb''] |\<in>| h_synced h'" using assms(1) d(3,4) by (auto simp: safely_def)
  ultimately show ?thesis
    unfolding seed_fixed_def using safely_located [OF assms(1) d(1)] safely_keeps [OF assms(1)] d(2,3) by blast
qed

lemma vanish_lookup:
  "fmlookup (h_tree (vanish lost h)) p = (if p |\<in>| lost \<and> may_vanish h p then None else fmlookup (h_tree h) p)"
  by (simp add: vanish_def)

lemma seed_fixed_vanish:
  assumes "seed_fixed dir h seed"
  shows "seed_fixed dir (vanish lost h) seed"
proof -
  obtain d m m1 c where d: "located (h_tree h) dir = Inr d" "fmlookup (h_tree h) d = Some (Dir m)"
    "fmlookup (h_tree h) (d @ [''ledger.redb'']) = Some (File m1 c)" "d @ [''ledger.redb''] |\<in>| h_synced h"
    "\<And>m c. fmlookup (h_tree h) (d @ [''seed'']) = Some (File m c) \<Longrightarrow> c = seed"
    using assms unfolding seed_fixed_def by blast
  have "located (h_tree (vanish lost h)) dir = Inr d"
    by (rule locate_kept [OF _ d(1)]) (auto simp: shape_kept_def vanish_lookup may_vanish_def)
  moreover have "\<not> may_vanish h d" "\<not> may_vanish h (d @ [''ledger.redb''])" using d(2-4) by (simp_all add: may_vanish_def)
  moreover have "h_synced (vanish lost h) = h_synced h" by (simp add: vanish_def)
  ultimately show ?thesis unfolding seed_fixed_def using d(2-5) by (auto simp: vanish_lookup split: if_splits)
qed

lemma prepare_storage_safely: "prepare_storage env tx dir (h, db) = (r, h', db') \<Longrightarrow> safely h h'"
  by (auto simp: prepare_storage_def split: prod.splits sum.splits dest: prepare_files_safely intro: safely_trans)

lemma prepare_storage_ok:
  assumes "prepare_storage env tx dir (h, db) = (Inr seed, h', db')"
  obtains d m m1 m2 c where "located (h_tree h') dir = Inr d" "fmlookup (h_tree h') d = Some (Dir m)" "private_mode m"
    "fmlookup (h_tree h') (d @ [''seed'']) = Some (File m1 seed)" "private_mode m1" "length seed = 64"
    "fmlookup (h_tree h') (d @ [''ledger.redb'']) = Some (File m2 c)" "private_mode m2" "d @ [''ledger.redb''] |\<in>| h_synced h'"
proof -
  obtain h1 where h1: "prepare_files env dir h = (Inr seed, h1)" "h' = sync_dir dir h1"
    using assms by (auto simp: prepare_storage_def split: prod.splits sum.splits)
  obtain d m m1 m2 c where d: "located (h_tree h1) dir = Inr d" "fmlookup (h_tree h1) d = Some (Dir m)" "private_mode m"
    "fmlookup (h_tree h1) (d @ [''seed'']) = Some (File m1 seed)" "private_mode m1" "length seed = 64"
    "fmlookup (h_tree h1) (d @ [''ledger.redb'']) = Some (File m2 c)" "private_mode m2"
    using prepare_files_ok [OF h1(1)] by blast
  have "resolved (h_tree h1) dir = Inr d" using resolved_plain [OF d(1)] d(2) by simp
  then have h': "h' = h1\<lparr>h_synced := h_synced h1 |\<union>| entries d (h_tree h1)\<rparr>" by (simp add: h1(2) sync_dir_def)
  have "d @ [''ledger.redb''] |\<in>| entries d (h_tree h1)" using d(7) by (simp add: entries_def fmdomI)
  then show thesis using that [of d m m1 m2 c] d by (simp add: h')
qed

lemma prepare_storage_fixes:
  assumes "prepare_storage env tx dir (h, db) = (Inr seed, h', db')"
  shows "seed_fixed dir h' k \<longleftrightarrow> k = seed"
proof -
  obtain d m m1 m2 c where "located (h_tree h') dir = Inr d" "fmlookup (h_tree h') d = Some (Dir m)"
    "fmlookup (h_tree h') (d @ [''seed'']) = Some (File m1 seed)" "fmlookup (h_tree h') (d @ [''ledger.redb'']) = Some (File m2 c)"
    "d @ [''ledger.redb''] |\<in>| h_synced h'"
    by (rule prepare_storage_ok [OF assms]) (rule that)
  then show ?thesis unfolding seed_fixed_def by auto
qed

lemma seed_answered:
  assumes "storage_step h op = (r, h')" "seed_answer dir op r = Some seed"
  obtains env tx db db' where "prepare_storage env tx dir (h, db) = (Inr seed, h', db')"
  using assms by (cases "(dir, op, r)" rule: seed_answer.cases) (auto split: prod.splits if_splits)

lemma seed_fixed_step: "\<lbrakk>storage_step h op = (r, h'); seed_fixed dir h seed\<rbrakk> \<Longrightarrow> seed_fixed dir h' seed"
  by (cases op) (auto split: prod.splits dest: prepare_storage_safely intro: seed_fixed_safely seed_fixed_vanish)

interpretation wallet_seed: write_once storage_step "seed_answer dir" "seed_fixed dir" for dir
proof (unfold_locales, goal_cases)
  case (1 h op r h' seed)
  then show ?case by (metis seed_answered prepare_storage_fixes)
next
  case (2 h op r h' seed)
  then show ?case by (rule seed_fixed_step)
next
  case (3 h op r h' seed other)
  then show ?case by (metis seed_answered prepare_storage_fixes seed_fixed_step)
qed

text \<open>
  C11: A wallet never gets a second seed. Over any sequence of openings of any wallets, with any calls
  failing and any files vanishing in between that were not yet on disk, and even when the seed itself is
  deleted, all openings of a directory that succeed return the same seed; the seed is 64 bytes that are
  the contents of a private file in a private directory, beside a private journal that is on disk.
\<close>

theorem seed_never_replaced:
  assumes "run_ops storage_step h ops = (results, h')"
  shows "(\<exists>seed. \<forall>env tx db seed'. (Open_wallet env tx dir db, Some (Inr seed')) \<in> set (zip ops results) \<longrightarrow> seed' = seed)
    \<and> (\<forall>env tx db seed h1 db1. prepare_storage env tx dir (h', db) = (Inr seed, h1, db1) \<longrightarrow>
         (\<exists>d m m1 m2 c. located (h_tree h1) dir = Inr d \<and> fmlookup (h_tree h1) d = Some (Dir m) \<and> private_mode m
            \<and> fmlookup (h_tree h1) (d @ [''seed'']) = Some (File m1 seed) \<and> private_mode m1 \<and> length seed = 64
            \<and> fmlookup (h_tree h1) (d @ [''ledger.redb'']) = Some (File m2 c) \<and> private_mode m2
            \<and> d @ [''ledger.redb''] |\<in>| h_synced h1))"
proof (intro conjI allI impI)
  show "\<exists>seed. \<forall>env tx db seed'. (Open_wallet env tx dir db, Some (Inr seed')) \<in> set (zip ops results) \<longrightarrow> seed' = seed"
    using wallet_seed.run_same [OF assms, of dir] by (metis seed_answer.simps(1))
next
  fix env tx db seed h1 db1
  assume "prepare_storage env tx dir (h', db) = (Inr seed, h1, db1)"
  then show "\<exists>d m m1 m2 c. located (h_tree h1) dir = Inr d \<and> fmlookup (h_tree h1) d = Some (Dir m) \<and> private_mode m
      \<and> fmlookup (h_tree h1) (d @ [''seed'']) = Some (File m1 seed) \<and> private_mode m1 \<and> length seed = 64
      \<and> fmlookup (h_tree h1) (d @ [''ledger.redb'']) = Some (File m2 c) \<and> private_mode m2 \<and> d @ [''ledger.redb''] |\<in>| h_synced h1"
    by (rule prepare_storage_ok) blast
qed

section \<open>The data directory\<close>

text \<open>\<^verbatim>\<open>DirBuilder::create\<close> with \<^verbatim>\<open>recursive\<close>, as the standard library has it: a missing parent is created first,
  and what is a directory already is fine.\<close>

definition is_dir :: "host \<Rightarrow> path \<Rightarrow> bool" where
  "is_dir h p \<longleftrightarrow> (case stat h p of Inr (_, Dir _) \<Rightarrow> True | _ \<Rightarrow> False)"

definition mkdir_or_dir :: "io_env \<Rightarrow> path \<Rightarrow> host \<Rightarrow> (io_error + unit) \<times> host" where
  "mkdir_or_dir env p h =
     (case mkdir env p h of (Inr _, h1) \<Rightarrow> (Inr (), h1) | (Inl e, h1) \<Rightarrow> (if is_dir h1 p then Inr () else Inl e, h1))"

fun create_dir_all :: "io_env \<Rightarrow> path \<Rightarrow> host \<Rightarrow> (io_error + unit) \<times> host" where
  "create_dir_all env p h =
     (case mkdir env p h of
        (Inr _, h1) \<Rightarrow> (Inr (), h1)
      | (Inl e, h1) \<Rightarrow>
          if e \<noteq> Not_found then (if is_dir h1 p then Inr () else Inl e, h1)
          else if p = [] then (Inl Other_io, h1)
          else (case create_dir_all env (butlast p) h1 of
                  (Inl e, h2) \<Rightarrow> (Inl e, h2)
                | (Inr _, h2) \<Rightarrow> mkdir_or_dir env p h2))"

declare create_dir_all.simps [simp del]

text \<open>The lock file is opened through links and created where it is missing; its lock is refused while held.\<close>

definition open_lock :: "io_env \<Rightarrow> path \<Rightarrow> host \<Rightarrow> (file_error + path) \<times> host" where
  "open_lock env p h =
     (if io_fails env (Io_open p) then (Inl (Fs Other_io), h)
      else (case resolved (h_tree h) p of
              Inl e \<Rightarrow> (Inl (Fs e), h)
            | Inr l \<Rightarrow>
                (case fmlookup (h_tree h) l of
                   None \<Rightarrow> (Inr l, add_node l (File (0x180 AND NOT (io_umask env)) []) h)
                 | Some (File _ _) \<Rightarrow> (Inr l, h)
                 | Some _ \<Rightarrow> (Inl (Fs Other_io), h))))"

definition try_lock :: "io_env \<Rightarrow> path \<Rightarrow> host \<Rightarrow> (file_error + unit) \<times> host" where
  "try_lock env l h =
     (if io_fails env (Io_lock l) \<or> l |\<in>| h_locks h then (Inl In_use, h) else (Inr (), h\<lparr>h_locks := finsert l (h_locks h)\<rparr>))"

definition unlock :: "path \<Rightarrow> host \<Rightarrow> host" where
  "unlock l h = h\<lparr>h_locks := h_locks h |-| {|l|}\<rparr>"

record storage =
  st_directory :: path
  st_lock :: path

text \<open>Account and certificates of a CA have a directory of their own, named by the hash of its URL.\<close>

definition ca_directory :: "(string \<Rightarrow> string) \<Rightarrow> io_env \<Rightarrow> path \<Rightarrow> string \<Rightarrow> host \<Rightarrow> (file_error + path) \<times> host" where
  "ca_directory sha256 env root url h =
     (let dir = root @ [hex (sha256 url)]
      in case make_private env dir h of (Inl e, h1) \<Rightarrow> (Inl e, h1) | (Inr _, h1) \<Rightarrow> (Inr dir, h1))"

definition storage_open :: "(string \<Rightarrow> string) \<Rightarrow> io_env \<Rightarrow> path \<Rightarrow> string \<Rightarrow> host \<Rightarrow> (file_error + storage) \<times> host" where
  "storage_open sha256 env root url =
     and_then (\<lambda>h. case create_dir_all env root h of (Inl e, h1) \<Rightarrow> (Inl (Fs e), h1) | (Inr _, h1) \<Rightarrow> (Inr (), h1)) (\<lambda>_.
     and_then (\<lambda>h. (check_directory env root h, h)) (\<lambda>_.
     and_then (open_lock env (root @ [''proxy.lock''])) (\<lambda>l.
     and_then (try_lock env l) (\<lambda>_ h.
       case ca_directory sha256 env root url h of
         (Inl e, h1) \<Rightarrow> (Inl e, unlock l h1)
       | (Inr dir, h1) \<Rightarrow> (Inr \<lparr>st_directory = dir, st_lock = l\<rparr>, h1)))))"

text \<open>Processes on a machine: they open data directories and wallets, and exit.\<close>

record machine =
  m_host :: host
  m_live :: "(path \<times> storage) list"

inductive machine_step :: "(string \<Rightarrow> string) \<Rightarrow> machine \<Rightarrow> machine \<Rightarrow> bool" for sha256 where
  opened: "storage_open sha256 env root url (m_host s) = (Inr st, h') \<Longrightarrow>
    machine_step sha256 s \<lparr>m_host = h', m_live = (root, st) # m_live s\<rparr>"
| refused: "storage_open sha256 env root url (m_host s) = (Inl e, h') \<Longrightarrow> machine_step sha256 s (s\<lparr>m_host := h'\<rparr>)"
| wallet: "prepare_storage env tx dir (m_host s, db) = (r, h', db') \<Longrightarrow> machine_step sha256 s (s\<lparr>m_host := h'\<rparr>)"
| exited: "(root, st) \<in> set (m_live s) \<Longrightarrow>
    machine_step sha256 s \<lparr>m_host = unlock (st_lock st) (m_host s), m_live = remove1 (root, st) (m_live s)\<rparr>"

definition grows :: "host \<Rightarrow> host \<Rightarrow> bool" where
  "grows h h' \<longleftrightarrow> (\<forall>p nd. fmlookup (h_tree h) p = Some nd \<longrightarrow> fmlookup (h_tree h') p = Some nd)"

text \<open>A live storage holds the lock of its directory.\<close>

definition owns :: "host \<Rightarrow> path \<times> storage \<Rightarrow> bool" where
  "owns h \<equiv> \<lambda>(root, st). \<exists>d m. located (h_tree h) root = Inr d \<and> fmlookup (h_tree h) d = Some (Dir m)
     \<and> resolved (h_tree h) (root @ [''proxy.lock'']) = Inr (st_lock st) \<and> (\<exists>m c. fmlookup (h_tree h) (st_lock st) = Some (File m c))"

definition machine_ok :: "machine \<Rightarrow> bool" where
  "machine_ok s \<longleftrightarrow> distinct (map (st_lock \<circ> snd) (m_live s)) \<and> fset (h_locks (m_host s)) = set (map (st_lock \<circ> snd) (m_live s))
     \<and> (\<forall>live\<in>set (m_live s). owns (m_host s) live)"

lemma resolve_kept:
  "\<lbrakk>shape_kept t t'; resolve n t p = Inr l; \<And>q. fmlookup t' l \<noteq> Some (Link q)\<rbrakk> \<Longrightarrow> resolve n t' p = Inr l"
proof (induction n t p rule: resolve.induct)
  case (1 n t p)
  obtain k where k: "located t p = Inr k" using 1(3) by (subst (asm) resolve.simps) (auto split: sum.splits)
  have k': "located t' p = Inr k" using locate_kept [OF "1.prems"(1) k] .
  show ?case
  proof (cases "\<exists>q. fmlookup t k = Some (Link q)")
    case True
    then obtain q where q: "fmlookup t k = Some (Link q)" by blast
    then have "n \<noteq> 0" "resolve (n - 1) t q = Inr l" using 1(3) k by (subst (asm) resolve.simps; auto split: if_splits)+
    then have "resolve (n - 1) t' q = Inr l" using "1.IH" [OF k q] "1.prems" by blast
    moreover have "fmlookup t' k = Some (Link q)" using q "1.prems"(1) by (simp add: shape_kept_def)
    ultimately show ?thesis using k' \<open>n \<noteq> 0\<close> by (subst resolve.simps) simp
  next
    case False
    then have "k = l" using 1(3) k by (subst (asm) resolve.simps) (auto split: option.splits node.splits)
    then show ?thesis using k' "1.prems"(3) by (subst resolve.simps) (simp split: option.split node.split)
  qed
qed

lemma grows_shape: "grows h h' \<Longrightarrow> shape_kept (h_tree h) (h_tree h')"
  by (simp add: grows_def shape_kept_def)

lemma owns_grows:
  assumes "grows h h'" "owns h live"
  shows "owns h' live"
proof -
  obtain root st where [simp]: "live = (root, st)" by (cases live)
  from assms(2) show ?thesis
    unfolding owns_def using locate_kept [OF grows_shape [OF assms(1)]] resolve_kept [OF grows_shape [OF assms(1)]] assms(1)
    by (auto simp: grows_def)
qed

lemma safely_grows: "safely h h' \<Longrightarrow> grows h h'"
  by (simp add: safely_def grows_def)

lemma safely_locks: "safely h h' \<Longrightarrow> h_locks h' = h_locks h"
  by (simp add: safely_def)

lemma create_dir_all_safely: "create_dir_all env p h = (r, h') \<Longrightarrow> safely h h'"
proof (induction env p h arbitrary: r h' rule: create_dir_all.induct)
  case (1 env p h)
  obtain q h1 where q: "mkdir env p h = (q, h1)" by force
  then have s: "safely h h1" by (rule mkdir_safely)
  show ?case
  proof (cases "q = Inl Not_found \<and> p \<noteq> []")
    case True
    obtain q2 h2 where q2: "create_dir_all env (butlast p) h1 = (q2, h2)" by force
    then have "safely h1 h2" using "1.IH" [OF q [symmetric]] True by auto
    moreover have "safely h2 h'"
      using "1.prems" True q q2 by (subst (asm) create_dir_all.simps)
        (auto simp: mkdir_or_dir_def split: sum.splits prod.splits dest: mkdir_safely)
    ultimately show ?thesis using s safely_trans by blast
  next
    case False
    then show ?thesis using "1.prems" q s by (subst (asm) create_dir_all.simps) (auto split: sum.splits if_splits)
  qed
qed

lemma grows_trans: "\<lbrakk>grows h h1; grows h1 h2\<rbrakk> \<Longrightarrow> grows h h2"
  by (simp add: grows_def)

lemma open_lock_effect:
  assumes "open_lock env p h = (r, h')"
  shows "grows h h' \<and> h_locks h' = h_locks h
    \<and> (\<forall>l. r = Inr l \<longrightarrow> resolved (h_tree h') p = Inr l \<and> (\<exists>m c. fmlookup (h_tree h') l = Some (File m c)))"
proof (cases "\<exists>l. r = Inr l \<and> fmlookup (h_tree h) l = None")
  case True
  then obtain l where l: "r = Inr l" "fmlookup (h_tree h) l = None" "resolved (h_tree h) p = Inr l"
      "h' = add_node l (File (0x180 AND NOT (io_umask env)) []) h"
    using assms by (auto simp: open_lock_def split: if_splits sum.splits option.splits node.splits)
  have "shape_kept (h_tree h) (h_tree h')" using l(2) by (auto simp: l(4) shape_kept_def add_node_def)
  then have "resolved (h_tree h') p = Inr l" by (rule resolve_kept [OF _ l(3)]) (simp add: l(4) add_node_def)
  then show ?thesis using l by (auto simp: grows_def add_node_def)
next
  case False
  then show ?thesis
    using assms by (auto simp: open_lock_def grows_def split: if_splits sum.splits option.splits node.splits)
qed

lemma check_directory_ok:
  assumes "check_directory env p h = Inr u"
  obtains d m where "located (h_tree h) p = Inr d" "fmlookup (h_tree h) d = Some (Dir m)" "private_mode m"
  using assms by (auto simp: check_directory_def lstat_def bind_result_def ok_or_def ensure_def split: sum.splits if_splits option.splits node.splits)

definition private_dir :: "host \<Rightarrow> path \<Rightarrow> bool" where
  "private_dir h p \<longleftrightarrow> (\<exists>d m. located (h_tree h) p = Inr d \<and> fmlookup (h_tree h) d = Some (Dir m) \<and> private_mode m)"

lemma private_dir_grows: "\<lbrakk>grows h h'; private_dir h p\<rbrakk> \<Longrightarrow> private_dir h' p"
  unfolding private_dir_def using locate_kept [OF grows_shape] by (metis grows_def)

lemma ca_directory_ok:
  assumes "ca_directory sha256 env root url h = (Inr dir, h')"
  shows "dir = root @ [hex (sha256 url)] \<and> private_dir h' dir"
  using assms
  by (auto simp: ca_directory_def Let_def private_dir_def split: prod.splits sum.splits elim!: make_private_ok)

lemma storage_open_effect:
  assumes "storage_open sha256 env root url h = (r, h')"
  shows "grows h h' \<and> (case r of
      Inl _ \<Rightarrow> h_locks h' = h_locks h
    | Inr st \<Rightarrow> st_lock st |\<notin>| h_locks h \<and> h_locks h' = finsert (st_lock st) (h_locks h) \<and> owns h' (root, st)
        \<and> st_directory st = root @ [hex (sha256 url)] \<and> private_dir h' root \<and> private_dir h' (st_directory st))"
proof -
  obtain q h1 where q: "create_dir_all env root h = (q, h1)" by force
  have s1: "safely h h1" using create_dir_all_safely [OF q] .
  obtain q2 h2 where q2: "open_lock env (root @ [''proxy.lock'']) h1 = (q2, h2)" by force
  have l2: "grows h1 h2" "h_locks h2 = h_locks h1" using open_lock_effect [OF q2] by simp_all
  have g2: "grows h h2" "h_locks h2 = h_locks h" using grows_trans [OF safely_grows [OF s1]] safely_locks [OF s1] l2 by simp_all
  consider (early) e where "r = Inl e" "h' = h1" | (unlocked) e where "r = Inl e" "h' = h2"
    | (locked) l h3 q4 h4 where "q2 = Inr l" "check_directory env root h1 = Inr ()" "try_lock env l h2 = (Inr (), h3)"
        "ca_directory sha256 env root url h3 = (q4, h4)"
        "(r, h') = (case q4 of Inl e \<Rightarrow> (Inl e, unlock l h4) | Inr dir \<Rightarrow> (Inr \<lparr>st_directory = dir, st_lock = l\<rparr>, h4))"
    using assms q q2
    by (cases "ca_directory sha256 env root url (h2\<lparr>h_locks := finsert (projr q2) (h_locks h2)\<rparr>)")
      (auto simp: storage_open_def and_then_def try_lock_def split: sum.splits prod.splits if_splits)
  then show ?thesis
  proof cases
    case early
    then show ?thesis using s1 safely_grows safely_locks by auto
  next
    case unlocked
    then show ?thesis using g2 by simp
  next
    case (locked l h3 q4 h4)
    then have l: "l |\<notin>| h_locks h" "h3 = h2\<lparr>h_locks := finsert l (h_locks h2)\<rparr>"
      using g2(2) by (auto simp: try_lock_def split: if_splits)
    have s4: "safely h3 h4"
      using locked(4) by (auto simp: ca_directory_def Let_def split: sum.splits prod.splits dest: make_private_safely)
    have "grows h2 h3" by (simp add: l(2) grows_def)
    then have g24: "grows h2 h4" using grows_trans safely_grows [OF s4] by blast
    have g4: "grows h h4" "h_locks h4 = finsert l (h_locks h)"
      using grows_trans [OF g2(1) g24] safely_locks [OF s4] l(2) g2(2) by simp_all
    have "private_dir h1 root" using check_directory_ok [OF locked(2)] by (metis private_dir_def)
    then have root: "private_dir h2 root" "private_dir h4 root"
      using private_dir_grows [OF l2(1)] private_dir_grows [OF g24] by blast+
    then have "owns h2 (root, \<lparr>st_directory = dir, st_lock = l\<rparr>)" for dir
      using open_lock_effect [OF q2] locked(1) by (auto simp: owns_def private_dir_def)
    then have "owns h4 (root, \<lparr>st_directory = dir, st_lock = l\<rparr>)" for dir
      using owns_grows [OF g24] by blast
    moreover have "dir = root @ [hex (sha256 url)] \<and> private_dir h4 dir" if "q4 = Inr dir" for dir
      using ca_directory_ok locked(4) that by blast
    ultimately show ?thesis using locked(5) l(1) g4 root(2) by (cases q4) (auto simp: unlock_def grows_def)
  qed
qed

lemma machine_step_ok: "\<lbrakk>machine_step sha256 s s'; machine_ok s\<rbrakk> \<Longrightarrow> machine_ok s'"
proof (induction rule: machine_step.induct)
  case (opened env root url s st h')
  then show ?case using storage_open_effect [OF opened(1)] by (auto simp: machine_ok_def intro: owns_grows)
next
  case (refused env root url s e h')
  then show ?case using storage_open_effect [OF refused(1)] by (auto simp: machine_ok_def intro: owns_grows)
next
  case (wallet env tx dir s db r h' db')
  then show ?case
    using prepare_storage_safely [OF wallet(1)] safely_locks by (auto simp: machine_ok_def intro: owns_grows safely_grows)
next
  case (exited root st s)
  then obtain ys zs where "m_live s = ys @ (root, st) # zs" "(root, st) \<notin> set ys" by (meson split_list_first)
  then have live: "remove1 (root, st) (m_live s) = ys @ zs" "map (st_lock \<circ> snd) (m_live s) = map (st_lock \<circ> snd) ys @ st_lock st # map (st_lock \<circ> snd) zs"
      "set (ys @ zs) \<subseteq> set (m_live s)"
    by (auto simp: remove1_append)
  have "owns (unlock (st_lock st) h) live = owns h live" for h live by (simp add: owns_def unlock_def)
  moreover have "fset (h_locks (unlock (st_lock st) (m_host s))) = fset (h_locks (m_host s)) - {st_lock st}" by (simp add: unlock_def)
  ultimately show ?case
    using exited(2) live(3) unfolding machine_ok_def machine.simps live(1,2) by auto
qed

interpretation machine_run: step_invariant "machine_step sha256" machine_ok for sha256
  by unfold_locales (rule machine_step_ok)

lemma owns_same:
  assumes "owns h (root, st)" "owns h (root', st')" "located (h_tree h) root = located (h_tree h) root'"
  shows "st_lock st = st_lock st'"
proof -
  obtain d m where "located (h_tree h) root = Inr d" "fmlookup (h_tree h) d = Some (Dir m)"
    using assms(1) by (auto simp: owns_def)
  then have "located (h_tree h) (root @ [''proxy.lock'']) = located (h_tree h) (root' @ [''proxy.lock''])"
    using locate_below assms(3) by simp
  then have "resolved (h_tree h) (root @ [''proxy.lock'']) = resolved (h_tree h) (root' @ [''proxy.lock''])"
    by (subst (1 2) resolve.simps) simp
  then show ?thesis using assms(1,2) by (auto simp: owns_def)
qed

lemma machine_ok_distinct:
  assumes "machine_ok s"
  shows "distinct (map (\<lambda>(root, st). located (h_tree (m_host s)) root) (m_live s))"
proof -
  have ok: "inj_on (st_lock \<circ> snd) (set (m_live s))" "distinct (m_live s)" "\<forall>live\<in>set (m_live s). owns (m_host s) live"
    using assms by (auto simp: machine_ok_def distinct_map)
  have "inj_on (\<lambda>(root, st). located (h_tree (m_host s)) root) (set (m_live s))"
  proof (rule inj_onI)
    fix a b assume ab: "a \<in> set (m_live s)" "b \<in> set (m_live s)"
      and "(case a of (root, st) \<Rightarrow> located (h_tree (m_host s)) root) = (case b of (root, st) \<Rightarrow> located (h_tree (m_host s)) root)"
    then have "(st_lock \<circ> snd) a = (st_lock \<circ> snd) b"
      using owns_same [of "m_host s" "fst a" "snd a" "fst b" "snd b"] ok(3) by (simp split: prod.splits)
    then show "a = b" by (rule inj_onD [OF ok(1) _ ab])
  qed
  then show ?thesis using ok(2) by (simp add: distinct_map)
qed

text \<open>
  C12: One process to a data directory. Whatever processes open data directories and wallets and exit, under
  whatever names and links, with any calls failing, no two live ones have the same directory; a process that
  gets one has a real private directory, no live one has it, and the files of its CA are in a private
  directory that is named by the hash of the URL.
\<close>

theorem data_directory_exclusive:
  assumes "(machine_step sha256)\<^sup>*\<^sup>* s0 s" "m_live s0 = []" "h_locks (m_host s0) = {||}"
  shows "distinct (map (\<lambda>(root, st). located (h_tree (m_host s)) root) (m_live s))
    \<and> (\<forall>env root url st h'. storage_open sha256 env root url (m_host s) = (Inr st, h') \<longrightarrow>
         located (h_tree h') root \<notin> (\<lambda>(root, st). located (h_tree h') root) ` set (m_live s)
       \<and> st_directory st = root @ [hex (sha256 url)] \<and> private_dir h' root \<and> private_dir h' (st_directory st))"
proof (intro conjI allI impI)
  have "machine_ok s0" using assms(2,3) by (simp add: machine_ok_def)
  then have ok: "machine_ok s" using machine_run.reach_inv [OF assms(1)] by blast
  then show "distinct (map (\<lambda>(root, st). located (h_tree (m_host s)) root) (m_live s))" by (rule machine_ok_distinct)
  fix env root url st h'
  assume "storage_open sha256 env root url (m_host s) = (Inr st, h')"
  note eff = storage_open_effect [OF this] and ok' = machine_step_ok [OF machine_step.opened [OF this] ok]
  show "located (h_tree h') root \<notin> (\<lambda>(root, st). located (h_tree h') root) ` set (m_live s)"
    using machine_ok_distinct [OF ok'] by simp
  show "st_directory st = root @ [hex (sha256 url)]" "private_dir h' root" "private_dir h' (st_directory st)" using eff by auto
qed

section \<open>Witnesses\<close>

definition demo_io :: io_env where
  "demo_io = \<lparr>io_fails = (\<lambda>_. False), io_umask = 0x12, io_random = Some (replicate 64 CHR ''s'')\<rparr>"

definition demo_host :: host where
  "demo_host = \<lparr>h_tree = fmupd [] (Dir 0x1ED) fmempty, h_synced = {||}, h_locks = {||}\<rparr>"

lemma demo_storage_open:
  "fst (storage_open (\<lambda>u. u) demo_io [''d''] ''u'' demo_host) = Inr \<lparr>st_directory = [''d'', hex ''u''], st_lock = [''d'', ''proxy.lock'']\<rparr>"
  by (simp add: storage_open_def and_then_def create_dir_all.simps mkdir_def new_node_def demo_io_def demo_host_def add_node_def
      check_directory_def lstat_def ok_or_def open_lock_def resolve.simps try_lock_def ca_directory_def make_private_def ensure_def Let_def
      private_mode_def hex_def)

theorem data_directory_exclusive_witness:
  "private_dir (snd (storage_open (\<lambda>u. u) demo_io [''d''] ''u'' demo_host)) [''d'']"
proof -
  let ?s = "\<lparr>m_host = demo_host, m_live = []\<rparr>"
  obtain h' where h': "storage_open (\<lambda>u. u) demo_io [''d''] ''u'' demo_host
      = (Inr \<lparr>st_directory = [''d'', hex ''u''], st_lock = [''d'', ''proxy.lock'']\<rparr>, h')"
    using demo_storage_open by (metis prod.collapse)
  have "(machine_step (\<lambda>u. u))\<^sup>*\<^sup>* ?s ?s" by simp
  from data_directory_exclusive [OF this] h' show ?thesis by (simp add: demo_host_def)
qed

definition demo_wallet_host :: host where
  "demo_wallet_host = demo_host\<lparr>h_tree := fmupd [''d''] (Dir 0x1C0) (h_tree demo_host)\<rparr>"

definition demo_openings :: "storage_op list" where
  "demo_openings =
     [Open_wallet demo_io tx_ok [''d'', ''w''] \<lparr>ledger_version = None, payments_v1 = fmempty, payout_v1 = None\<rparr>,
      Vanish {|[''d'', ''w'', ''wallet.sqlite'']|},
      Open_wallet (demo_io\<lparr>io_random := Some (replicate 64 CHR ''t'')\<rparr>) tx_ok [''d'', ''w'']
        \<lparr>ledger_version = Some 1, payments_v1 = fmempty, payout_v1 = None\<rparr>]"

lemmas prepare_eval = prepare_storage_def prepare_files_def and_then_def private_directory.simps try_exists_def stat_def resolve.simps
  make_private_def mkdir_def new_node_def add_node_def check_directory_def lstat_def ok_or_def ensure_def private_mode_def
  seed_file_def wallet_files_def exists_at_def query_def new_seed_def persist_noclobber_def sync_at_def sync_dir_def
  private_file_def create_new_def read_seed_def Let_def ledger_open_def write_tx_def ledger_open_body_def tx_ok_def

lemma demo_openings_run:
  "\<exists>seed h'. run_ops storage_step demo_wallet_host demo_openings = ([Some (Inr (replicate 64 CHR ''s'')), None, Some (Inr seed)], h')"
  by (simp add: demo_openings_def demo_io_def demo_wallet_host_def demo_host_def prepare_eval vanish_def may_vanish_def)

text \<open>The entry of a new wallet directory itself is not synced: only what is in it is. A power loss that takes
  directories too could take the wallet with its seed, which is why they stay in \<open>vanish\<close>.\<close>

lemma wallet_directory_unsynced:
  "\<exists>h db. prepare_storage demo_io tx_ok [''d'', ''w''] (demo_wallet_host, \<lparr>ledger_version = None, payments_v1 = fmempty, payout_v1 = None\<rparr>)
     = (Inr (replicate 64 CHR ''s''), h, db) \<and> [''d'', ''w''] |\<notin>| h_synced h"
  by (simp add: demo_io_def demo_wallet_host_def demo_host_def prepare_eval entries_def)

theorem seed_never_replaced_witness:
  "\<exists>h'. run_ops storage_step demo_wallet_host demo_openings
     = ([Some (Inr (replicate 64 CHR ''s'')), None, Some (Inr (replicate 64 CHR ''s''))], h')"
proof -
  obtain seed h' where r: "run_ops storage_step demo_wallet_host demo_openings
      = ([Some (Inr (replicate 64 CHR ''s'')), None, Some (Inr seed)], h')"
    using demo_openings_run by blast
  have z: "set (zip demo_openings [Some (Inr (replicate 64 CHR ''s'')), None, Some (Inr seed)])
      = {(demo_openings ! 0, Some (Inr (replicate 64 CHR ''s''))), (demo_openings ! 1, None), (demo_openings ! 2, Some (Inr seed))}"
    by (simp add: demo_openings_def)
  have p: "\<exists>env tx db. demo_openings ! 0 = Open_wallet env tx [''d'', ''w''] db" "\<exists>env tx db. demo_openings ! 2 = Open_wallet env tx [''d'', ''w''] db"
    by (simp_all add: demo_openings_def)
  have "seed = replicate 64 CHR ''s''"
    using conjunct1 [OF seed_never_replaced [OF r, of "[''d'', ''w'']"]] p unfolding z by (metis insertCI)
  then show ?thesis using r by blast
qed

end
