(* ===== verification/Certificates.thy ===== *)
theory Certificates
  imports Rust_Text
begin

text \<open>
  Certificates and the CA cooldown: \<^verbatim>\<open>certificates.rs\<close>, \<^verbatim>\<open>acme_http.rs\<close> and the reading and writing of
  \<^verbatim>\<open>storage.rs\<close>, all under \<^verbatim>\<open>src/crates/geata/src\<close>. X.509 and PEM decoding (OpenSSL), HTTP dates
  and JSON are parameters; a directory of stored values is a finite map from file names to
  contents, and what the file system does to a call is a parameter too. The write is also modelled call by
  call, on a disk with unsynced contents and names that a power loss may take.
\<close>

section \<open>Certificates\<close>

record pem =
  pem_chain :: string
  pem_private_key :: string

text \<open>What OpenSSL answers: the decoded chain and key, whether a key pair matches, the DNS names
  of the leaf, and its validity as days and seconds since the epoch.\<close>

record ('x, 'k) x509_ops =
  stack_from_pem :: "string \<Rightarrow> 'x list option"
  private_key_from_pem :: "string \<Rightarrow> 'k option"
  public_eq :: "'x \<Rightarrow> 'k \<Rightarrow> bool option"
  subject_alt_names :: "'x \<Rightarrow> string option list option"
  diff_not_before :: "'x \<Rightarrow> (int \<times> int) option"
  diff_not_after :: "'x \<Rightarrow> (int \<times> int) option"

record ('x, 'k) certificate =
  cert_chain :: "'x list"
  cert_key :: 'k
  not_before :: int
  not_after :: int

datatype cert_error = Openssl_error | Empty_chain | Key_mismatch | Wrong_domain | Bad_validity

definition timestamp :: "(int \<times> int) option \<Rightarrow> cert_error + int" where
  "timestamp delta =
     bind_result (ok_or Openssl_error delta) (\<lambda>(days, secs). Inr (i64_wrap (days * 86400 + secs)))"

definition covers_domain :: "('x, 'k) x509_ops \<Rightarrow> 'x \<Rightarrow> string \<Rightarrow> bool" where
  "covers_domain ops leaf domain =
     (case subject_alt_names ops leaf of
        None \<Rightarrow> False
      | Some names \<Rightarrow> list_ex (\<lambda>name. case name of
            None \<Rightarrow> False | Some n \<Rightarrow> eq_ignore_ascii_case n domain) names)"

definition certificate_parse ::
    "('x, 'k) x509_ops \<Rightarrow> string \<Rightarrow> pem \<Rightarrow> cert_error + ('x, 'k) certificate" where
  "certificate_parse ops domain pem =
     bind_result (ok_or Openssl_error (stack_from_pem ops (pem_chain pem))) (\<lambda>chain.
     bind_result (case chain of [] \<Rightarrow> Inl Empty_chain | x # _ \<Rightarrow> Inr x) (\<lambda>leaf.
     bind_result (ok_or Openssl_error (private_key_from_pem ops (pem_private_key pem))) (\<lambda>key.
     bind_result (ok_or Openssl_error (public_eq ops leaf key)) (\<lambda>eq.
     bind_result (ensure eq Key_mismatch) (\<lambda>_.
     bind_result (ensure (covers_domain ops leaf domain) Wrong_domain) (\<lambda>_.
     bind_result (timestamp (diff_not_before ops leaf)) (\<lambda>nb.
     bind_result (timestamp (diff_not_after ops leaf)) (\<lambda>na.
     bind_result (ensure (nb < na) Bad_validity) (\<lambda>_.
       Inr \<lparr>cert_chain = chain, cert_key = key, not_before = nb, not_after = na\<rparr>)))))))))"

definition valid_at :: "('x, 'k) certificate \<Rightarrow> int \<Rightarrow> bool" where
  "valid_at c now \<longleftrightarrow> not_before c \<le> now \<and> now < not_after c"

definition needs_renewal :: "('x, 'k) certificate \<Rightarrow> int \<Rightarrow> bool" where
  "needs_renewal c now \<longleftrightarrow> \<not> valid_at c now \<or>
     i64_wrap (not_before c + (i64_wrap (i64_wrap (not_after c - not_before c) * 2)) sdiv 3) \<le> now"

text \<open>Which certificate a TLS handshake gets: \<open>site_https\<close> answers whether the name is a site and
  whether that site serves HTTPS.\<close>

definition certificate_callback ::
    "(string \<Rightarrow> bool option) \<Rightarrow> (string, ('x, 'k) certificate) fmap \<Rightarrow> int \<Rightarrow> string option \<Rightarrow>
      ('x, 'k) certificate option" where
  "certificate_callback site_https certs now servername =
     (case servername of
        None \<Rightarrow> None
      | Some name \<Rightarrow>
          (let domain = to_ascii_lowercase name
           in if site_https domain \<noteq> Some True then None
              else (case fmlookup certs domain of
                      None \<Rightarrow> None
                    | Some cert \<Rightarrow> if valid_at cert now then Some cert else None)))"

section \<open>Stored values\<close>

datatype fs_call = Temp_create | Set_permissions | Write_contents | Sync_file | Rename | Sync_dir | Remove_temp | Read_file

datatype storage_error = Io_error | Invalid_json

text \<open>A read fails for any reason but a missing file; then there is no value.\<close>

definition storage_read ::
    "(fs_call \<Rightarrow> bool) \<Rightarrow> (string \<Rightarrow> 'a option) \<Rightarrow> (string, string) fmap \<Rightarrow> string \<Rightarrow> storage_error + 'a option" where
  "storage_read fails from_json dir name =
     (if fails Read_file then Inl Io_error
      else case fmlookup dir name of
        None \<Rightarrow> Inr None
      | Some bytes \<Rightarrow> bind_result (ok_or Invalid_json (from_json bytes)) (\<lambda>v. Inr (Some v)))"

text \<open>What a write leaves in the directory, as its callers see it; the calls it consists of, and what the
  directory looks like between them and after a power loss, follow below.\<close>

definition storage_write ::
    "(fs_call \<Rightarrow> bool) \<Rightarrow> ('a \<Rightarrow> string option) \<Rightarrow> (string, string) fmap \<Rightarrow> string \<Rightarrow> 'a \<Rightarrow>
      (storage_error + unit) \<times> (string, string) fmap" where
  "storage_write fails to_json dir name v =
     (if fails Temp_create \<or> fails Set_permissions then (Inl Io_error, dir)
      else (case to_json v of
              None \<Rightarrow> (Inl Invalid_json, dir)
            | Some bytes \<Rightarrow>
                if fails Write_contents \<or> fails Sync_file \<or> fails Rename then (Inl Io_error, dir)
                else if fails Sync_dir then (Inl Io_error, fmupd name bytes dir)
                else (Inr (), fmupd name bytes dir)))"

definition storage_certificate ::
    "('x, 'k) x509_ops \<Rightarrow> (fs_call \<Rightarrow> bool) \<Rightarrow> (string \<Rightarrow> pem option) \<Rightarrow> (string, string) fmap \<Rightarrow> string \<Rightarrow>
      ('x, 'k) certificate option" where
  "storage_certificate ops fails from_json dir domain =
     (case storage_read fails from_json dir (domain @ ''.json'') of
        Inl _ \<Rightarrow> None
      | Inr None \<Rightarrow> None
      | Inr (Some pem) \<Rightarrow>
          (case certificate_parse ops domain pem of Inl _ \<Rightarrow> None | Inr cert \<Rightarrow> Some cert))"

section \<open>A write, call by call\<close>

text \<open>
  A directory on a disk: the contents of the inodes and which of them have reached the disk, the names in the
  directory, and the names as they were last synced. Only the process that holds the lock of the data
  directory writes here.
\<close>

record disk =
  dk_inodes :: "(nat, string) fmap"
  dk_flushed :: "nat fset"
  dk_names :: "(string, nat) fmap"
  dk_saved :: "(string, nat) fmap"

definition file_content :: "disk \<Rightarrow> string \<Rightarrow> string option" where
  "file_content d name = Option.bind (fmlookup (dk_names d) name) (fmlookup (dk_inodes d))"

definition free_inode :: "disk \<Rightarrow> nat" where
  "free_inode d = Suc (Max (insert 0 (fset (fmdom (dk_inodes d)))))"

definition put_contents :: "nat \<Rightarrow> string \<Rightarrow> disk \<Rightarrow> disk" where
  "put_contents n bytes d = d\<lparr>dk_inodes := fmupd n bytes (dk_inodes d), dk_flushed := dk_flushed d |-| {|n|}\<rparr>"

definition create_file :: "nat \<Rightarrow> string \<Rightarrow> disk \<Rightarrow> disk" where
  "create_file n name d = put_contents n [] (d\<lparr>dk_names := fmupd name n (dk_names d)\<rparr>)"

definition sync_file :: "nat \<Rightarrow> disk \<Rightarrow> disk" where
  "sync_file n d = d\<lparr>dk_flushed := finsert n (dk_flushed d)\<rparr>"

definition rename_file :: "string \<Rightarrow> nat \<Rightarrow> string \<Rightarrow> disk \<Rightarrow> disk" where
  "rename_file old n new d = d\<lparr>dk_names := fmupd new n (fmdrop old (dk_names d))\<rparr>"

definition unlink_file :: "string \<Rightarrow> disk \<Rightarrow> disk" where
  "unlink_file name d = d\<lparr>dk_names := fmdrop name (dk_names d)\<rparr>"

definition sync_names :: "disk \<Rightarrow> disk" where
  "sync_names d = d\<lparr>dk_saved := dk_names d\<rparr>"

text \<open>What is outside the program: the calls that fail, the random part of the temporary name, how many bytes a
  failing write has written, and what a failing serialisation has.\<close>

record write_env =
  we_fails :: "fs_call \<Rightarrow> bool"
  we_temp :: string
  we_cut :: nat
  we_junk :: string

text \<open>\<^verbatim>\<open>NamedTempFile\<close> picks names that start with \<^verbatim>\<open>.tmp\<close>, never an existing one, and removes the file when it
  is dropped before it is persisted, ignoring an error of the removal.\<close>

definition temp_name :: "write_env \<Rightarrow> string" where
  "temp_name env = ''.tmp'' @ we_temp env"

definition stored_name :: "string \<Rightarrow> bool" where
  "stored_name name \<longleftrightarrow> take 4 name \<noteq> ''.tmp''"

definition temp_dropped :: "write_env \<Rightarrow> disk list \<Rightarrow> disk list" where
  "temp_dropped env es = es @ (if we_fails env Remove_temp then [] else [unlink_file (temp_name env) (last es)])"

text \<open>The JSON is written straight to the file, in pieces of any size, so the file may hold every prefix on
  the way. \<open>doc\<close> is the serialised value, \<open>None\<close> when it cannot be serialised. The answer is the result and
  the disk after every call.\<close>

definition write_pieces :: "nat \<Rightarrow> string \<Rightarrow> disk \<Rightarrow> disk list" where
  "write_pieces n bytes d = d # map (\<lambda>k. put_contents n (take k bytes) d) [1..<Suc (length bytes)]"

definition storage_write_steps :: "write_env \<Rightarrow> disk \<Rightarrow> string \<Rightarrow> string option \<Rightarrow> (storage_error + unit) \<times> disk list" where
  "storage_write_steps env d name doc =
     (let fails = we_fails env; tmp = temp_name env; n = free_inode d; d1 = create_file n tmp d
      in if fails Temp_create \<or> fmlookup (dk_names d) tmp \<noteq> None then (Inl Io_error, [])
         else if fails Set_permissions then (Inl Io_error, temp_dropped env [d1])
         else case doc of
           None \<Rightarrow> (Inl Invalid_json, temp_dropped env (write_pieces n (we_junk env) d1))
         | Some bytes \<Rightarrow>
             if fails Write_contents then (Inl Io_error, temp_dropped env (write_pieces n (take (we_cut env) bytes) d1))
             else
               (let ws = write_pieces n bytes d1; d2 = sync_file n (last ws); d3 = rename_file tmp n name d2
                in if fails Sync_file then (Inl Io_error, temp_dropped env ws)
                   else if fails Rename then (Inl Io_error, temp_dropped env (ws @ [d2]))
                   else if fails Sync_dir then (Inl Io_error, ws @ [d2, d3])
                   else (Inr (), ws @ [d2, d3, sync_names d3])))"

text \<open>A power loss: every name is as it was or as it was last synced, and a file that has not been synced may
  hold anything.\<close>

definition power_loss :: "disk \<Rightarrow> disk \<Rightarrow> bool" where
  "power_loss d d' \<longleftrightarrow>
     (\<forall>name. fmlookup (dk_names d') name \<in> {fmlookup (dk_names d) name, fmlookup (dk_saved d) name})
     \<and> (\<forall>n. n |\<in>| dk_flushed d \<longrightarrow> fmlookup (dk_inodes d') n = fmlookup (dk_inodes d) n)
     \<and> dk_saved d' = dk_names d' \<and> dk_flushed d' = fmdom (dk_inodes d')"

section \<open>The CA cooldown\<close>

record cooldown =
  until_at :: int
  cooldown_dir :: "(string, string) fmap"

definition cooldown_load ::
    "(fs_call \<Rightarrow> bool) \<Rightarrow> (string \<Rightarrow> int option) \<Rightarrow> (string, string) fmap \<Rightarrow> storage_error + cooldown" where
  "cooldown_load fails from_json dir =
     bind_result (storage_read fails from_json dir ''ca-retry.json'') (\<lambda>v.
       Inr \<lparr>until_at = (case v of None \<Rightarrow> 0 | Some u \<Rightarrow> u), cooldown_dir = dir\<rparr>)"

definition cooldown_ready :: "cooldown \<Rightarrow> int \<Rightarrow> bool" where
  "cooldown_ready c now \<longleftrightarrow> until_at c \<le> now"

definition cooldown_persist ::
    "(fs_call \<Rightarrow> bool) \<Rightarrow> (int \<Rightarrow> string option) \<Rightarrow> cooldown \<Rightarrow> (storage_error + unit) \<times> cooldown" where
  "cooldown_persist fails to_json c =
     (let (r, dir) = storage_write fails to_json (cooldown_dir c) ''ca-retry.json'' (until_at c)
      in (r, c\<lparr>cooldown_dir := dir\<rparr>))"

definition cooldown_defer ::
    "(fs_call \<Rightarrow> bool) \<Rightarrow> (int \<Rightarrow> string option) \<Rightarrow> cooldown \<Rightarrow> int \<Rightarrow> (storage_error + unit) \<times> cooldown" where
  "cooldown_defer fails to_json c deadline =
     (let u = max (until_at c) deadline;
          (r, dir) = storage_write fails to_json (cooldown_dir c) ''ca-retry.json'' u
      in (r, c\<lparr>until_at := u, cooldown_dir := dir\<rparr>))"

text \<open>The header is \<open>None\<close> when it is absent or not visible ASCII; \<open>parse_http_date\<close> gives the
  seconds since the epoch, \<open>None\<close> for a malformed or earlier date.\<close>

definition retry_deadline ::
    "(string \<Rightarrow> nat option) \<Rightarrow> nat \<Rightarrow> string option \<Rightarrow> int \<Rightarrow> int option" where
  "retry_deadline parse_http_date status header now =
     (if \<not> (400 \<le> status \<and> status \<le> 599) then None
      else
        (let header = map_option (trim_matches {CHR '' '', CHR 0x09}) header;
             parsed = Option.bind header (\<lambda>v.
               case parse_uint 64 v of
                 Some seconds \<Rightarrow> Some (i64_saturating_add now (int (min seconds (2 ^ 63 - 1))))
               | None \<Rightarrow> map_option (\<lambda>d. int (min d (2 ^ 63 - 1))) (parse_http_date v))
         in case parsed of
              Some deadline \<Rightarrow> Some (max deadline (i64_saturating_add now 1))
            | None \<Rightarrow> if status = 429 then Some (i64_saturating_add now 60) else None))"

text \<open>One request through \<^verbatim>\<open>AcmeHttp\<close>: refused during a cooldown, else sent, and a response that
  asks for a pause extends the cooldown. The response is \<open>None\<close> on a transport error or timeout.\<close>

definition acme_request ::
    "(string \<Rightarrow> nat option) \<Rightarrow> (fs_call \<Rightarrow> bool) \<Rightarrow> (int \<Rightarrow> string option) \<Rightarrow> int \<Rightarrow> int \<Rightarrow>
      (nat \<times> string option) option \<Rightarrow> cooldown \<Rightarrow> (string + nat \<times> string option) \<times> cooldown" where
  "acme_request parse_http_date fails to_json now later response c =
     (if \<not> cooldown_ready c now then (Inl ''CA Retry-After cooldown is active'', c)
      else (case response of
              None \<Rightarrow> (Inl ''ACME HTTP request failed'', c)
            | Some (status, header) \<Rightarrow>
                (case retry_deadline parse_http_date status header (i64_saturating_add later 1) of
                   None \<Rightarrow> (Inr (status, header), c)
                 | Some deadline \<Rightarrow>
                     (Inr (status, header), snd (cooldown_defer fails to_json c deadline)))))"

section \<open>Properties\<close>

text \<open>
  A certificate that was accepted covers its site. Parsing succeeds only when the chain is
  not empty, the private key belongs to its leaf, one of the leaf's DNS names is the domain
  (ignoring ASCII case) and the validity period is not empty; the certificate carries them.
\<close>

lemma certificate_parse_sound:
  assumes "certificate_parse ops domain p = Inr cert"
  shows "\<exists>leaf rest names. cert_chain cert = leaf # rest \<and> public_eq ops leaf (cert_key cert) = Some True \<and>
    subject_alt_names ops leaf = Some names \<and>
    (\<exists>n. Some n \<in> set names \<and> to_ascii_lowercase n = to_ascii_lowercase domain) \<and>
    not_before cert < not_after cert"
proof -
  obtain chain where chain: "stack_from_pem ops (pem_chain p) = Some chain"
    using assms by (auto simp: certificate_parse_def)
  obtain leaf rest where leaf: "chain = leaf # rest"
    using assms chain by (cases chain) (auto simp: certificate_parse_def)
  then have "covers_domain ops leaf domain" "cert_chain cert = chain"
    "public_eq ops leaf (cert_key cert) = Some True" "not_before cert < not_after cert"
    using assms chain by (auto simp: certificate_parse_def)
  then show ?thesis
    using leaf
    by (force simp: covers_domain_def eq_ignore_ascii_case_def list_ex_iff split: option.splits)
qed

text \<open>
  Renewal starts at two thirds of the lifetime, once. For a certificate whose times are
  Unix times below \<open>2 ^ 61\<close>, the interval arithmetic does not overflow, and there is one instant
  strictly inside the validity (or at its start, for a lifetime of one second) before which a
  valid certificate is kept and from which on it is renewed for ever.
\<close>

lemma needs_renewal_threshold:
  assumes "0 \<le> not_before cert" "not_before cert < not_after cert" "not_after cert < 2 ^ 61"
  shows "\<exists>r. not_before cert \<le> r \<and> r < not_after cert \<and>
    r = not_before cert + (not_after cert - not_before cert) * 2 div 3 \<and>
    (\<forall>now \<ge> not_before cert. needs_renewal cert now \<longleftrightarrow> r \<le> now)"
proof -
  let ?nb = "not_before cert" and ?na = "not_after cert"
  let ?r = "?nb + (?na - ?nb) * 2 div 3"
  have r: "?nb \<le> ?r" "?r < ?na" using assms by auto
  have "i64_wrap (?na - ?nb) = ?na - ?nb" "i64_wrap ((?na - ?nb) * 2) = (?na - ?nb) * 2"
    using assms by (auto intro!: i64_wrap_id simp: i64_bounds)
  moreover have "((?na - ?nb) * 2) sdiv 3 = (?na - ?nb) * 2 div 3"
    using assms by (simp add: signed_divide_int_def sgn_if)
  moreover have "i64_wrap ?r = ?r" using r assms by (intro i64_wrap_id) (auto simp: i64_bounds)
  ultimately have "needs_renewal cert now \<longleftrightarrow> ?r \<le> now" if "?nb \<le> now" for now
    using that r by (auto simp: needs_renewal_def valid_at_def)
  then show ?thesis using r by blast
qed

text \<open>
  A handshake is served only a certificate that is valid now, for a name that is configured
  as an HTTPS site; the name is compared in lower case.
\<close>

lemma certificate_callback_sound:
  assumes "certificate_callback site_https certs now (Some name) = Some cert"
  shows "site_https (to_ascii_lowercase name) = Some True \<and> valid_at cert now \<and>
    fmlookup certs (to_ascii_lowercase name) = Some cert"
  using assms by (auto simp: certificate_callback_def Let_def split: if_splits option.splits)

text \<open>
  The disks a write passes through. Until the rename only the temporary name and the new inode have changed;
  from then on the name leads to the new inode, complete and synced.
\<close>

definition same_inodes :: "nat \<Rightarrow> disk \<Rightarrow> disk \<Rightarrow> bool" where
  "same_inodes n d e \<longleftrightarrow>
     (\<forall>m. m \<noteq> n \<longrightarrow> fmlookup (dk_inodes e) m = fmlookup (dk_inodes d) m \<and> (m |\<in>| dk_flushed e \<longleftrightarrow> m |\<in>| dk_flushed d))"

definition unrenamed :: "write_env \<Rightarrow> disk \<Rightarrow> disk \<Rightarrow> bool" where
  "unrenamed env d e \<longleftrightarrow> same_inodes (free_inode d) d e \<and> dk_saved e = dk_saved d
     \<and> (\<forall>nm. nm \<noteq> temp_name env \<longrightarrow> fmlookup (dk_names e) nm = fmlookup (dk_names d) nm)"

definition renamed :: "write_env \<Rightarrow> string \<Rightarrow> string \<Rightarrow> disk \<Rightarrow> disk \<Rightarrow> bool" where
  "renamed env name bytes d e \<longleftrightarrow> same_inodes (free_inode d) d e \<and> dk_saved e \<in> {dk_saved d, dk_names e}
     \<and> fmlookup (dk_inodes e) (free_inode d) = Some bytes \<and> free_inode d |\<in>| dk_flushed e
     \<and> fmlookup (dk_names e) name = Some (free_inode d)
     \<and> (\<forall>nm. nm \<notin> {name, temp_name env} \<longrightarrow> fmlookup (dk_names e) nm = fmlookup (dk_names d) nm)"

lemmas disk_ops = create_file_def put_contents_def sync_file_def rename_file_def unlink_file_def sync_names_def

lemma unrenamed_steps [simp, intro]:
  "unrenamed env d d"
  "unrenamed env d (create_file (free_inode d) (temp_name env) d)"
  "unrenamed env d e \<Longrightarrow> unrenamed env d (put_contents (free_inode d) bytes e)"
  "unrenamed env d e \<Longrightarrow> unrenamed env d (sync_file (free_inode d) e)"
  "unrenamed env d e \<Longrightarrow> unrenamed env d (unlink_file (temp_name env) e)"
  by (auto simp: unrenamed_def same_inodes_def disk_ops)

lemma write_pieces_last: "last (write_pieces n bytes d) = (if bytes = [] then d else put_contents n bytes d)"
  by (cases bytes) (simp_all add: write_pieces_def last_map)

lemma write_pieces_unrenamed: "unrenamed env d e \<Longrightarrow> e' \<in> set (write_pieces (free_inode d) bytes e) \<Longrightarrow> unrenamed env d e'"
  by (auto simp: write_pieces_def)

lemma write_pieces_nonempty [simp]: "write_pieces n bytes d \<noteq> []"
  by (simp add: write_pieces_def)

lemma temp_dropped_unrenamed:
  "\<forall>e \<in> set es. unrenamed env d e \<Longrightarrow> es \<noteq> [] \<Longrightarrow> \<forall>e \<in> set (temp_dropped env es). unrenamed env d e"
  by (auto simp: temp_dropped_def split: if_splits)

lemma renamed_steps:
  assumes "stored_name name" "d2 = sync_file (free_inode d) (last (write_pieces (free_inode d) bytes (create_file (free_inode d) (temp_name env) d)))"
    "d3 = rename_file (temp_name env) (free_inode d) name d2"
  shows "renamed env name bytes d d3" "renamed env name bytes d (sync_names d3)"
proof -
  have "name \<noteq> temp_name env" using assms(1) by (auto simp: stored_name_def temp_name_def)
  then show "renamed env name bytes d d3" "renamed env name bytes d (sync_names d3)"
    by (auto simp: assms(2,3) renamed_def same_inodes_def write_pieces_last disk_ops)
qed

text \<open>The calls seen from the directory: a temporary name that is taken is a failure to create the file.\<close>

definition temp_fails :: "write_env \<Rightarrow> disk \<Rightarrow> fs_call \<Rightarrow> bool" where
  "temp_fails env d call \<longleftrightarrow> we_fails env call \<or> call = Temp_create \<and> fmlookup (dk_names d) (temp_name env) \<noteq> None"

lemma storage_write_phases:
  assumes "storage_write_steps env d name (to_json v) = (r, es)" "stored_name name"
  shows "(r = Inr () \<longrightarrow> es \<noteq> []
        \<and> (\<exists>bytes. to_json v = Some bytes \<and> renamed env name bytes d (last es) \<and> dk_saved (last es) = dk_names (last es)))
     \<and> (\<forall>e \<in> set (d # es). unrenamed env d e \<or> (\<exists>bytes. to_json v = Some bytes \<and> renamed env name bytes d e))
     \<and> (storage_write (temp_fails env d) to_json dir name v = (r, dir) \<and> unrenamed env d (last (d # es))
        \<or> (\<exists>bytes. to_json v = Some bytes \<and> storage_write (temp_fails env d) to_json dir name v = (r, fmupd name bytes dir)
             \<and> renamed env name bytes d (last (d # es))))"
proof -
  define ok where "ok es \<longleftrightarrow> (\<forall>e \<in> set es. unrenamed env d e)" for es
  define ws where "ws bytes = write_pieces (free_inode d) bytes (create_file (free_inode d) (temp_name env) d)" for bytes
  define d2 where "d2 bytes = sync_file (free_inode d) (last (ws bytes))" for bytes
  define d3 where "d3 bytes = rename_file (temp_name env) (free_inode d) name (d2 bytes)" for bytes
  have ws: "ok (ws bytes)" "ws bytes \<noteq> []" for bytes by (auto simp: ok_def ws_def intro: write_pieces_unrenamed)
  then have d2: "unrenamed env d (d2 bytes)" for bytes using last_in_set [OF ws(2)] unfolding ok_def d2_def by blast
  have dropped: "ok (temp_dropped env (ws bytes))" "ok (temp_dropped env (ws bytes @ [d2 bytes]))"
    "ok (temp_dropped env [create_file (free_inode d) (temp_name env) d])" "ok []" for bytes
    using ws [of bytes] d2 [of bytes] unfolding ok_def by (intro temp_dropped_unrenamed; simp)+ simp
  have d3: "renamed env name bytes d (d3 bytes)" "renamed env name bytes d (sync_names (d3 bytes))" for bytes
    using renamed_steps [OF assms(2) refl refl, where d = d and bytes = bytes and env = env] by (simp_all add: ws_def d2_def d3_def)
  have "storage_write (temp_fails env d) to_json dir name v = (r, dir) \<and> (\<exists>x. r = Inl x) \<and> ok es
      \<or> (\<exists>bytes. to_json v = Some bytes \<and> storage_write (temp_fails env d) to_json dir name v = (r, fmupd name bytes dir)
           \<and> es = ws bytes @ [d2 bytes, d3 bytes] \<and> (\<exists>x. r = Inl x))
      \<or> (\<exists>bytes. to_json v = Some bytes \<and> storage_write (temp_fails env d) to_json dir name v = (r, fmupd name bytes dir)
           \<and> es = ws bytes @ [d2 bytes, d3 bytes, sync_names (d3 bytes)] \<and> r = Inr ())"
    using assms(1) [symmetric]
    unfolding storage_write_steps_def storage_write_def temp_fails_def Let_def ws_def [symmetric] d2_def [symmetric] d3_def [symmetric]
    by (cases "to_json v") (auto simp: dropped split: if_splits)
  then show ?thesis
  proof (elim disjE exE conjE)
    fix x
    assume "ok es" "r = Inl x" "storage_write (temp_fails env d) to_json dir name v = (r, dir)"
    moreover have "unrenamed env d (last (d # es))" using \<open>ok es\<close> last_in_set [of es] by (cases "es = []") (auto simp: ok_def)
    ultimately show ?thesis by (simp add: ok_def)
  next
    fix bytes x
    assume "to_json v = Some bytes" "es = ws bytes @ [d2 bytes, d3 bytes]" "r = Inl x"
      "storage_write (temp_fails env d) to_json dir name v = (r, fmupd name bytes dir)"
    then show ?thesis using ws d2 d3 by (auto simp: ok_def)
  next
    fix bytes
    assume "to_json v = Some bytes" "es = ws bytes @ [d2 bytes, d3 bytes, sync_names (d3 bytes)]" "r = Inr ()"
      "storage_write (temp_fails env d) to_json dir name v = (r, fmupd name bytes dir)"
    then show ?thesis using ws d2 d3 by (auto simp: ok_def sync_names_def)
  qed
qed

text \<open>
  The life of the directory: writes that return, with or without an error, and power losses at any moment of a
  write. The log collects, for every name, the complete documents that were to be written to it.
\<close>

definition disk_new :: disk where
  "disk_new = \<lparr>dk_inodes = fmempty, dk_flushed = {||}, dk_names = fmempty, dk_saved = fmempty\<rparr>"

definition logged :: "(string \<times> string) set \<Rightarrow> string \<Rightarrow> string option \<Rightarrow> (string \<times> string) set" where
  "logged log name doc = log \<union> Pair name ` set_option doc"

inductive disk_step :: "(string \<times> string) set \<times> disk \<Rightarrow> (string \<times> string) set \<times> disk \<Rightarrow> bool" where
  returned: "storage_write_steps env d name doc = (r, es) \<Longrightarrow> stored_name name \<Longrightarrow>
    disk_step (log, d) (logged log name doc, last (d # es))"
| lost: "storage_write_steps env d name doc = (r, es) \<Longrightarrow> stored_name name \<Longrightarrow> e \<in> set (d # es) \<Longrightarrow> power_loss e d' \<Longrightarrow>
    disk_step (log, d) (logged log name doc, d')"

text \<open>What a stored name leads to, now or after a power loss, is on the disk and a document of the log.\<close>

definition intact :: "(string \<times> string) set \<times> disk \<Rightarrow> bool" where
  "intact s \<longleftrightarrow>
     (\<forall>nm n. stored_name nm \<and> (fmlookup (dk_names (snd s)) nm = Some n \<or> fmlookup (dk_saved (snd s)) nm = Some n) \<longrightarrow>
        n |\<in>| dk_flushed (snd s) \<and> (\<exists>bytes. fmlookup (dk_inodes (snd s)) n = Some bytes \<and> (nm, bytes) \<in> fst s))"

lemma free_inode_fresh: "fmlookup (dk_inodes d) (free_inode d) = None"
proof -
  have "free_inode d \<notin> fset (fmdom (dk_inodes d))"
  proof
    assume "free_inode d \<in> fset (fmdom (dk_inodes d))"
    then have "free_inode d \<le> Max (insert 0 (fset (fmdom (dk_inodes d))))" by (intro Max_ge) auto
    then show False by (simp add: free_inode_def)
  qed
  then show ?thesis by (simp add: fmdom_notD)
qed

lemma intactD:
  assumes "intact (log, d)" "stored_name nm" "fmlookup (dk_names d) nm = Some n \<or> fmlookup (dk_saved d) nm = Some n"
  shows "n |\<in>| dk_flushed d" "\<exists>bytes. fmlookup (dk_inodes d) n = Some bytes \<and> (nm, bytes) \<in> log" "n \<noteq> free_inode d"
proof -
  show 1: "n |\<in>| dk_flushed d" "\<exists>bytes. fmlookup (dk_inodes d) n = Some bytes \<and> (nm, bytes) \<in> log"
    using assms unfolding intact_def prod.sel by blast+
  then show "n \<noteq> free_inode d" using free_inode_fresh [of d] by auto
qed

lemma temp_not_stored: "stored_name nm \<Longrightarrow> nm \<noteq> temp_name env"
  by (auto simp: stored_name_def temp_name_def)

lemma intact_unrenamed:
  assumes "intact (log, d)" "unrenamed env d e"
  shows "intact (logged log name doc, e)"
  unfolding intact_def prod.sel
proof (intro allI impI)
  fix nm n
  assume nm: "stored_name nm \<and> (fmlookup (dk_names e) nm = Some n \<or> fmlookup (dk_saved e) nm = Some n)"
  then have "fmlookup (dk_names d) nm = Some n \<or> fmlookup (dk_saved d) nm = Some n"
    using assms(2) temp_not_stored by (auto simp: unrenamed_def)
  note n = intactD [OF assms(1) conjunct1 [OF nm] this]
  show "n |\<in>| dk_flushed e \<and> (\<exists>bytes. fmlookup (dk_inodes e) n = Some bytes \<and> (nm, bytes) \<in> logged log name doc)"
    using n assms(2) by (auto simp: unrenamed_def same_inodes_def logged_def)
qed

lemma intact_renamed:
  assumes "intact (log, d)" "renamed env name bytes d e" "stored_name name"
  shows "intact (logged log name (Some bytes), e)"
  unfolding intact_def prod.sel
proof (intro allI impI)
  fix nm n
  assume nm: "stored_name nm \<and> (fmlookup (dk_names e) nm = Some n \<or> fmlookup (dk_saved e) nm = Some n)"
  then consider (new) "nm = name" "n = free_inode d" | (old) "fmlookup (dk_names d) nm = Some n \<or> fmlookup (dk_saved d) nm = Some n"
    using assms(2) temp_not_stored [of nm env] by (cases "nm = name") (auto simp: renamed_def)
  then show "n |\<in>| dk_flushed e \<and> (\<exists>b. fmlookup (dk_inodes e) n = Some b \<and> (nm, b) \<in> logged log name (Some bytes))"
  proof cases
    case new
    then show ?thesis using assms(2) by (simp add: renamed_def logged_def)
  next
    case old
    note n = intactD [OF assms(1) conjunct1 [OF nm] this]
    show ?thesis using n assms(2) by (auto simp: renamed_def same_inodes_def logged_def)
  qed
qed

lemma intact_write:
  assumes "intact (log, d)" "storage_write_steps env d name doc = (r, es)" "stored_name name" "e \<in> set (d # es)"
  shows "intact (logged log name doc, e)"
proof -
  have "unrenamed env d e \<or> (\<exists>bytes. doc = Some bytes \<and> renamed env name bytes d e)"
    using storage_write_phases [where to_json = "\<lambda>_. doc", OF assms(2,3), THEN conjunct2, THEN conjunct1] assms(4) by (rule bspec)
  then show ?thesis using intact_unrenamed [OF assms(1)] intact_renamed [OF assms(1) _ assms(3)] by auto
qed

lemma intact_power_loss: "intact (log, e) \<Longrightarrow> power_loss e d' \<Longrightarrow> intact (log, d')"
  unfolding intact_def power_loss_def prod.sel by (metis fmdomI insert_iff singletonD)

lemma disk_step_intact: "disk_step s s' \<Longrightarrow> intact s \<Longrightarrow> intact s'"
proof (induction rule: disk_step.induct)
  case (returned env d name doc r es log)
  show ?case by (rule intact_write [OF returned(3,1,2) last_in_set]) simp
next
  case (lost env d name doc r es e d' log)
  then show ?case using intact_write intact_power_loss by blast
qed

interpretation disk_run: step_invariant disk_step intact
  by unfold_locales (rule disk_step_intact)

lemma intact_content: "intact (log, d) \<Longrightarrow> stored_name nm \<Longrightarrow> file_content d nm = Some bytes \<Longrightarrow> (nm, bytes) \<in> log"
  by (auto simp: file_content_def bind_eq_Some_conv dest!: intactD(2))

text \<open>The content of a stored name, for the two phases of a write.\<close>

lemma content_unrenamed:
  assumes "intact (log, d)" "unrenamed env d e" "stored_name nm"
  shows "file_content e nm = file_content d nm"
proof (cases "fmlookup (dk_names d) nm")
  case (Some n)
  then have "n \<noteq> free_inode d" using intactD(3) [OF assms(1,3)] by blast
  then show ?thesis using assms Some temp_not_stored [OF assms(3)] by (simp add: file_content_def unrenamed_def same_inodes_def)
qed (use assms(2) temp_not_stored [OF assms(3)] in \<open>simp add: file_content_def unrenamed_def\<close>)

lemma content_renamed:
  assumes "intact (log, d)" "renamed env name bytes d e" "stored_name nm"
  shows "file_content e nm = (if nm = name then Some bytes else file_content d nm)"
proof (cases "fmlookup (dk_names d) nm")
  case (Some n)
  then have "n \<noteq> free_inode d" using intactD(3) [OF assms(1,3)] by blast
  then show ?thesis using assms Some temp_not_stored [OF assms(3)] by (simp add: file_content_def renamed_def same_inodes_def)
qed (use assms(2) temp_not_stored [OF assms(3)] in \<open>simp add: file_content_def renamed_def\<close>)

text \<open>What a successful write has stored survives a power loss.\<close>

lemma content_durable:
  assumes "renamed env name bytes d e" "dk_saved e = dk_names e" "power_loss e e'"
  shows "file_content e' name = Some bytes"
  using assms by (auto simp: renamed_def power_loss_def file_content_def)

text \<open>
  C40: a stored value is never torn. Take a directory in any state that writes with failing calls, and power
  losses in the middle of them, can leave, and a write of a document to \<open>name\<close>. After every single call of it
  \<open>name\<close> holds what it held before or the new document, and every other stored name holds what it held. If the
  power is lost at that moment, every stored name still holds one complete document that was written to it at
  some time, or nothing. When the write succeeds, \<open>name\<close> holds the new document, also after a power loss. And the
  result and the directory that the write leaves are those of the one-step write the rest of the gateway uses.
\<close>

theorem storage_write_atomic:
  assumes "disk_step\<^sup>*\<^sup>* ({}, disk_new) (log, d)" "stored_name name"
    and "storage_write_steps env d name (to_json v) = (r, es)" "e \<in> set (d # es)"
  shows "file_content e name \<in> {file_content d name, to_json v}
     \<and> (\<forall>nm. stored_name nm \<and> nm \<noteq> name \<longrightarrow> file_content e nm = file_content d nm)
     \<and> (\<forall>e' nm bytes. power_loss e e' \<and> stored_name nm \<and> file_content e' nm = Some bytes \<longrightarrow>
          (nm, bytes) \<in> log \<or> nm = name \<and> to_json v = Some bytes)
     \<and> (r = Inr () \<longrightarrow> to_json v \<noteq> None \<and> file_content (last es) name = to_json v
          \<and> (\<forall>e'. power_loss (last es) e' \<longrightarrow> file_content e' name = to_json v))
     \<and> (\<forall>dir. (\<forall>nm. stored_name nm \<longrightarrow> fmlookup dir nm = file_content d nm) \<longrightarrow>
          (\<exists>dir'. storage_write (temp_fails env d) to_json dir name v = (r, dir')
             \<and> (\<forall>nm. stored_name nm \<longrightarrow> fmlookup dir' nm = file_content (last (d # es)) nm)))"
proof (intro conjI allI impI; (elim conjE)?)
  have d: "intact (log, d)" using disk_run.reach_inv [OF assms(1)] by (simp add: intact_def disk_new_def)
  note phases = storage_write_phases [where to_json = to_json and v = v, OF assms(3,2)]
  have e: "unrenamed env d e \<or> (\<exists>bytes. to_json v = Some bytes \<and> renamed env name bytes d e)"
    by (rule bspec [OF conjunct1 [OF conjunct2 [OF phases]] assms(4)])
  then show "file_content e name \<in> {file_content d name, to_json v}"
    by (auto dest: content_unrenamed [OF d _ assms(2)] content_renamed [OF d _ assms(2)])
  show "file_content e nm = file_content d nm" if "stored_name nm" "nm \<noteq> name" for nm
    using e that(2) by (auto dest: content_unrenamed [OF d _ that(1)] content_renamed [OF d _ that(1)])
  have intact: "intact (logged log name (to_json v), e)" by (rule intact_write [OF d assms(3,2,4)])
  show "(nm, bytes) \<in> log \<or> nm = name \<and> to_json v = Some bytes"
    if "power_loss e e'" "stored_name nm" "file_content e' nm = Some bytes" for e' nm bytes
    using intact_content [OF intact_power_loss [OF intact that(1)] that(2,3)] by (auto simp: logged_def)
  show "to_json v \<noteq> None" "file_content (last es) name = to_json v" if "r = Inr ()"
    using mp [OF conjunct1 [OF phases] that] by (auto dest: content_renamed [OF d _ assms(2)])
  show "file_content e' name = to_json v" if "r = Inr ()" "power_loss (last es) e'" for e'
    using mp [OF conjunct1 [OF phases] that(1)] by (auto intro: content_durable [OF _ _ that(2)])
  show "\<exists>dir'. storage_write (temp_fails env d) to_json dir name v = (r, dir')
      \<and> (\<forall>nm. stored_name nm \<longrightarrow> fmlookup dir' nm = file_content (last (d # es)) nm)"
    if "\<forall>nm. stored_name nm \<longrightarrow> fmlookup dir nm = file_content d nm" for dir
    using conjunct2 [OF conjunct2 [OF phases [of dir]]]
  proof (elim disjE exE conjE)
    assume "storage_write (temp_fails env d) to_json dir name v = (r, dir)" "unrenamed env d (last (d # es))"
    then show ?thesis using that content_unrenamed [OF d] by metis
  next
    fix bytes
    assume w: "storage_write (temp_fails env d) to_json dir name v = (r, fmupd name bytes dir)" "renamed env name bytes d (last (d # es))"
    have "fmlookup (fmupd name bytes dir) nm = file_content (last (d # es)) nm" if nm: "stored_name nm" for nm
      unfolding content_renamed [OF d w(2) nm] using \<open>\<forall>nm. stored_name nm \<longrightarrow> fmlookup dir nm = file_content d nm\<close> nm by simp
    then show ?thesis using w(1) by blast
  qed
qed

text \<open>
  A CA's request to wait is respected. The deadline taken from an error response is at least
  one second ahead, a 429 always gives one, a successful response never does; and the barrier
  only moves forward: no response, failed save or later deadline brings it back.
\<close>

lemma acme_cooldown_monotone:
  assumes "acme_request pd fails to_json now later resp c = (r, c')" "i64_ok later" "later < i64_max - 60"
  shows "until_at c \<le> until_at c' \<and>
    (\<not> cooldown_ready c now \<longrightarrow> c' = c \<and> (\<exists>e. r = Inl e)) \<and>
    (\<forall>status header. r = Inr (status, header) \<longrightarrow>
      (status = 429 \<longrightarrow> later + 2 \<le> until_at c') \<and>
      (\<not> (400 \<le> status \<and> status \<le> 599) \<longrightarrow> c' = c))"
proof -
  have d: "later + 2 \<le> deadline" if "retry_deadline pd status header (i64_saturating_add later 1) = Some deadline"
    for status header deadline
    using that assms(2,3)
    by (auto simp: retry_deadline_def Let_def i64_saturating_add_def i64_bounds split: if_splits option.splits)
  have some: "retry_deadline pd 429 header t \<noteq> None" for header t
    by (auto simp: retry_deadline_def Let_def split: option.splits)
  have none: "retry_deadline pd status header t = None" if "\<not> (400 \<le> status \<and> status \<le> 599)" for status header t
    using that by (simp add: retry_deadline_def)
  have u: "until_at (snd (cooldown_defer fails to_json c deadline)) = max (until_at c) deadline" for deadline
    by (auto simp: cooldown_defer_def Let_def split: prod.splits)
  consider (refused) "\<not> cooldown_ready c now" "c' = c" "\<exists>e. r = Inl e"
    | (failed) "cooldown_ready c now" "c' = c" "\<exists>e. r = Inl e"
    | (plain) status header where "cooldown_ready c now" "r = Inr (status, header)" "c' = c"
        "retry_deadline pd status header (i64_saturating_add later 1) = None"
    | (deferred) status header deadline where "cooldown_ready c now" "r = Inr (status, header)"
        "retry_deadline pd status header (i64_saturating_add later 1) = Some deadline"
        "until_at c' = max (until_at c) deadline"
    using assms(1) u by (auto simp: acme_request_def split: if_splits option.splits prod.splits)
  then show ?thesis
  proof cases
    case deferred
    then show ?thesis using d [OF deferred(3)] none [of status header "i64_saturating_add later 1"] by auto
  next
    case plain
    then show ?thesis using some [of header "i64_saturating_add later 1"] by auto
  qed auto
qed

section \<open>Witnesses\<close>

definition demo_x509 :: "(nat, nat) x509_ops" where
  "demo_x509 = \<lparr>stack_from_pem = (\<lambda>s. if s = ''chain'' then Some [7] else None),
     private_key_from_pem = (\<lambda>s. if s = ''key'' then Some 7 else None),
     public_eq = (\<lambda>x k. Some (x = k)),
     subject_alt_names = (\<lambda>_. Some [None, Some ''Example.com'']),
     diff_not_before = (\<lambda>_. Some (0, 1000)), diff_not_after = (\<lambda>_. Some (1, 0))\<rparr>"

definition demo_cert :: "(nat, nat) certificate" where
  "demo_cert = \<lparr>cert_chain = [7], cert_key = 7, not_before = 1000, not_after = 86400\<rparr>"

lemma demo_cert_parse:
  "certificate_parse demo_x509 ''example.com'' \<lparr>pem_chain = ''chain'', pem_private_key = ''key''\<rparr> = Inr demo_cert"
  by (simp add: certificate_parse_def demo_x509_def demo_cert_def covers_domain_def timestamp_def i64_wrap_def
      eq_ignore_ascii_case_def to_ascii_lowercase_def ascii_lower_Char is_ascii_upper_def)

text \<open>A document is written; a second one is written, the sync of the directory fails, and the power is lost.\<close>

definition demo_write :: "fs_call list \<Rightarrow> write_env" where
  "demo_write failing = \<lparr>we_fails = (\<lambda>c. c \<in> set failing), we_temp = ''x'', we_cut = 1, we_junk = []\<rparr>"

definition demo_disk :: disk where
  "demo_disk = last (snd (storage_write_steps (demo_write []) disk_new ''a'' (Some ''v'')))"

definition demo_lost :: "disk \<Rightarrow> disk" where
  "demo_lost d = \<lparr>dk_inodes = dk_inodes d, dk_flushed = fmdom (dk_inodes d), dk_names = dk_saved d, dk_saved = dk_saved d\<rparr>"

lemmas write_eval = storage_write_steps_def demo_write_def temp_name_def write_pieces_def free_inode_def disk_ops disk_new_def Let_def fmdrop_fmupd

lemma demo_disk_eval:
  "storage_write_steps (demo_write []) disk_new ''a'' (Some ''v'') = (Inr (), snd (storage_write_steps (demo_write []) disk_new ''a'' (Some ''v'')))"
  "demo_disk = \<lparr>dk_inodes = fmupd 1 ''v'' fmempty, dk_flushed = {|1|}, dk_names = fmupd ''a'' 1 fmempty, dk_saved = fmupd ''a'' 1 fmempty\<rparr>"
  unfolding demo_disk_def by (simp_all add: write_eval)

theorem storage_write_atomic_witness:
  "\<exists>es. storage_write_steps (demo_write [Sync_dir]) demo_disk ''a'' (Some ''ww'') = (Inl Io_error, es)
     \<and> file_content (last es) ''a'' \<in> {file_content demo_disk ''a'', Some ''ww''} \<and> file_content (last es) ''a'' \<noteq> file_content demo_disk ''a''
     \<and> power_loss (last es) (demo_lost (last es)) \<and> file_content (demo_lost (last es)) ''a'' \<in> {Some ''v'', Some ''ww''}"
proof -
  let ?w = "storage_write_steps (demo_write []) disk_new ''a'' (Some ''v'')"
  let ?es = "snd (storage_write_steps (demo_write [Sync_dir]) demo_disk ''a'' (Some ''ww''))"
  have name: "stored_name ''a''" by (simp add: stored_name_def)
  have "snd ?w \<noteq> []" by (simp add: write_eval)
  then have "disk_step ({}, disk_new) (logged {} ''a'' (Some ''v''), demo_disk)"
    using disk_step.returned [OF demo_disk_eval(1) name, of "{}"] by (simp add: demo_disk_def)
  then have run: "disk_step\<^sup>*\<^sup>* ({}, disk_new) ({(''a'', ''v'')}, demo_disk)" by (auto simp: logged_def)
  have es: "storage_write_steps (demo_write [Sync_dir]) demo_disk ''a'' (Some ''ww'') = (Inl Io_error, ?es)"
    and ne: "?es \<noteq> []" and new: "file_content (last ?es) ''a'' = Some ''ww''" "file_content demo_disk ''a'' = Some ''v''"
    and old: "file_content (demo_lost (last ?es)) ''a'' = Some ''v''"
    by (simp_all add: demo_disk_eval(2) write_eval file_content_def demo_lost_def)
  have lost: "power_loss (last ?es) (demo_lost (last ?es))" by (simp add: power_loss_def demo_lost_def)
  have e: "last ?es \<in> set (demo_disk # ?es)" using ne by simp
  note A = storage_write_atomic [where to_json = Some and v = "''ww''", OF run name es e]
  have "file_content (last ?es) ''a'' \<in> {file_content demo_disk ''a'', Some ''ww''}" using A by (rule conjunct1)
  moreover have "file_content (demo_lost (last ?es)) ''a'' \<in> {Some ''v'', Some ''ww''}"
    using A [THEN conjunct2, THEN conjunct2, THEN conjunct1] lost name old by auto
  ultimately show ?thesis using es new lost by auto
qed

end
