(* ===== verification/Retry.thy ===== *)
theory Retry
  imports Geata_Prelude
begin

text \<open>
  Certificate retry deadlines: \<^verbatim>\<open>src/crates/geata/src/retry.rs\<close>. Times are Unix seconds in \<^verbatim>\<open>i64\<close>. The two
  random bytes that \<^verbatim>\<open>failed\<close> draws are a parameter, so the theorems hold for every draw and
  also for a generator that fails and leaves them zero.
\<close>

section \<open>State and operations\<close>

record retry =
  failures :: nat
  next_at :: int

record retries =
  account_retry :: retry
  domain_retries :: "(string, retry) fmap"

definition retry_default :: retry where
  "retry_default = \<lparr>failures = 0, next_at = 0\<rparr>"

definition retries_default :: retries where
  "retries_default = \<lparr>account_retry = retry_default, domain_retries = fmempty\<rparr>"

definition retry_ready :: "retry \<Rightarrow> int \<Rightarrow> bool" where
  "retry_ready r now \<longleftrightarrow> next_at r \<le> now"

definition backoff_base :: "nat \<Rightarrow> int" where
  "backoff_base f = min (30 * 2 ^ min (f - 1) 12) 86400"

definition backoff_cap :: "int \<Rightarrow> int option \<Rightarrow> int" where
  "backoff_cap now expiry =
     (case expiry of
        None \<Rightarrow> 86400
      | Some end_at \<Rightarrow> max 5 (min 86400 ((i64_saturating_sub end_at now) sdiv 3)))"

definition retry_failed :: "retry \<Rightarrow> int \<Rightarrow> int option \<Rightarrow> nat \<Rightarrow> retry" where
  "retry_failed r now expiry random =
     (let base = backoff_base (failures r);
          jitter = int random mod (base div 5 + 1)
      in r\<lparr>next_at := i64_saturating_add now (min (base + jitter) (backoff_cap now expiry))\<rparr>)"

definition retry_begin :: "retry \<Rightarrow> int \<Rightarrow> int option \<Rightarrow> int \<Rightarrow> nat \<Rightarrow> retry" where
  "retry_begin r now expiry timeout random =
     (let r' = retry_failed (r\<lparr>failures := saturating_add 32 (failures r) 1\<rparr>) now expiry random
      in r'\<lparr>next_at := max (next_at r') (i64_saturating_add now timeout)\<rparr>)"

section \<open>Bounds of the delay\<close>

lemma backoff_base_bounds: "30 \<le> backoff_base f" "backoff_base f \<le> 86400"
proof -
  have "(1::int) \<le> 2 ^ min (f - 1) 12" by (rule one_le_power) simp
  then show "30 \<le> backoff_base f" "backoff_base f \<le> 86400" by (auto simp: backoff_base_def)
qed

lemma backoff_cap_bounds: "5 \<le> backoff_cap now expiry" "backoff_cap now expiry \<le> 86400"
  by (auto simp: backoff_cap_def split: option.splits)

lemma backoff_base_doubles:
  assumes "0 < f"
  shows "backoff_base (Suc f) = min (2 * backoff_base f) 86400"
proof (cases "f - 1 < 12")
  case True
  then have "min (Suc f - 1) 12 = Suc (f - 1)" "min (f - 1) 12 = f - 1" using assms by auto
  then show ?thesis unfolding backoff_base_def by (simp add: min_def)
next
  case False
  then have "min (Suc f - 1) 12 = (12::nat)" "min (f - 1) 12 = (12::nat)" by auto
  then show ?thesis by (simp add: backoff_base_def)
qed

definition retry_delay :: "retry \<Rightarrow> int \<Rightarrow> int option \<Rightarrow> nat \<Rightarrow> int" where
  "retry_delay r now expiry random =
     (let base = backoff_base (failures r)
      in min (base + int random mod (base div 5 + 1)) (backoff_cap now expiry))"

lemma retry_failed_delay:
  "next_at (retry_failed r now expiry random) = i64_saturating_add now (retry_delay r now expiry random)"
  by (simp add: retry_failed_def retry_delay_def Let_def)

lemma retry_delay_bounds:
  "5 \<le> retry_delay r now expiry random" "retry_delay r now expiry random \<le> 86400"
  "min (backoff_base (failures r)) (backoff_cap now expiry) \<le> retry_delay r now expiry random"
  "retry_delay r now expiry random \<le> backoff_base (failures r) + backoff_base (failures r) div 5"
proof -
  let ?b = "backoff_base (failures r)"
  define j where "j = int random mod (?b div 5 + 1)"
  have "0 < ?b div 5 + 1" using backoff_base_bounds [of "failures r"] by linarith
  then have "0 \<le> j" "j < ?b div 5 + 1"
    unfolding j_def by (rule pos_mod_sign, rule pos_mod_bound)
  moreover have "retry_delay r now expiry random = min (?b + j) (backoff_cap now expiry)"
    by (simp add: retry_delay_def Let_def j_def)
  ultimately show "5 \<le> retry_delay r now expiry random" "retry_delay r now expiry random \<le> 86400"
    "min ?b (backoff_cap now expiry) \<le> retry_delay r now expiry random"
    "retry_delay r now expiry random \<le> ?b + ?b div 5"
    using backoff_base_bounds [of "failures r"] backoff_cap_bounds [of now expiry] by linarith+
qed

section \<open>Properties\<close>

text \<open>
  A failed issuance is retried neither at once nor never. While the clock is more than a day
  from the end of the \<^verbatim>\<open>i64\<close> range, the next attempt is at least 5 and at most 86400 seconds
  away for every failure count, every random draw and every expiry, a past one included;
  without an expiry it lies within a fifth of the exponential base above that base, and with
  one at most a third of the remaining lifetime away (or 5 seconds).
\<close>

lemma retry_failed_window:
  assumes "i64_ok now" "now \<le> i64_max - 86400"
  shows "now + 5 \<le> next_at (retry_failed r now expiry random) \<and>
    next_at (retry_failed r now expiry random) \<le> now + 86400 \<and>
    (expiry = None \<longrightarrow> now + backoff_base (failures r) \<le> next_at (retry_failed r now expiry random) \<and>
      next_at (retry_failed r now expiry random)
        \<le> now + backoff_base (failures r) + backoff_base (failures r) div 5) \<and>
    (\<forall>e. expiry = Some e \<and> i64_ok e \<and> now \<le> e \<and> 0 \<le> now \<longrightarrow>
      next_at (retry_failed r now expiry random) \<le> now + max 5 ((e - now) div 3))"
proof -
  let ?d = "retry_delay r now expiry random"
  note d = retry_delay_bounds [of r now expiry random]
  have n: "next_at (retry_failed r now expiry random) = now + ?d"
    using d assms by (simp add: retry_failed_delay i64_saturating_add_def i64_bounds)
  have none: "backoff_base (failures r) \<le> ?d" if "expiry = None"
    using d that backoff_base_bounds [of "failures r"] by (simp add: backoff_cap_def)
  have some: "?d \<le> max 5 ((e - now) div 3)" if "expiry = Some e" "i64_ok e" "now \<le> e" "0 \<le> now" for e
  proof -
    have "i64_saturating_sub e now = e - now"
      using that by (simp add: i64_saturating_sub_def i64_bounds)
    then have "backoff_cap now expiry \<le> max 5 ((e - now) div 3)"
      using that by (auto simp: backoff_cap_def signed_divide_int_def sgn_if)
    then show ?thesis by (auto simp: retry_delay_def Let_def)
  qed
  show ?thesis unfolding n using d none some by auto
qed

text \<open>
  Starting an attempt reserves its own time. After \<^verbatim>\<open>begin\<close> the domain is not ready before
  the attempt's timeout has passed, so a crash during issuance cannot place a second order, and
  it is ready again a day (or the timeout, if longer) later; the failure count grows by one
  until it saturates.
\<close>

lemma retry_begin_reserves:
  assumes "i64_ok now" "0 \<le> timeout" "now + max timeout 86400 \<le> i64_max"
  shows "(\<forall>t < now + timeout. \<not> retry_ready (retry_begin r now expiry timeout random) t) \<and>
    retry_ready (retry_begin r now expiry timeout random) (now + max timeout 86400) \<and>
    failures (retry_begin r now expiry timeout random) = min (failures r + 1) (2 ^ 32 - 1)"
proof -
  let ?r = "r\<lparr>failures := saturating_add 32 (failures r) 1\<rparr>"
  note d = retry_delay_bounds [of ?r now expiry random]
  have "next_at (retry_failed ?r now expiry random) = now + retry_delay ?r now expiry random"
    using d assms by (simp add: retry_failed_delay i64_saturating_add_def i64_bounds)
  moreover have "i64_saturating_add now timeout = now + timeout"
    using assms by (simp add: i64_saturating_add_def i64_bounds)
  ultimately have "next_at (retry_begin r now expiry timeout random)
      = max (now + retry_delay ?r now expiry random) (now + timeout)"
    by (simp add: retry_begin_def Let_def)
  then have n: "next_at (retry_begin r now expiry timeout random)
      = now + max (retry_delay ?r now expiry random) timeout"
    by simp
  show ?thesis
  proof (intro conjI allI impI)
    show "\<not> retry_ready (retry_begin r now expiry timeout random) t" if "t < now + timeout" for t
      using that unfolding retry_ready_def n by linarith
    show "retry_ready (retry_begin r now expiry timeout random) (now + max timeout 86400)"
      using d(2) unfolding retry_ready_def n by linarith
    show "failures (retry_begin r now expiry timeout random) = min (failures r + 1) (2 ^ 32 - 1)"
      by (simp add: retry_begin_def retry_failed_def Let_def saturating_add_def)
  qed
qed

text \<open>
  Repeated failures back off exponentially. Every failure doubles the base delay until it
  reaches a day.
\<close>

lemma retry_backs_off:
  assumes "0 < failures r" "failures r < 2 ^ 32 - 1"
  shows "backoff_base (failures (retry_begin r now expiry timeout random))
    = min (2 * backoff_base (failures r)) 86400"
  using assms backoff_base_doubles [of "failures r"]
  by (simp add: retry_begin_def retry_failed_def Let_def saturating_add_def)

section \<open>Witnesses\<close>

end
