(* ===== verification/Automation.thy ===== *)
theory Automation
  imports Certificates Retry Service "HOL-Library.Product_Lexorder"
begin

text \<open>
  The background service: \<^verbatim>\<open>automation.rs\<close>. One iteration of \<^verbatim>\<open>certificate_loop\<close> is a function on the
  loop's variables and the shared tables: the result of a worker or a tick, the removal of sites that
  are gone, the loading and the saving of certificates, and the scheduling of new requests to the CA.
  An iteration reads the clock and draws random bytes in many places, and writes files in many; the
  readings and the failures are parameters by place. The tasks of the \<^verbatim>\<open>JoinSet\<close> are the identifiers
  that have not been joined, an aborted task is one of them until it is joined. The order in which a
  \<^verbatim>\<open>HashMap\<close> is walked does not matter, since each entry concerns its own domain: it is walked in order.

  What the ACME client answers is a parameter; the cooldown it imposes is that of \<^verbatim>\<open>acme_http.rs\<close>.
  \<^verbatim>\<open>watch_config\<close> and \<^verbatim>\<open>manage_payouts\<close> are the other loops with a state.
\<close>

section \<open>The state of the certificate loop\<close>

type_synonym ('x, 'k) issued = "pem \<times> ('x, 'k) certificate"

record ('x, 'k) automation =
  au_certificates :: "(string, ('x, 'k) certificate) fmap"
  au_cooldown :: cooldown
  au_retries :: retries
  au_account :: bool
  au_credentials :: "string option"
  au_loaded :: "string fset"
  au_jobs :: "nat fset"
  au_active :: "(string, nat) fmap"
  au_pending :: "(string, ('x, 'k) issued) fmap"
  au_save_at :: int

record ('x, 'k) cert_ext =
  x_ops :: "('x, 'k) x509_ops"
  retries_to_json :: "retries \<Rightarrow> string option"
  retries_from_json :: "string \<Rightarrow> retries option"
  pem_to_json :: "pem \<Rightarrow> string option"
  pem_from_json :: "string \<Rightarrow> pem option"
  until_to_json :: "int \<Rightarrow> string option"
  until_from_json :: "string \<Rightarrow> int option"
  account_to_json :: "string \<Rightarrow> string option"
  account_from_json :: "string \<Rightarrow> string option"

datatype place = Worker_failed | Save_due | Save_next | Installing string | Cooling | Account_ready | Account_still_ready | Renewing string
  | Retry_ready string | Account_begin | Account_load | Account_failed | Domain_begin string
  | Joined | Saving_account | Clearing | Persisting_cooldown | Persisting | Account_end

datatype ('x, 'k) job_event = Tick | Finished nat "('x, 'k) issued option" | Stopped_worker nat

text \<open>\<open>le_restores\<close>: whether an account could be restored from its credentials; \<open>le_created\<close>: the credentials
  of a new account, \<open>None\<close> when the request fails or times out; \<open>le_defer\<close>: a pause the CA asked for meanwhile.\<close>

record ('x, 'k) loop_env =
  le_event :: "('x, 'k) job_event"
  le_domains :: "string fset"
  le_now :: "place \<Rightarrow> int"
  le_fails :: "place \<Rightarrow> fs_call \<Rightarrow> bool"
  le_random :: "place \<Rightarrow> nat"
  le_defer :: "int option"
  le_restores :: bool
  le_created :: "string option"
  le_task :: "string \<Rightarrow> nat"

abbreviation au_dir :: "('x, 'k) automation \<Rightarrow> (string, string) fmap" where
  "au_dir a \<equiv> cooldown_dir (au_cooldown a)"

definition set_dir :: "(string, string) fmap \<Rightarrow> ('x, 'k) automation \<Rightarrow> ('x, 'k) automation" where
  "set_dir dir a = a\<lparr>au_cooldown := (au_cooldown a)\<lparr>cooldown_dir := dir\<rparr>\<rparr>"

definition expiry_of :: "('x, 'k) automation \<Rightarrow> string \<Rightarrow> int option" where
  "expiry_of a domain = map_option not_after (fmlookup (au_certificates a) domain)"

definition write_retries ::
  "('x, 'k) cert_ext \<Rightarrow> ('x, 'k) loop_env \<Rightarrow> place \<Rightarrow> ('x, 'k) automation \<Rightarrow> (storage_error + unit) \<times> ('x, 'k) automation" where
  "write_retries x env at a =
     (case storage_write (le_fails env at) (retries_to_json x) (au_dir a) ''retries.json'' (au_retries a) of
        (r, dir) \<Rightarrow> (r, set_dir dir a))"

definition domain_retry :: "retries \<Rightarrow> string \<Rightarrow> retry" where
  "domain_retry rs domain = (case fmlookup (domain_retries rs) domain of Some r \<Rightarrow> r | None \<Rightarrow> retry_default)"

definition set_domain_retry :: "string \<Rightarrow> retry \<Rightarrow> ('x, 'k) automation \<Rightarrow> ('x, 'k) automation" where
  "set_domain_retry domain r a =
     a\<lparr>au_retries := (au_retries a)\<lparr>domain_retries := fmupd domain r (domain_retries (au_retries a))\<rparr>\<rparr>"

section \<open>Workers\<close>

definition worker_of :: "(string, nat) fmap \<Rightarrow> nat \<Rightarrow> string option" where
  "worker_of active i = find (\<lambda>domain. fmlookup active domain = Some i) (sorted_list_of_fset (fmdom active))"

definition workers_remove :: "nat \<Rightarrow> ('x, 'k) automation \<Rightarrow> string option \<times> ('x, 'k) automation" where
  "workers_remove i a =
     (case worker_of (au_active a) i of
        None \<Rightarrow> (None, a)
      | Some domain \<Rightarrow> (Some domain, a\<lparr>au_active := fmdrop domain (au_active a)\<rparr>))"

definition workers_spawn :: "string \<Rightarrow> nat \<Rightarrow> ('x, 'k) automation \<Rightarrow> ('x, 'k) automation" where
  "workers_spawn domain i a = a\<lparr>au_jobs := finsert i (au_jobs a), au_active := fmupd domain i (au_active a)\<rparr>"

definition workers_retain :: "string fset \<Rightarrow> ('x, 'k) automation \<Rightarrow> ('x, 'k) automation" where
  "workers_retain domains a = a\<lparr>au_active := fmfilter (\<lambda>domain. domain |\<in>| domains) (au_active a)\<rparr>"

definition pending_parse :: "('x, 'k) x509_ops \<Rightarrow> int \<Rightarrow> string \<Rightarrow> pem \<Rightarrow> ('x, 'k) issued option" where
  "pending_parse ops now domain p =
     (case certificate_parse ops domain p of
        Inl _ \<Rightarrow> None
      | Inr cert \<Rightarrow> if valid_at cert now then Some (p, cert) else None)"

definition pending_install ::
  "('x, 'k) cert_ext \<Rightarrow> (fs_call \<Rightarrow> bool) \<Rightarrow> string \<Rightarrow> ('x, 'k) issued \<Rightarrow> ('x, 'k) automation \<Rightarrow> bool \<times> ('x, 'k) automation" where
  "pending_install x fails domain issued a =
     (case storage_write fails (pem_to_json x) (au_dir a) (domain @ ''.json'') (fst issued) of
        (Inl _, dir) \<Rightarrow> (False, set_dir dir a)
      | (Inr _, dir) \<Rightarrow> (True, (set_dir dir a)\<lparr>au_certificates := fmupd domain (snd issued) (au_certificates a)\<rparr>))"

definition worker_failed :: "('x, 'k) loop_env \<Rightarrow> string \<Rightarrow> ('x, 'k) automation \<Rightarrow> ('x, 'k) automation" where
  "worker_failed env domain a =
     set_domain_retry domain
       (retry_failed (domain_retry (au_retries a) domain) (le_now env Worker_failed) (expiry_of a domain) (le_random env Worker_failed)) a"

definition join_worker :: "('x, 'k) cert_ext \<Rightarrow> ('x, 'k) loop_env \<Rightarrow> ('x, 'k) automation \<Rightarrow> ('x, 'k) automation" where
  "join_worker x env a =
     (case le_event env of
        Tick \<Rightarrow> a
      | Finished i result \<Rightarrow>
          (case workers_remove i (a\<lparr>au_jobs := au_jobs a |-| {|i|}\<rparr>) of
             (None, a1) \<Rightarrow> snd (write_retries x env Joined a1)
           | (Some domain, a1) \<Rightarrow>
               snd (write_retries x env Joined
                 (case result of
                    Some issued \<Rightarrow> a1\<lparr>au_pending := fmupd domain issued (au_pending a1)\<rparr>
                  | None \<Rightarrow> worker_failed env domain a1)))
      | Stopped_worker i \<Rightarrow>
          (case workers_remove i (a\<lparr>au_jobs := au_jobs a |-| {|i|}\<rparr>) of
             (None, a1) \<Rightarrow> snd (write_retries x env Joined a1)
           | (Some domain, a1) \<Rightarrow> snd (write_retries x env Joined (worker_failed env domain a1))))"

section \<open>An iteration\<close>

definition retain_sites :: "string fset \<Rightarrow> ('x, 'k) automation \<Rightarrow> ('x, 'k) automation" where
  "retain_sites domains a =
     (workers_retain domains a)\<lparr>
       au_loaded := ffilter (\<lambda>domain. domain |\<in>| domains) (au_loaded a),
       au_pending := fmfilter (\<lambda>domain. domain |\<in>| domains) (au_pending a),
       au_certificates := fmfilter (\<lambda>domain. domain |\<in>| domains) (au_certificates a)\<rparr>"

definition load_certificate ::
  "('x, 'k) cert_ext \<Rightarrow> (place \<Rightarrow> fs_call \<Rightarrow> bool) \<Rightarrow> string \<Rightarrow> ('x, 'k) automation \<Rightarrow> ('x, 'k) automation" where
  "load_certificate x fails domain a =
     (if domain |\<in>| au_loaded a then a
      else (let a1 = a\<lparr>au_loaded := finsert domain (au_loaded a)\<rparr>
            in if fmlookup (au_certificates a) domain \<noteq> None then a1
               else (case storage_certificate (x_ops x) (fails (Installing domain)) (pem_from_json x) (au_dir a) domain of
                       None \<Rightarrow> a1
                     | Some cert \<Rightarrow> a1\<lparr>au_certificates := fmupd domain cert (au_certificates a)\<rparr>)))"

definition load_certificates ::
  "('x, 'k) cert_ext \<Rightarrow> ('x, 'k) loop_env \<Rightarrow> ('x, 'k) automation \<Rightarrow> ('x, 'k) automation" where
  "load_certificates x env a = fold (load_certificate x (le_fails env)) (sorted_list_of_fset (le_domains env)) a"

definition save_credentials :: "('x, 'k) cert_ext \<Rightarrow> ('x, 'k) loop_env \<Rightarrow> ('x, 'k) automation \<Rightarrow> ('x, 'k) automation" where
  "save_credentials x env a =
     (case au_credentials a of
        None \<Rightarrow> a
      | Some v \<Rightarrow>
          (case storage_write (le_fails env Saving_account) (account_to_json x) (au_dir a) ''account.json'' v of
             (Inl _, dir) \<Rightarrow> set_dir dir a
           | (Inr _, dir) \<Rightarrow> (set_dir dir a)\<lparr>au_credentials := None\<rparr>))"

definition save_pending ::
  "('x, 'k) cert_ext \<Rightarrow> ('x, 'k) loop_env \<Rightarrow> string \<Rightarrow> bool \<times> ('x, 'k) automation \<Rightarrow> bool \<times> ('x, 'k) automation" where
  "save_pending x env domain = (\<lambda>(saved, a).
     case fmlookup (au_pending a) domain of
       None \<Rightarrow> (saved, a)
     | Some issued \<Rightarrow>
         if \<not> valid_at (snd issued) (le_now env (Installing domain))
         then (saved, a\<lparr>au_pending := fmdrop domain (au_pending a)\<rparr>)
         else (case pending_install x (le_fails env (Installing domain)) domain issued a of
                 (False, a1) \<Rightarrow> (saved, a1)
               | (True, a1) \<Rightarrow>
                   (True, a1\<lparr>au_pending := fmdrop domain (au_pending a1),
                      au_retries := (au_retries a1)\<lparr>domain_retries := fmdrop domain (domain_retries (au_retries a1))\<rparr>\<rparr>)))"

definition save_material :: "('x, 'k) cert_ext \<Rightarrow> ('x, 'k) loop_env \<Rightarrow> ('x, 'k) automation \<Rightarrow> ('x, 'k) automation" where
  "save_material x env a =
     (if le_now env Save_due < au_save_at a then a
      else (let a1 = save_credentials x env (a\<lparr>au_save_at := i64_wrap (le_now env Save_next + 5)\<rparr>)
            in case fold (save_pending x env) (sorted_list_of_fset (fmdom (au_pending a1))) (False, a1) of
                 (False, a2) \<Rightarrow> a2
               | (True, a2) \<Rightarrow> snd (write_retries x env Clearing a2)))"

definition needs_certificate :: "('x, 'k) loop_env \<Rightarrow> ('x, 'k) automation \<Rightarrow> string \<Rightarrow> bool" where
  "needs_certificate env a domain \<longleftrightarrow>
     fmlookup (au_active a) domain = None \<and> fmlookup (au_pending a) domain = None
     \<and> (case fmlookup (au_certificates a) domain of None \<Rightarrow> True | Some cert \<Rightarrow> needs_renewal cert (le_now env (Renewing domain)))
     \<and> (case fmlookup (domain_retries (au_retries a)) domain of None \<Rightarrow> True | Some r \<Rightarrow> retry_ready r (le_now env (Retry_ready domain)))"

definition needed :: "('x, 'k) loop_env \<Rightarrow> ('x, 'k) automation \<Rightarrow> string list" where
  "needed env a =
     sort_key (\<lambda>domain. (case expiry_of a domain of Some e \<Rightarrow> e | None \<Rightarrow> 0, domain))
       (filter (needs_certificate env a) (sorted_list_of_fset (le_domains env)))"

fun earliest :: "int option list \<Rightarrow> int option" where
  "earliest [] = None"
| "earliest (None # es) = earliest es"
| "earliest (Some e # es) = (case earliest es of None \<Rightarrow> Some e | Some f \<Rightarrow> Some (min e f))"

definition persist_schedule ::
  "('x, 'k) cert_ext \<Rightarrow> ('x, 'k) loop_env \<Rightarrow> ('x, 'k) automation \<Rightarrow> (storage_error + unit) \<times> ('x, 'k) automation" where
  "persist_schedule x env a =
     (case cooldown_persist (le_fails env Persisting_cooldown) (until_to_json x) (au_cooldown a) of
        (Inl e, c) \<Rightarrow> (Inl e, a\<lparr>au_cooldown := c\<rparr>)
      | (Inr _, c) \<Rightarrow> write_retries x env Persisting (a\<lparr>au_cooldown := c\<rparr>))"

definition ca_pause :: "('x, 'k) cert_ext \<Rightarrow> ('x, 'k) loop_env \<Rightarrow> ('x, 'k) automation \<Rightarrow> ('x, 'k) automation" where
  "ca_pause x env a =
     (case le_defer env of
        None \<Rightarrow> a
      | Some deadline \<Rightarrow> a\<lparr>au_cooldown := snd (cooldown_defer (le_fails env Cooling) (until_to_json x) (au_cooldown a) deadline)\<rparr>)"

text \<open>\<^verbatim>\<open>account\<close>: stored credentials are restored, and a new account is created only when none are stored.\<close>

definition acme_account :: "('x, 'k) cert_ext \<Rightarrow> ('x, 'k) loop_env \<Rightarrow> ('x, 'k) automation \<Rightarrow> string option option" where
  "acme_account x env a =
     (case storage_read (le_fails env Account_load) (account_from_json x) (au_dir a) ''account.json'' of
        Inl _ \<Rightarrow> None
      | Inr (Some credentials) \<Rightarrow> if le_restores env then Some None else None
      | Inr None \<Rightarrow> map_option Some (le_created env))"

definition account_answered ::
  "('x, 'k) loop_env \<Rightarrow> int option \<Rightarrow> string option option \<Rightarrow> ('x, 'k) automation \<Rightarrow> ('x, 'k) automation" where
  "account_answered env expiry answer a =
     (case answer of
        Some saved \<Rightarrow> a\<lparr>au_account := True, au_credentials := saved,
          au_retries := (au_retries a)\<lparr>account_retry := retry_default\<rparr>, au_save_at := 0\<rparr>
      | None \<Rightarrow> a\<lparr>au_retries := (au_retries a)\<lparr>account_retry :=
          retry_failed (account_retry (au_retries a)) (le_now env Account_failed) expiry (le_random env Account_failed)\<rparr>\<rparr>)"

definition open_account ::
  "('x, 'k) cert_ext \<Rightarrow> ('x, 'k) loop_env \<Rightarrow> string list \<Rightarrow> ('x, 'k) automation \<Rightarrow> ('x, 'k) automation" where
  "open_account x env domains a =
     (let expiry = earliest (map (expiry_of a) domains);
          a1 = a\<lparr>au_retries := (au_retries a)\<lparr>account_retry :=
            retry_begin (account_retry (au_retries a)) (le_now env Account_begin) expiry 30 (le_random env Account_begin)\<rparr>\<rparr>
      in case write_retries x env Account_begin a1 of
           (Inl _, a2) \<Rightarrow> a2
         | (Inr _, a2) \<Rightarrow>
             snd (write_retries x env Account_end (account_answered env expiry (acme_account x env a2) (ca_pause x env a2))))"

fun spawn_workers ::
  "('x, 'k) cert_ext \<Rightarrow> ('x, 'k) loop_env \<Rightarrow> string list \<Rightarrow> ('x, 'k) automation \<Rightarrow> ('x, 'k) automation" where
  "spawn_workers x env [] a = a"
| "spawn_workers x env (domain # domains) a =
     (case write_retries x env (Domain_begin domain)
         (set_domain_retry domain
           (retry_begin (domain_retry (au_retries a) domain) (le_now env (Domain_begin domain)) (expiry_of a domain) 180
             (le_random env (Domain_begin domain))) a) of
        (Inl _, a1) \<Rightarrow> a1
      | (Inr _, a1) \<Rightarrow> spawn_workers x env domains (workers_spawn domain (le_task env domain) a1))"

definition schedule :: "('x, 'k) cert_ext \<Rightarrow> ('x, 'k) loop_env \<Rightarrow> ('x, 'k) automation \<Rightarrow> ('x, 'k) automation" where
  "schedule x env a =
     (if au_credentials a \<noteq> None \<or> \<not> cooldown_ready (au_cooldown a) (le_now env Cooling) \<or> 4 \<le> fcard (au_jobs a) then a
      else if \<not> au_account a \<and> \<not> retry_ready (account_retry (au_retries a)) (le_now env Account_ready) then a
      else if needed env a = [] then a
      else (case persist_schedule x env a of
              (Inl _, a1) \<Rightarrow> a1
            | (Inr _, a1) \<Rightarrow>
                if \<not> au_account a1 then
                  (if retry_ready (account_retry (au_retries a1)) (le_now env Account_still_ready) then open_account x env (needed env a) a1 else a1)
                else spawn_workers x env (take (4 - fcard (au_jobs a1)) (needed env a)) a1))"

definition iteration :: "('x, 'k) cert_ext \<Rightarrow> ('x, 'k) loop_env \<Rightarrow> ('x, 'k) automation \<Rightarrow> ('x, 'k) automation" where
  "iteration x env a =
     schedule x env (save_material x env (load_certificates x env (retain_sites (le_domains env) (join_worker x env a))))"

definition loop_start ::
  "('x, 'k) cert_ext \<Rightarrow> (place \<Rightarrow> fs_call \<Rightarrow> bool) \<Rightarrow> (string, ('x, 'k) certificate) fmap \<Rightarrow> (string, string) fmap
     \<Rightarrow> storage_error + ('x, 'k) automation" where
  "loop_start x fails certificates dir =
     bind_result (cooldown_load (fails Cooling) (until_from_json x) dir) (\<lambda>c.
     bind_result (storage_read (fails Joined) (retries_from_json x) dir ''retries.json'') (\<lambda>rs.
     Inr \<lparr>au_certificates = certificates, au_cooldown = c, au_retries = (case rs of Some r \<Rightarrow> r | None \<Rightarrow> retries_default),
       au_account = False, au_credentials = None, au_loaded = {||}, au_jobs = {||}, au_active = fmempty, au_pending = fmempty,
       au_save_at = 0\<rparr>))"

section \<open>Workers are bounded\<close>

lemma set_dir_simps [simp]:
  "au_certificates (set_dir dir a) = au_certificates a" "au_retries (set_dir dir a) = au_retries a"
  "au_account (set_dir dir a) = au_account a" "au_credentials (set_dir dir a) = au_credentials a"
  "au_loaded (set_dir dir a) = au_loaded a" "au_jobs (set_dir dir a) = au_jobs a" "au_active (set_dir dir a) = au_active a"
  "au_pending (set_dir dir a) = au_pending a" "au_save_at (set_dir dir a) = au_save_at a"
  "cooldown_dir (au_cooldown (set_dir dir a)) = dir" "until_at (au_cooldown (set_dir dir a)) = until_at (au_cooldown a)"
  by (simp_all add: set_dir_def)

lemma write_retries_set_dir: "\<exists>dir. snd (write_retries x env at a) = set_dir dir a"
  by (auto simp: write_retries_def split: prod.splits)

lemma set_domain_retry_simps [simp]:
  "au_certificates (set_domain_retry d r a) = au_certificates a" "au_cooldown (set_domain_retry d r a) = au_cooldown a"
  "au_account (set_domain_retry d r a) = au_account a" "au_credentials (set_domain_retry d r a) = au_credentials a"
  "au_jobs (set_domain_retry d r a) = au_jobs a" "au_active (set_domain_retry d r a) = au_active a"
  "au_pending (set_domain_retry d r a) = au_pending a"
  by (simp_all add: set_domain_retry_def)

text \<open>The tables that say who works on what.\<close>

definition workload :: "('x, 'k) automation \<Rightarrow> nat fset \<times> (string, nat) fmap \<times> (string, ('x, 'k) issued) fmap" where
  "workload a = (au_jobs a, au_active a, au_pending a)"

lemma write_retries_workload [simp]: "workload (snd (write_retries x env at a)) = workload a"
  using write_retries_set_dir [of x env at a] by (auto simp: workload_def)

definition loop_ok :: "('x, 'k) automation \<Rightarrow> bool" where
  "loop_ok a \<longleftrightarrow> fcard (au_jobs a) \<le> 4
     \<and> (\<forall>d i. fmlookup (au_active a) d = Some i \<longrightarrow> i |\<in>| au_jobs a)
     \<and> (\<forall>d d' i. fmlookup (au_active a) d = Some i \<and> fmlookup (au_active a) d' = Some i \<longrightarrow> d = d')
     \<and> (\<forall>d. fmlookup (au_active a) d = None \<or> fmlookup (au_pending a) d = None)"

lemma loop_ok_workload: "workload a = workload b \<Longrightarrow> loop_ok a = loop_ok b"
  by (simp add: workload_def loop_ok_def)

lemma worker_of_Some: "worker_of active i = Some d \<Longrightarrow> fmlookup active d = Some i"
  by (auto simp: worker_of_def find_Some_iff)

lemma worker_of_None: "worker_of active i = None \<Longrightarrow> fmlookup active d \<noteq> Some i"
  by (auto simp: worker_of_def find_None_iff dest: fmdomI)

text \<open>When a task is joined, its worker is gone; if it brought a certificate, that is pending.\<close>

definition joined_task :: "('x, 'k) job_event \<Rightarrow> (nat \<times> ('x, 'k) issued option) option" where
  "joined_task e = (case e of Tick \<Rightarrow> None | Finished i r \<Rightarrow> Some (i, r) | Stopped_worker i \<Rightarrow> Some (i, None))"

lemma join_worker_workload:
  "workload (join_worker x env a) =
     (case joined_task (le_event env) of
        None \<Rightarrow> workload a
      | Some (i, result) \<Rightarrow>
          (case worker_of (au_active a) i of
             None \<Rightarrow> (au_jobs a |-| {|i|}, au_active a, au_pending a)
           | Some d \<Rightarrow> (au_jobs a |-| {|i|}, fmdrop d (au_active a),
               case result of Some issued \<Rightarrow> fmupd d issued (au_pending a) | None \<Rightarrow> au_pending a)))"
  by (auto simp: join_worker_def joined_task_def workers_remove_def worker_failed_def split: job_event.splits option.splits)
    (auto simp: workload_def)

lemma join_worker_ok:
  assumes "loop_ok a"
  shows "loop_ok (join_worker x env a)"
proof (cases "joined_task (le_event env)")
  case None
  then show ?thesis using assms join_worker_workload [of x env a] loop_ok_workload by fastforce
next
  case (Some ir)
  obtain i result where ir: "ir = (i, result)" by force
  have card: "fcard (au_jobs a |-| {|i|}) \<le> 4"
    using assms by (meson fcard_mono fminus_fsubset le_trans loop_ok_def)
  show ?thesis
  proof (cases "worker_of (au_active a) i")
    case None
    then show ?thesis
      using assms card join_worker_workload [of x env a] worker_of_None [OF None]
      by (auto simp: loop_ok_def workload_def Some ir)
  next
    case w: (Some d)
    have "fmlookup (au_active a) d' = Some i \<Longrightarrow> d' = d" for d'
      using assms worker_of_Some [OF w] by (auto simp: loop_ok_def)
    then show ?thesis
      using assms card join_worker_workload [of x env a]
      by (auto simp: loop_ok_def workload_def Some ir w split: option.splits)
  qed
qed

lemma retain_sites_ok: "loop_ok a \<Longrightarrow> loop_ok (retain_sites domains a)"
  by (auto simp: loop_ok_def retain_sites_def workers_retain_def split: if_splits)

lemma fold_keeps: "(\<And>e b. e \<in> set es \<Longrightarrow> f (g e b) = f b) \<Longrightarrow> f (fold g es b) = f b"
  by (induction es arbitrary: b) simp_all

lemma load_certificates_workload [simp]: "workload (load_certificates x env a) = workload a"
  unfolding load_certificates_def
  by (rule fold_keeps) (auto simp: load_certificate_def workload_def Let_def split: option.splits)

lemma save_credentials_workload [simp]: "workload (save_credentials x env a) = workload a"
  by (auto simp: save_credentials_def workload_def split: option.splits prod.splits sum.splits)

section \<open>Issued material\<close>

lemma fold_inv: "(\<And>e b. e \<in> set es \<Longrightarrow> P b \<Longrightarrow> P (g e b)) \<Longrightarrow> P b \<Longrightarrow> P (fold g es b)"
  by (induction es arbitrary: b) simp_all

lemma storage_write_other:
  "storage_write fails to_json dir name v = (r, dir') \<Longrightarrow> other \<noteq> name \<Longrightarrow> fmlookup dir' other = fmlookup dir other"
  by (auto simp: storage_write_def split: if_splits option.splits)

lemma storage_write_done:
  "storage_write fails to_json dir name v = (Inr u, dir') \<Longrightarrow> \<exists>bytes. to_json v = Some bytes \<and> fmlookup dir' name = Some bytes"
  by (auto simp: storage_write_def split: if_splits option.splits)

text \<open>What has become of an issued certificate: it is still pending, it has expired, or it is served and stored.\<close>

definition material_kept :: "('x, 'k) cert_ext \<Rightarrow> ('x, 'k) loop_env \<Rightarrow> string \<Rightarrow> ('x, 'k) issued \<Rightarrow> ('x, 'k) automation \<Rightarrow> bool" where
  "material_kept x env d issued a \<longleftrightarrow>
     fmlookup (au_pending a) d = Some issued
     \<or> fmlookup (au_pending a) d = None
       \<and> (\<not> valid_at (snd issued) (le_now env (Installing d))
          \<or> fmlookup (au_certificates a) d = Some (snd issued)
            \<and> (\<exists>bytes. pem_to_json x (fst issued) = Some bytes \<and> fmlookup (au_dir a) (d @ ''.json'') = Some bytes))"

text \<open>Two states that agree on a domain: its pending certificate, the served one and the stored file.\<close>

definition agree :: "string \<Rightarrow> ('x, 'k) automation \<Rightarrow> ('x, 'k) automation \<Rightarrow> bool" where
  "agree d a b \<longleftrightarrow> fmlookup (au_pending a) d = fmlookup (au_pending b) d
     \<and> fmlookup (au_certificates a) d = fmlookup (au_certificates b) d
     \<and> fmlookup (au_dir a) (d @ ''.json'') = fmlookup (au_dir b) (d @ ''.json'')"

lemma agree_refl [simp]: "agree d a a"
  by (simp add: agree_def)

lemma agree_trans: "agree d a b \<Longrightarrow> agree d b c \<Longrightarrow> agree d a c"
  by (simp add: agree_def)

lemma agree_kept: "agree d a b \<Longrightarrow> material_kept x env d issued a = material_kept x env d issued b"
  by (simp add: agree_def material_kept_def)

lemma save_pending_other: "e \<noteq> d \<Longrightarrow> agree d a (snd (save_pending x env e (b, a)))"
  by (auto simp: save_pending_def pending_install_def agree_def split: option.splits prod.splits sum.splits bool.splits
      dest: storage_write_other [where other = "d @ ''.json''"])

lemma save_pending_self:
  assumes "material_kept x env d issued a"
  shows "material_kept x env d issued (snd (save_pending x env d (b, a)))"
proof (cases "fmlookup (au_pending a) d")
  case None
  then show ?thesis using assms by (simp add: save_pending_def)
next
  case (Some i)
  then have i: "i = issued" using assms by (auto simp: material_kept_def)
  obtain r dir where w: "storage_write (le_fails env (Installing d)) (pem_to_json x) (au_dir a) (d @ ''.json'') (fst issued) = (r, dir)"
    by force
  show ?thesis
    using Some i w storage_write_done [of _ _ _ "d @ ''.json''" "fst issued" "()" dir]
    by (cases r) (auto simp: save_pending_def pending_install_def material_kept_def)
qed

lemma save_pending_keeps:
  "material_kept x env d issued (snd ba) \<Longrightarrow> material_kept x env d issued (snd (save_pending x env e ba))"
  by (cases ba; cases "e = d") (auto intro: save_pending_self simp: agree_kept [OF save_pending_other, symmetric])

lemma save_pending_submap:
  "fmlookup (au_pending (snd (save_pending x env e ba))) d \<in> {None, fmlookup (au_pending (snd ba)) d}
   \<and> au_jobs (snd (save_pending x env e ba)) = au_jobs (snd ba) \<and> au_active (snd (save_pending x env e ba)) = au_active (snd ba)
   \<and> au_account (snd (save_pending x env e ba)) = au_account (snd ba) \<and> au_credentials (snd (save_pending x env e ba)) = au_credentials (snd ba)"
  by (cases ba) (auto simp: save_pending_def pending_install_def split: option.splits prod.splits sum.splits bool.splits)

text \<open>The names of the loop's own files have no dot before the suffix; the domain of an HTTPS site has one.\<close>

lemma own_files:
  assumes "CHR ''.'' \<in> set d"
  shows "d @ ''.json'' \<noteq> ''retries.json''" "d @ ''.json'' \<noteq> ''account.json''" "d @ ''.json'' \<noteq> ''ca-retry.json''"
proof -
  have "d @ ''.json'' \<noteq> f @ ''.json''" if "CHR ''.'' \<notin> set f" for f using assms that by auto
  from this [of "''retries''"] this [of "''account''"] this [of "''ca-retry''"]
  show "d @ ''.json'' \<noteq> ''retries.json''" "d @ ''.json'' \<noteq> ''account.json''" "d @ ''.json'' \<noteq> ''ca-retry.json''" by simp_all
qed

lemma write_retries_agree: "CHR ''.'' \<in> set d \<Longrightarrow> agree d a (snd (write_retries x env at a))"
  using own_files(1) [of d]
  by (auto simp: write_retries_def agree_def split: prod.splits dest: storage_write_other [where other = "d @ ''.json''"])

lemma save_credentials_agree: "CHR ''.'' \<in> set d \<Longrightarrow> agree d a (save_credentials x env a)"
  using own_files(2) [of d]
  by (auto simp: save_credentials_def agree_def split: option.splits prod.splits sum.splits
      dest: storage_write_other [where other = "d @ ''.json''"])

text \<open>What every part of the saving keeps, the saving keeps.\<close>

lemma save_material_parts:
  assumes "P a" "\<And>b t. P b \<Longrightarrow> P (b\<lparr>au_save_at := t\<rparr>)" "\<And>b. P b \<Longrightarrow> P (save_credentials x env b)"
    and "\<And>e c. e |\<in>| fmdom (au_pending a) \<Longrightarrow> P (snd c) \<Longrightarrow> P (snd (save_pending x env e c))" "\<And>b. P b \<Longrightarrow> P (snd (write_retries x env Clearing b))"
  shows "P (save_material x env a)"
proof -
  define a1 where "a1 = save_credentials x env (a\<lparr>au_save_at := i64_wrap (le_now env Save_next + 5)\<rparr>)"
  define out where "out = fold (save_pending x env) (sorted_list_of_fset (fmdom (au_pending a1))) (False, a1)"
  have "au_pending a1 = au_pending a"
    using save_credentials_workload [of x env "a\<lparr>au_save_at := i64_wrap (le_now env Save_next + 5)\<rparr>"] by (simp add: a1_def workload_def)
  then have "P (snd out)" unfolding out_def
    by (intro fold_inv [where P = "\<lambda>b. P (snd b)"] assms(4)) (simp_all add: a1_def assms(1-3))
  moreover have "save_material x env a \<in> {a, snd out, snd (write_retries x env Clearing (snd out))}"
    unfolding save_material_def Let_def a1_def [symmetric] out_def [symmetric] by (cases out) (auto split: bool.splits)
  ultimately show ?thesis using assms(1,5) by auto
qed

lemma save_material_keeps:
  assumes "material_kept x env d issued a" "CHR ''.'' \<in> set d"
  shows "material_kept x env d issued (save_material x env a)"
proof (rule save_material_parts [where P = "material_kept x env d issued", OF assms(1)])
  show "material_kept x env d issued (b\<lparr>au_save_at := t\<rparr>)" if "material_kept x env d issued b" for b t
    using that by (simp add: material_kept_def)
  show "material_kept x env d issued (save_credentials x env b)" if "material_kept x env d issued b" for b
    using that agree_kept [OF save_credentials_agree [OF assms(2)]] by blast
  show "material_kept x env d issued (snd (write_retries x env Clearing b))" if "material_kept x env d issued b" for b
    using that agree_kept [OF write_retries_agree [OF assms(2)]] by blast
qed (rule save_pending_keeps)

text \<open>Scheduling writes the loop's own files and changes neither the pending nor the served certificates.\<close>

definition schedule_keeps :: "('x, 'k) automation \<Rightarrow> ('x, 'k) automation \<Rightarrow> bool" where
  "schedule_keeps a b \<longleftrightarrow> au_pending b = au_pending a \<and> au_certificates b = au_certificates a
     \<and> (\<forall>name. name \<noteq> ''retries.json'' \<and> name \<noteq> ''ca-retry.json'' \<longrightarrow> fmlookup (au_dir b) name = fmlookup (au_dir a) name)"

lemma schedule_keeps_refl [simp]: "schedule_keeps a a"
  by (simp add: schedule_keeps_def)

lemma schedule_keeps_trans: "schedule_keeps a b \<Longrightarrow> schedule_keeps b c \<Longrightarrow> schedule_keeps a c"
  by (simp add: schedule_keeps_def)

lemma write_retries_keeps: "schedule_keeps a (snd (write_retries x env at a))"
  by (auto simp: write_retries_def schedule_keeps_def split: prod.splits dest: storage_write_other)

lemma persist_schedule_keeps: "schedule_keeps a (snd (persist_schedule x env a))"
proof -
  obtain r dir where w: "storage_write (le_fails env Persisting_cooldown) (until_to_json x) (au_dir a) ''ca-retry.json'' (until_at (au_cooldown a)) = (r, dir)"
    by force
  define b where "b = a\<lparr>au_cooldown := (au_cooldown a)\<lparr>cooldown_dir := dir\<rparr>\<rparr>"
  have "schedule_keeps a b" using storage_write_other [OF w] by (simp add: b_def schedule_keeps_def)
  moreover have "snd (persist_schedule x env a) = b \<or> snd (persist_schedule x env a) = snd (write_retries x env Persisting b)"
    using w by (cases r) (simp_all add: persist_schedule_def cooldown_persist_def b_def)
  ultimately show ?thesis using write_retries_keeps schedule_keeps_trans by metis
qed

lemma ca_pause_keeps: "schedule_keeps a (ca_pause x env a)"
  by (auto simp: ca_pause_def cooldown_defer_def schedule_keeps_def Let_def split: option.splits prod.splits dest: storage_write_other)

lemma open_account_keeps: "schedule_keeps a (open_account x env domains a)"
proof -
  define a1 where "a1 = a\<lparr>au_retries := (au_retries a)\<lparr>account_retry := retry_begin (account_retry (au_retries a)) (le_now env Account_begin)
      (earliest (map (expiry_of a) domains)) 30 (le_random env Account_begin)\<rparr>\<rparr>"
  obtain r a2 where w: "write_retries x env Account_begin a1 = (r, a2)" by force
  have "schedule_keeps a a1" by (simp add: a1_def schedule_keeps_def)
  then have a2: "schedule_keeps a a2" using write_retries_keeps [of a1 x env Account_begin] schedule_keeps_trans w by fastforce
  then have a3: "schedule_keeps a (ca_pause x env a2)" using ca_pause_keeps schedule_keeps_trans by blast
  show ?thesis
  proof (cases r)
    case (Inl e)
    then show ?thesis using a2 w by (simp add: open_account_def a1_def [symmetric])
  next
    case (Inr u)
    then have "open_account x env domains a = snd (write_retries x env Account_end
        (account_answered env (earliest (map (expiry_of a) domains)) (acme_account x env a2) (ca_pause x env a2)))"
      using w by (simp add: open_account_def a1_def [symmetric])
    moreover have "schedule_keeps b (account_answered env e r b)" for e r b
      by (simp add: account_answered_def schedule_keeps_def split: option.splits)
    ultimately show ?thesis using a3 write_retries_keeps schedule_keeps_trans by metis
  qed
qed

lemma spawn_workers_keeps: "schedule_keeps a (spawn_workers x env domains a)"
proof (induction domains arbitrary: a)
  case (Cons d domains)
  define a1 where "a1 = set_domain_retry d (retry_begin (domain_retry (au_retries a) d) (le_now env (Domain_begin d)) (expiry_of a d) 180
      (le_random env (Domain_begin d))) a"
  obtain r a2 where w: "write_retries x env (Domain_begin d) a1 = (r, a2)" by force
  have "schedule_keeps a a1" by (simp add: a1_def schedule_keeps_def)
  then have a2: "schedule_keeps a a2" using write_retries_keeps [of a1 x env "Domain_begin d"] schedule_keeps_trans w by fastforce
  show ?case
  proof (cases r)
    case (Inr u)
    have "schedule_keeps a2 (workers_spawn d (le_task env d) a2)" by (simp add: workers_spawn_def schedule_keeps_def)
    then have "schedule_keeps a (spawn_workers x env domains (workers_spawn d (le_task env d) a2))"
      using a2 Cons schedule_keeps_trans by blast
    then show ?thesis using w Inr by (simp add: a1_def [symmetric])
  qed (use a2 w in \<open>simp add: a1_def [symmetric]\<close>)
qed simp

lemma schedule_keeps_all: "schedule_keeps a (schedule x env a)"
proof -
  obtain r a1 where p: "persist_schedule x env a = (r, a1)" by force
  have "schedule_keeps a a1" using persist_schedule_keeps [of a x env] p by simp
  then show ?thesis
    using p open_account_keeps spawn_workers_keeps schedule_keeps_trans
    by (simp add: schedule_def split: sum.splits) blast
qed

lemma schedule_keeps_agree: "CHR ''.'' \<in> set d \<Longrightarrow> schedule_keeps a b \<Longrightarrow> agree d a b"
  using own_files [of d] by (simp add: schedule_keeps_def agree_def)

section \<open>The loop\<close>

text \<open>Credentials that are not saved yet belong to the account in use.\<close>

definition loop_inv :: "('x, 'k) automation \<Rightarrow> bool" where
  "loop_inv a \<longleftrightarrow> loop_ok a \<and> (au_credentials a \<noteq> None \<longrightarrow> au_account a)"

lemma save_material_account:
  fixes a :: "('x, 'k) automation"
  shows "au_account (save_material x env a) = au_account a \<and> au_jobs (save_material x env a) = au_jobs a
   \<and> au_active (save_material x env a) = au_active a \<and> au_credentials (save_material x env a) \<in> {None, au_credentials a}
   \<and> fmlookup (au_pending (save_material x env a)) d \<in> {None, fmlookup (au_pending a) d}"
proof -
  define P where "P b \<longleftrightarrow> au_account b = au_account a \<and> au_jobs b = au_jobs a \<and> au_active b = au_active a
    \<and> au_credentials b \<in> {None, au_credentials a} \<and> fmlookup (au_pending b) d \<in> {None, fmlookup (au_pending a) d}"
    for b :: "('x, 'k) automation"
  have "P (save_material x env a)"
  proof (rule save_material_parts [where P = P])
    fix e and c :: "bool \<times> ('x, 'k) automation" assume "P (snd c)"
    then show "P (snd (save_pending x env e c))" using save_pending_submap [of x env e c d] by (auto simp: P_def)
  next
    fix b assume "P b"
    then show "P (snd (write_retries x env Clearing b))" by (simp add: P_def write_retries_def split: prod.splits)
  next
    fix b assume "P b"
    then show "P (save_credentials x env b)" by (auto simp: P_def save_credentials_def split: option.splits prod.splits sum.splits)
  qed (simp_all add: P_def)
  then show ?thesis by (simp add: P_def)
qed

lemma save_material_inv:
  assumes "loop_inv a"
  shows "loop_inv (save_material x env a)"
proof -
  note s = save_material_account [of x env a]
  have "fmlookup (au_active a) d = None \<or> fmlookup (au_pending (save_material x env a)) d = None" for d
    using assms s [of d] by (metis empty_iff insert_iff loop_inv_def loop_ok_def)
  moreover have "au_jobs (save_material x env a) = au_jobs a" "au_active (save_material x env a) = au_active a"
    "au_credentials (save_material x env a) \<noteq> None \<longrightarrow> au_account (save_material x env a)"
    using s assms by (auto simp: loop_inv_def)
  ultimately show ?thesis using assms unfolding loop_inv_def loop_ok_def by presburger
qed

definition fresh_tasks :: "('x, 'k) loop_env \<Rightarrow> nat fset \<Rightarrow> bool" where
  "fresh_tasks env jobs \<longleftrightarrow> inj (le_task env) \<and> (\<forall>d. le_task env d |\<notin>| jobs)"

lemma spawn_workers_ok:
  assumes "loop_ok a" "distinct domains" "fcard (au_jobs a) + length domains \<le> 4" "inj (le_task env)"
    and "\<forall>d\<in>set domains. le_task env d |\<notin>| au_jobs a \<and> fmlookup (au_active a) d = None \<and> fmlookup (au_pending a) d = None"
  shows "loop_ok (spawn_workers x env domains a) \<and> (au_credentials (spawn_workers x env domains a) = au_credentials a)
    \<and> au_account (spawn_workers x env domains a) = au_account a"
  using assms(1-3,5)
proof (induction domains arbitrary: a)
  case (Cons d domains)
  define a1 where "a1 = set_domain_retry d (retry_begin (domain_retry (au_retries a) d) (le_now env (Domain_begin d)) (expiry_of a d) 180
      (le_random env (Domain_begin d))) a"
  obtain r a2 where w: "write_retries x env (Domain_begin d) a1 = (r, a2)" by force
  obtain dir where a2: "a2 = set_dir dir a1" using write_retries_set_dir [of x env "Domain_begin d" a1] w by auto
  define a3 where "a3 = workers_spawn d (le_task env d) a2"
  have a3: "au_jobs a3 = finsert (le_task env d) (au_jobs a)" "au_active a3 = fmupd d (le_task env d) (au_active a)" "au_pending a3 = au_pending a"
    "au_credentials a3 = au_credentials a" "au_account a3 = au_account a"
    by (simp_all add: a3_def workers_spawn_def a2 a1_def)
  have a2': "workload a2 = workload a" "au_credentials a2 = au_credentials a" "au_account a2 = au_account a"
    by (simp_all add: a2 a1_def workload_def)
  have ok: "loop_ok a3"
    using Cons.prems by (auto simp: loop_ok_def a3 fcard_finsert_disjoint)
  have IH: "loop_ok (spawn_workers x env domains a3) \<and> au_credentials (spawn_workers x env domains a3) = au_credentials a3
      \<and> au_account (spawn_workers x env domains a3) = au_account a3"
  proof (rule Cons.IH [OF ok])
    show "fcard (au_jobs a3) + length domains \<le> 4" using Cons.prems by (simp add: a3 fcard_finsert_disjoint)
    show "\<forall>e\<in>set domains. le_task env e |\<notin>| au_jobs a3 \<and> fmlookup (au_active a3) e = None \<and> fmlookup (au_pending a3) e = None"
      using Cons.prems assms(4) by (auto simp: a3 inj_eq)
  qed (use Cons.prems in simp)
  show ?case
  proof (cases r)
    case (Inl e)
    then show ?thesis using w a2' Cons.prems(1) loop_ok_workload [OF a2'(1)] by (simp add: a1_def [symmetric])
  next
    case (Inr u)
    then show ?thesis using w IH a3 by (simp add: a1_def [symmetric] a3_def)
  qed
qed simp

lemma spawn_workers_credentials: "au_credentials (spawn_workers x env ds a) = au_credentials a"
proof (induction ds arbitrary: a)
  case (Cons d ds)
  have w: "au_credentials (snd (write_retries x env at b)) = au_credentials b" for at b
    using write_retries_set_dir [of x env at b] by auto
  show ?case using Cons w by (auto simp: workers_spawn_def split: prod.splits sum.splits) (metis set_domain_retry_simps(4) snd_conv)+
qed simp

lemma needed_set: "set (needed env a) = {d. d |\<in>| le_domains env \<and> needs_certificate env a d}"
  by (auto simp: needed_def)

lemma needed_distinct: "distinct (needed env a)"
  by (simp add: needed_def sorted_list_of_fset.rep_eq)

lemma persist_schedule_same:
  assumes "persist_schedule x env a = (r, b)"
  shows "workload b = workload a \<and> au_credentials b = au_credentials a \<and> au_account b = au_account a \<and> au_retries b = au_retries a
    \<and> au_certificates b = au_certificates a"
  using assms
  by (auto simp: persist_schedule_def cooldown_persist_def write_retries_def workload_def Let_def split: prod.splits sum.splits)

lemma open_account_same:
  "workload (open_account x env domains a) = workload a
   \<and> (au_credentials (open_account x env domains a) = au_credentials a \<and> au_account (open_account x env domains a) = au_account a
      \<or> au_account (open_account x env domains a))"
  using write_retries_set_dir
  by (auto simp: open_account_def account_answered_def ca_pause_def write_retries_def workload_def Let_def
      split: prod.splits sum.splits option.splits)

lemma schedule_inv:
  assumes "loop_inv a" "fresh_tasks env (au_jobs a)"
  shows "loop_inv (schedule x env a)"
proof -
  obtain r b where p: "persist_schedule x env a = (r, b)" by force
  note same = persist_schedule_same [OF p]
  have b: "loop_inv b" using assms(1) same loop_ok_workload by (metis loop_inv_def)
  have s: "loop_inv (spawn_workers x env (take (4 - fcard (au_jobs b)) (needed env a)) b)"
  proof -
    have "\<forall>d\<in>set (take (4 - fcard (au_jobs b)) (needed env a)).
        le_task env d |\<notin>| au_jobs b \<and> fmlookup (au_active b) d = None \<and> fmlookup (au_pending b) d = None"
      using assms(2) same by (auto simp: fresh_tasks_def workload_def needed_set needs_certificate_def dest!: in_set_takeD)
    moreover have "fcard (au_jobs b) \<le> 4" using b by (simp add: loop_inv_def loop_ok_def)
    ultimately show ?thesis
      using spawn_workers_ok [of b "take (4 - fcard (au_jobs b)) (needed env a)" env x] b assms(2) needed_distinct [of env a]
      by (simp add: loop_inv_def fresh_tasks_def)
  qed
  have o: "loop_inv (open_account x env ds b)" for ds
    using open_account_same [of x env ds b] b loop_ok_workload [of "open_account x env ds b" b] by (auto simp: loop_inv_def)
  show ?thesis using assms(1) p b s o by (simp add: schedule_def split: sum.splits)
qed

lemma join_worker_account:
  "au_credentials (join_worker x env a) = au_credentials a \<and> au_account (join_worker x env a) = au_account a
   \<and> au_certificates (join_worker x env a) = au_certificates a"
  by (auto simp: join_worker_def workers_remove_def worker_failed_def write_retries_def split: job_event.splits option.splits prod.splits)

lemma load_certificates_account:
  "au_credentials (load_certificates x env a) = au_credentials a \<and> au_account (load_certificates x env a) = au_account a"
proof -
  have "(\<lambda>a. (au_credentials a, au_account a)) (load_certificates x env a) = (au_credentials a, au_account a)"
    unfolding load_certificates_def
    by (rule fold_keeps) (auto simp: load_certificate_def Let_def split: option.splits)
  then show ?thesis by simp
qed

text \<open>The state in which an iteration begins to save and schedule.\<close>

definition refreshed :: "('x, 'k) cert_ext \<Rightarrow> ('x, 'k) loop_env \<Rightarrow> ('x, 'k) automation \<Rightarrow> ('x, 'k) automation" where
  "refreshed x env a = load_certificates x env (retain_sites (le_domains env) (join_worker x env a))"

lemma iteration_refreshed: "iteration x env a = schedule x env (save_material x env (refreshed x env a))"
  by (simp add: iteration_def refreshed_def)

lemma refreshed_workload:
  "workload (refreshed x env a) = workload (retain_sites (le_domains env) (join_worker x env a))"
  by (simp add: refreshed_def)

lemma refreshed_account: "au_credentials (refreshed x env a) = au_credentials a \<and> au_account (refreshed x env a) = au_account a"
  using load_certificates_account [of x env "retain_sites (le_domains env) (join_worker x env a)"] join_worker_account [of x env a]
  by (simp add: refreshed_def retain_sites_def workers_retain_def)

lemma refreshed_inv: "loop_inv a \<Longrightarrow> loop_inv (refreshed x env a)"
  unfolding loop_inv_def loop_ok_workload [OF refreshed_workload]
  using refreshed_account [of x env a] retain_sites_ok [OF join_worker_ok] by auto

lemma refreshed_jobs: "au_jobs (refreshed x env a) |\<subseteq>| au_jobs a"
proof -
  have "au_jobs (refreshed x env a) = fst (workload (join_worker x env a))"
    using refreshed_workload [of x env a] by (simp add: workload_def retain_sites_def workers_retain_def)
  also have "\<dots> |\<subseteq>| au_jobs a"
    unfolding join_worker_workload by (auto simp: workload_def split: option.splits prod.splits)
  finally show ?thesis .
qed

lemma iteration_inv:
  assumes "loop_inv a" "fresh_tasks env (au_jobs a)"
  shows "loop_inv (iteration x env a)"
  unfolding iteration_refreshed
proof (rule schedule_inv)
  show "loop_inv (save_material x env (refreshed x env a))" by (intro save_material_inv refreshed_inv assms(1))
  show "fresh_tasks env (au_jobs (save_material x env (refreshed x env a)))"
    using assms(2) refreshed_jobs [of x env a] save_material_account [of x env "refreshed x env a"] by (auto simp: fresh_tasks_def)
qed

text \<open>A run of the loop: iterations, and pauses that the CA asks a worker for.\<close>

inductive loop_step :: "('x, 'k) cert_ext \<Rightarrow> ('x, 'k) automation \<Rightarrow> ('x, 'k) automation \<Rightarrow> bool" for x :: "('x, 'k) cert_ext" where
  iterate: "fresh_tasks env (au_jobs a) \<Longrightarrow> loop_step x a (iteration x env a)"
| pause: "loop_step x a (a\<lparr>au_cooldown := snd (cooldown_defer fails (until_to_json x) (au_cooldown a) deadline)\<rparr>)"

lemma loop_step_inv:
  assumes "loop_step x a b" "loop_inv a"
  shows "loop_inv b"
  using assms
proof cases
  case (iterate env)
  then show ?thesis using assms(2) iteration_inv by blast
next
  case (pause fails deadline)
  then show ?thesis using assms(2) by (simp add: loop_inv_def loop_ok_def)
qed

interpretation certificate_run: step_invariant "loop_step x" loop_inv for x :: "('x, 'k) cert_ext"
  by unfold_locales (rule loop_step_inv)

lemma loop_start_inv: "loop_start x fails certificates dir = Inr a \<Longrightarrow> loop_inv a"
  by (auto simp: loop_start_def loop_inv_def loop_ok_def fcard.rep_eq)

text \<open>
  C31: At most four requests for certificates are under way, one for a domain. In every run of the
  certificate loop, whatever the CA, the disk and the configuration do, at most four tasks exist,
  aborted ones included; every domain at work has a task of its own; and no domain is at work while
  a certificate issued for it waits to be saved.
\<close>

theorem workers_bounded:
  assumes "loop_start x fails certificates dir = Inr a0" "(loop_step x)\<^sup>*\<^sup>* a0 a"
  shows "fcard (au_jobs a) \<le> 4
    \<and> (\<forall>d i. fmlookup (au_active a) d = Some i \<longrightarrow> i |\<in>| au_jobs a \<and> fmlookup (au_pending a) d = None
        \<and> (\<forall>d'. fmlookup (au_active a) d' = Some i \<longrightarrow> d' = d))"
proof -
  have "loop_ok a" using certificate_run.reach_inv [OF assms(2) loop_start_inv [OF assms(1)]] by (simp add: loop_inv_def)
  then show ?thesis by (force simp: loop_ok_def)
qed

lemma refreshed_pending:
  assumes "loop_ok a" "fmlookup (au_pending a) d = Some issued" "d |\<in>| le_domains env"
  shows "fmlookup (au_pending (refreshed x env a)) d = Some issued"
proof -
  have "fmlookup (au_active a) d = None" using assms(1,2) by (auto simp: loop_ok_def dest: spec [of _ d])
  then have "worker_of (au_active a) i \<noteq> Some d" for i by (auto dest: worker_of_Some)
  then have "fmlookup (snd (snd (workload (join_worker x env a)))) d = Some issued"
    unfolding join_worker_workload using assms(2) by (auto simp: workload_def split: option.splits prod.splits)
  then show ?thesis using refreshed_workload [of x env a] assms(3) by (simp add: workload_def retain_sites_def)
qed

definition credentials_kept :: "('x, 'k) cert_ext \<Rightarrow> string \<Rightarrow> ('x, 'k) automation \<Rightarrow> bool" where
  "credentials_kept x v a \<longleftrightarrow> au_credentials a = Some v
     \<or> (\<exists>bytes. account_to_json x v = Some bytes \<and> fmlookup (au_dir a) ''account.json'' = Some bytes)"

lemma save_pending_account_file:
  assumes "CHR ''.'' \<in> set e"
  shows "fmlookup (au_dir (snd (save_pending x env e c))) ''account.json'' = fmlookup (au_dir (snd c)) ''account.json''"
  using own_files(2) [OF assms]
  by (cases c) (auto simp: save_pending_def pending_install_def split: option.splits prod.splits sum.splits bool.splits
      dest: storage_write_other [where other = "''account.json''"])

definition credentials_safe :: "('x, 'k) cert_ext \<Rightarrow> string \<Rightarrow> ('x, 'k) automation \<Rightarrow> bool" where
  "credentials_safe x v a \<longleftrightarrow> credentials_kept x v a \<and> au_credentials a \<in> {None, Some v}"

lemma save_pending_credentials:
  "credentials_safe x v (snd c) \<Longrightarrow> CHR ''.'' \<in> set e \<Longrightarrow> credentials_safe x v (snd (save_pending x env e c))"
  using save_pending_submap [of x env e c] by (simp add: credentials_safe_def credentials_kept_def save_pending_account_file)

lemma save_credentials_safe:
  assumes "credentials_safe x v b"
  shows "credentials_safe x v (save_credentials x env b)"
proof (cases "au_credentials b")
  case None
  then show ?thesis using assms by (simp add: save_credentials_def)
next
  case (Some w)
  obtain r dir where s: "storage_write (le_fails env Saving_account) (account_to_json x) (au_dir b) ''account.json'' v = (r, dir)" by force
  show ?thesis
    using s Some assms storage_write_done [of _ _ _ "''account.json''" v "()" dir]
    by (cases r) (auto simp: save_credentials_def credentials_safe_def credentials_kept_def)
qed

lemma save_material_credentials:
  assumes "credentials_safe x v a" "\<forall>d. d |\<in>| fmdom (au_pending a) \<longrightarrow> CHR ''.'' \<in> set d"
  shows "credentials_safe x v (save_material x env a)"
proof (rule save_material_parts [where P = "credentials_safe x v", OF assms(1)])
  show "credentials_safe x v (snd (save_pending x env e c))" if "e |\<in>| fmdom (au_pending a)" "credentials_safe x v (snd c)" for e c
    using that assms(2) by (intro save_pending_credentials) auto
  show "credentials_safe x v (snd (write_retries x env Clearing b))" if "credentials_safe x v b" for b
  proof -
    have "fmlookup (au_dir (snd (write_retries x env Clearing b))) ''account.json'' = fmlookup (au_dir b) ''account.json''"
      using write_retries_keeps [of b x env Clearing] by (simp add: schedule_keeps_def)
    moreover have "au_credentials (snd (write_retries x env Clearing b)) = au_credentials b"
      using write_retries_set_dir [of x env Clearing b] by auto
    ultimately show ?thesis using that by (simp add: credentials_safe_def credentials_kept_def)
  qed
  show "credentials_safe x v (b\<lparr>au_save_at := t\<rparr>)" if "credentials_safe x v b" for b t
    using that by (simp add: credentials_safe_def credentials_kept_def)
qed (rule save_credentials_safe)

lemma schedule_credentials:
  assumes "credentials_kept x v a"
  shows "credentials_kept x v (schedule x env a)"
proof (cases "au_credentials a")
  case None
  then show ?thesis using assms schedule_keeps_all [of a x env] by (simp add: credentials_kept_def schedule_keeps_def)
next
  case (Some w)
  then show ?thesis using assms by (simp add: schedule_def)
qed

text \<open>While there are no credentials to save, the stored ones stay as they are, and only their absence
  lets the loop register an account.\<close>

definition no_account :: "('x, 'k) automation \<Rightarrow> ('x, 'k) automation \<Rightarrow> bool" where
  "no_account a b \<longleftrightarrow> au_credentials b = None \<and> fmlookup (au_dir b) ''account.json'' = fmlookup (au_dir a) ''account.json''"

lemma write_retries_account_file: "fmlookup (au_dir (snd (write_retries x env at a))) ''account.json'' = fmlookup (au_dir a) ''account.json''"
  using write_retries_keeps [of a x env at] by (simp add: schedule_keeps_def)

lemma save_material_no_account:
  assumes "au_credentials a = None" "\<forall>d. d |\<in>| fmdom (au_pending a) \<longrightarrow> CHR ''.'' \<in> set d"
  shows "no_account a (save_material x env a)"
proof (rule save_material_parts [where P = "no_account a"])
  show "no_account a (snd (save_pending x env e c))" if "e |\<in>| fmdom (au_pending a)" "no_account a (snd c)" for e c
    using that assms(2) save_pending_account_file [of e x env c] save_pending_submap [of x env e c] by (auto simp: no_account_def)
  show "no_account a (snd (write_retries x env Clearing b))" if "no_account a b" for b
    using that write_retries_account_file [of x env Clearing b] write_retries_set_dir [of x env Clearing b] by (auto simp: no_account_def)
qed (use assms(1) in \<open>auto simp: no_account_def save_credentials_def\<close>)

lemma refreshed_account_file: "fmlookup (au_dir (refreshed x env a)) ''account.json'' = fmlookup (au_dir a) ''account.json''"
proof -
  have "au_dir (load_certificates x env b) = au_dir b" for b
    unfolding load_certificates_def
    by (rule fold_keeps) (auto simp: load_certificate_def Let_def split: option.splits)
  moreover have "fmlookup (au_dir (join_worker x env a)) ''account.json'' = fmlookup (au_dir a) ''account.json''"
    by (auto simp: join_worker_def workers_remove_def worker_failed_def write_retries_account_file split: job_event.splits option.splits)
  ultimately show ?thesis by (simp add: refreshed_def retain_sites_def workers_retain_def)
qed

lemma open_account_registers:
  assumes "au_credentials (open_account x env domains a) = Some v" "au_credentials a = None"
  shows "fmlookup (au_dir a) ''account.json'' = None"
proof -
  define a1 where "a1 = a\<lparr>au_retries := (au_retries a)\<lparr>account_retry := retry_begin (account_retry (au_retries a)) (le_now env Account_begin)
      (earliest (map (expiry_of a) domains)) 30 (le_random env Account_begin)\<rparr>\<rparr>"
  obtain r a2 where w: "write_retries x env Account_begin a1 = (r, a2)" by force
  have c: "au_credentials a2 = None" and f: "fmlookup (au_dir a2) ''account.json'' = fmlookup (au_dir a) ''account.json''"
    using write_retries_set_dir [of x env Account_begin a1] write_retries_account_file [of x env Account_begin a1] w assms(2)
    by (auto simp: a1_def)
  have p: "au_credentials (ca_pause x env a2) = None" using c by (simp add: ca_pause_def split: option.splits)
  have d: "au_credentials (snd (write_retries x env at b)) = au_credentials b" for at b
    using write_retries_set_dir [of x env at b] by auto
  have "acme_account x env a2 = Some (Some v)"
    using assms(1) w c p
    by (cases r; cases "acme_account x env a2")
      (simp_all add: open_account_def a1_def [symmetric] d account_answered_def)
  then show ?thesis using f by (auto simp: acme_account_def storage_read_def split: option.splits if_splits sum.splits)
qed

lemma schedule_registers:
  assumes "au_credentials (schedule x env a) = Some v" "au_credentials a = None"
  shows "fmlookup (au_dir a) ''account.json'' = None"
proof -
  obtain r b where p: "persist_schedule x env a = (r, b)" by force
  have b: "au_credentials b = None" "fmlookup (au_dir b) ''account.json'' = fmlookup (au_dir a) ''account.json''"
    using persist_schedule_same [OF p] persist_schedule_keeps [of a x env] p assms(2) by (simp_all add: schedule_keeps_def)
  have "au_credentials (spawn_workers x env ds c) = au_credentials c" for ds c
    by (rule spawn_workers_credentials)
  then have "\<exists>ds. au_credentials (open_account x env ds b) = Some v"
    using assms p b by (auto simp: schedule_def split: if_splits sum.splits)
  then show ?thesis using open_account_registers b by metis
qed


section \<open>Requests to the CA are paced\<close>

text \<open>What is relied on of \<^verbatim>\<open>serde_json\<close>: a journal that was written reads back.\<close>

definition retries_codec :: "('x, 'k) cert_ext \<Rightarrow> bool" where
  "retries_codec x \<longleftrightarrow> (\<forall>rs bytes. retries_to_json x rs = Some bytes \<longrightarrow> retries_from_json x bytes = Some rs)"

definition stored_retries :: "('x, 'k) cert_ext \<Rightarrow> ('x, 'k) automation \<Rightarrow> retries option" where
  "stored_retries x a = Option.bind (fmlookup (au_dir a) ''retries.json'') (retries_from_json x)"

lemma write_retries_stored:
  assumes "write_retries x env at a = (r, b)" "retries_codec x"
  shows "au_retries b = au_retries a \<and> au_active b = au_active a \<and> stored_retries x b \<in> {stored_retries x a, Some (au_retries a)}
    \<and> (r = Inr () \<longrightarrow> stored_retries x b = Some (au_retries a))"
  using assms
  by (auto simp: write_retries_def storage_write_def stored_retries_def retries_codec_def split: prod.splits if_splits option.splits)

text \<open>The journal on disk and the one in memory both put off the next request for a domain.\<close>

definition delayed :: "string \<Rightarrow> int \<Rightarrow> retries \<Rightarrow> bool" where
  "delayed d t rs \<longleftrightarrow> (\<exists>r. fmlookup (domain_retries rs) d = Some r \<and> t \<le> next_at r)"

definition put_off :: "('x, 'k) cert_ext \<Rightarrow> string \<Rightarrow> int \<Rightarrow> ('x, 'k) automation \<Rightarrow> bool" where
  "put_off x d t a \<longleftrightarrow> delayed d t (au_retries a) \<and> (\<exists>rs. stored_retries x a = Some rs \<and> delayed d t rs)"

lemma delayed_set [simp]:
  "delayed d t (au_retries (set_domain_retry e r a)) = (if d = e then t \<le> next_at r else delayed d t (au_retries a))"
  by (simp add: delayed_def set_domain_retry_def)

lemma stored_retries_set [simp]: "stored_retries x (set_domain_retry e r a) = stored_retries x a"
  by (simp add: stored_retries_def)

lemma retry_begin_waits: "i64_saturating_add now timeout \<le> next_at (retry_begin r now expiry timeout random)"
  by (simp add: retry_begin_def Let_def)

lemma spawn_workers_put_off:
  assumes "retries_codec x" "put_off x d t a" "d \<notin> set domains"
  shows "put_off x d t (spawn_workers x env domains a)"
  using assms(2,3)
proof (induction domains arbitrary: a)
  case (Cons e domains)
  define a1 where "a1 = set_domain_retry e (retry_begin (domain_retry (au_retries a) e) (le_now env (Domain_begin e)) (expiry_of a e) 180
      (le_random env (Domain_begin e))) a"
  obtain r a2 where w: "write_retries x env (Domain_begin e) a1 = (r, a2)" by force
  have "delayed d t (au_retries a1) = delayed d t (au_retries a)" "stored_retries x a1 = stored_retries x a"
    using Cons.prems(2) by (simp_all add: a1_def)
  then have a2: "put_off x d t a2" using write_retries_stored [OF w assms(1)] Cons.prems(1) by (auto simp: put_off_def)
  moreover have "put_off x d t (workers_spawn e (le_task env e) a2)"
    using a2 by (simp add: put_off_def workers_spawn_def stored_retries_def)
  ultimately show ?case using w Cons.IH Cons.prems(2) by (cases r) (simp_all add: a1_def [symmetric])
qed simp

lemma spawn_workers_journals:
  assumes "retries_codec x" "distinct domains" "fmlookup (au_active (spawn_workers x env domains a)) d \<noteq> None" "fmlookup (au_active a) d = None"
  shows "d \<in> set domains \<and> put_off x d (i64_saturating_add (le_now env (Domain_begin d)) 180) (spawn_workers x env domains a)"
  using assms(2-4)
proof (induction domains arbitrary: a)
  case (Cons e domains)
  define a1 where "a1 = set_domain_retry e (retry_begin (domain_retry (au_retries a) e) (le_now env (Domain_begin e)) (expiry_of a e) 180
      (le_random env (Domain_begin e))) a"
  obtain r a2 where w: "write_retries x env (Domain_begin e) a1 = (r, a2)" by force
  note st = write_retries_stored [OF w assms(1)]
  define a3 where "a3 = workers_spawn e (le_task env e) a2"
  have r: "r = Inr ()" and s: "spawn_workers x env (e # domains) a = spawn_workers x env domains a3"
    using w Cons.prems(2,3) st by (cases r; simp add: a1_def [symmetric] a3_def; simp add: a1_def)+
  show ?case
  proof (cases "d = e")
    case True
    have "put_off x e (i64_saturating_add (le_now env (Domain_begin e)) 180) a3"
      using st r retry_begin_waits by (simp add: put_off_def a3_def workers_spawn_def stored_retries_def a1_def)
    then show ?thesis using spawn_workers_put_off [OF assms(1)] Cons.prems(1) True s by simp
  next
    case False
    then have "fmlookup (au_active a3) d = None" using Cons.prems(3) st by (simp add: a3_def workers_spawn_def a1_def)
    then show ?thesis using Cons.IH [of a3] Cons.prems s by simp
  qed
qed simp

lemma schedule_spawns:
  assumes "fmlookup (au_active (schedule x env a)) d \<noteq> None" "fmlookup (au_active a) d = None"
  obtains b where "au_credentials a = None" "cooldown_ready (au_cooldown a) (le_now env Cooling)" "au_account a"
    "persist_schedule x env a = (Inr (), b)" "schedule x env a = spawn_workers x env (take (4 - fcard (au_jobs b)) (needed env a)) b"
    "fmlookup (au_active b) d = None"
proof -
  obtain r b where p: "persist_schedule x env a = (r, b)" by force
  note same = persist_schedule_same [OF p]
  then have b: "fmlookup (au_active b) d = None" using assms(2) by (simp add: workload_def)
  have o: "fmlookup (au_active (open_account x env ds b)) d = None" for ds
    using open_account_same [of x env ds b] b by (simp add: workload_def)
  show thesis
    by (rule that [of b]) (use assms p same b o in \<open>auto simp: schedule_def split: if_splits sum.splits\<close>)
qed

text \<open>
  C18: Requests to the CA are paced, across crashes too. When the loop starts a worker for a domain, the
  CA's cooldown is over, the account is known and saved, the domain is configured, no certificate
  issued for it waits to be saved, the one it has, if any, needs renewal, and its last retry is due;
  and before the request is made, the journal on disk already puts off the next one by three minutes,
  so that a process started from these files, whatever became of this one, makes none before.
\<close>

theorem issuance_paced:
  assumes "retries_codec x" "fmlookup (au_active (schedule x env a)) d \<noteq> None" "fmlookup (au_active a) d = None"
  shows "until_at (au_cooldown a) \<le> le_now env Cooling \<and> au_account a \<and> au_credentials a = None
    \<and> d |\<in>| le_domains env \<and> fmlookup (au_pending a) d = None
    \<and> (\<forall>cert. fmlookup (au_certificates a) d = Some cert \<longrightarrow> needs_renewal cert (le_now env (Renewing d)))
    \<and> (\<forall>r. fmlookup (domain_retries (au_retries a)) d = Some r \<longrightarrow> next_at r \<le> le_now env (Retry_ready d))
    \<and> (\<forall>fails certificates b env'. loop_start x fails certificates (au_dir (schedule x env a)) = Inr b
        \<and> le_now env' (Retry_ready d) < i64_saturating_add (le_now env (Domain_begin d)) 180 \<longrightarrow> \<not> needs_certificate env' b d)"
proof -
  obtain b where b: "au_credentials a = None" "cooldown_ready (au_cooldown a) (le_now env Cooling)" "au_account a"
    "schedule x env a = spawn_workers x env (take (4 - fcard (au_jobs b)) (needed env a)) b" "fmlookup (au_active b) d = None"
    using schedule_spawns [OF assms(2,3)] by blast
  let ?t = "i64_saturating_add (le_now env (Domain_begin d)) 180"
  have j: "d \<in> set (take (4 - fcard (au_jobs b)) (needed env a)) \<and> put_off x d ?t (schedule x env a)"
    unfolding b(4) by (rule spawn_workers_journals [OF assms(1) distinct_take [OF needed_distinct]]) (use assms(2) b in auto)
  then have n: "d |\<in>| le_domains env" "needs_certificate env a d" using needed_set [of env a] by (auto dest!: in_set_takeD)
  have "\<not> needs_certificate env' c d"
    if c: "loop_start x fails certificates (au_dir (schedule x env a)) = Inr c" and t: "le_now env' (Retry_ready d) < ?t" for fails certificates c env'
  proof -
    obtain rs where rs: "stored_retries x (schedule x env a) = Some rs" "delayed d ?t rs" using j by (auto simp: put_off_def)
    have "au_retries c = rs"
      using c rs(1) by (auto simp: loop_start_def storage_read_def stored_retries_def bind_eq_Some_conv split: if_splits option.splits)
    then show ?thesis using rs(2) t by (auto simp: needs_certificate_def delayed_def retry_ready_def)
  qed
  then show ?thesis using b n by (auto simp: cooldown_ready_def needs_certificate_def retry_ready_def)
qed

section \<open>Only configured sites\<close>

definition within :: "string fset \<Rightarrow> ('x, 'k) automation \<Rightarrow> bool" where
  "within D a \<longleftrightarrow> fmdom (au_active a) |\<subseteq>| D \<and> fmdom (au_pending a) |\<subseteq>| D \<and> fmdom (au_certificates a) |\<subseteq>| D"

lemma write_retries_within [simp]: "within D (snd (write_retries x env at a)) = within D a"
  using write_retries_set_dir [of x env at a] by (auto simp: within_def)

lemma load_certificate_within: "d |\<in>| D \<Longrightarrow> within D a \<Longrightarrow> within D (load_certificate x fails d a)"
  by (auto simp: within_def load_certificate_def Let_def split: option.splits)

lemma refreshed_within: "within (le_domains env) (refreshed x env a)"
  unfolding refreshed_def load_certificates_def
proof (rule fold_inv)
  show "within (le_domains env) (retain_sites (le_domains env) (join_worker x env a))"
    by (auto simp: within_def retain_sites_def workers_retain_def)
qed (auto intro: load_certificate_within)

lemma save_pending_within: "within D (snd c) \<Longrightarrow> within D (snd (save_pending x env e c))"
  by (cases c) (auto simp: within_def save_pending_def pending_install_def split: option.splits prod.splits sum.splits bool.splits dest: fmdomI)

lemma save_material_within:
  assumes "within D a"
  shows "within D (save_material x env a)"
proof (rule save_material_parts [where P = "within D", OF assms])
  show "within D (save_credentials x env b)" if "within D b" for b
    using that by (auto simp: within_def save_credentials_def split: option.splits prod.splits sum.splits)
  show "within D (b\<lparr>au_save_at := t\<rparr>)" if "within D b" for b t
    using that by (simp add: within_def)
qed (simp_all add: save_pending_within)

lemma spawn_workers_within: "within D a \<Longrightarrow> set domains \<subseteq> fset D \<Longrightarrow> within D (spawn_workers x env domains a)"
proof (induction domains arbitrary: a)
  case (Cons d domains)
  define a1 where "a1 = set_domain_retry d (retry_begin (domain_retry (au_retries a) d) (le_now env (Domain_begin d)) (expiry_of a d) 180
      (le_random env (Domain_begin d))) a"
  obtain r a2 where w: "write_retries x env (Domain_begin d) a1 = (r, a2)" by force
  have "within D a1" using Cons.prems by (simp add: a1_def within_def)
  then have a2: "within D a2" using write_retries_within [of D x env "Domain_begin d" a1] w by simp
  then have "within D (workers_spawn d (le_task env d) a2)" using Cons.prems(2) by (simp add: within_def workers_spawn_def)
  then show ?case using w a2 Cons.IH Cons.prems(2) by (cases r) (simp_all add: a1_def [symmetric])
qed simp

text \<open>
  A site that is removed loses its certificate and its worker. After every iteration of the loop,
  workers, certificates waiting to be saved and certificates that are served all belong to HTTPS
  sites of the configuration that the iteration read.
\<close>

lemma automation_within_config:
  "fmdom (au_active (iteration x env a)) |\<subseteq>| le_domains env \<and> fmdom (au_pending (iteration x env a)) |\<subseteq>| le_domains env
   \<and> fmdom (au_certificates (iteration x env a)) |\<subseteq>| le_domains env"
proof -
  let ?a = "save_material x env (refreshed x env a)" and ?D = "le_domains env"
  have w: "within ?D ?a" by (rule save_material_within [OF refreshed_within])
  obtain r b where p: "persist_schedule x env ?a = (r, b)" by force
  have b: "within ?D b" using w persist_schedule_same [OF p] by (simp add: within_def workload_def)
  have n: "set (take k (needed env ?a)) \<subseteq> fset ?D" for k using needed_set [of env ?a] by (auto dest!: in_set_takeD)
  have o: "within ?D (open_account x env ds b)" for ds
    using b open_account_same [of x env ds b] open_account_keeps [of b x env ds] by (simp add: within_def workload_def schedule_keeps_def)
  have "within ?D (schedule x env ?a)"
    using w p b o spawn_workers_within [OF b n] by (simp add: schedule_def split: sum.splits)
  then show ?thesis by (simp add: iteration_refreshed within_def)
qed

section \<open>An issuance\<close>

text \<open>What the CA says of an authorization: its status, the token and key authorization of its HTTP-01
  challenge if it offers one, and whether the challenge could be reported as ready. \<open>None\<close> in the
  list is an authorization that could not be fetched. A cancelled worker fails at the call it waits
  for; dropping it removes its challenges just the same.\<close>

datatype auth_status = Auth_valid | Auth_pending | Auth_other

record authorization =
  az_status :: auth_status
  az_challenge :: "(string \<times> string) option"
  az_ready :: bool

record issue_env =
  is_order :: bool
  is_authorizations :: "authorization option list"
  is_approved :: bool
  is_private_key :: "string option"
  is_chain :: "string option"

type_synonym challenge_table = "(string \<times> string, string) fmap"

fun authorize ::
  "string \<Rightarrow> authorization option list \<Rightarrow> challenge_table \<Rightarrow> (string \<times> string) list \<Rightarrow> bool \<times> challenge_table \<times> (string \<times> string) list" where
  "authorize domain [] ch ks = (True, ch, ks)"
| "authorize domain (None # azs) ch ks = (False, ch, ks)"
| "authorize domain (Some az # azs) ch ks =
     (case az_status az of
        Auth_valid \<Rightarrow> authorize domain azs ch ks
      | Auth_other \<Rightarrow> (False, ch, ks)
      | Auth_pending \<Rightarrow>
          (case az_challenge az of
             None \<Rightarrow> (False, ch, ks)
           | Some (tok, key) \<Rightarrow>
               (let ch' = fmupd (domain, tok) key ch; ks' = ks @ [(domain, tok)]
                in if az_ready az then authorize domain azs ch' ks' else (False, ch', ks'))))"

definition drop_challenges :: "(string \<times> string) list \<Rightarrow> challenge_table \<Rightarrow> challenge_table" where
  "drop_challenges ks ch = fold fmdrop ks ch"

definition issue :: "string \<Rightarrow> issue_env \<Rightarrow> challenge_table \<Rightarrow> pem option \<times> challenge_table" where
  "issue domain env ch =
     (if \<not> is_order env then (None, ch)
      else case authorize domain (is_authorizations env) ch [] of
        (ok, ch', ks) \<Rightarrow>
          (if ok \<and> is_approved env then
             (case (is_private_key env, is_chain env) of
                (Some key, Some chain) \<Rightarrow> Some \<lparr>pem_chain = chain, pem_private_key = key\<rparr>
              | _ \<Rightarrow> None)
           else None, drop_challenges ks ch'))"

definition worker_task :: "('x, 'k) x509_ops \<Rightarrow> int \<Rightarrow> string \<Rightarrow> issue_env \<Rightarrow> challenge_table \<Rightarrow> ('x, 'k) issued option \<times> challenge_table" where
  "worker_task ops now domain env ch =
     (case issue domain env ch of
        (None, ch') \<Rightarrow> (None, ch')
      | (Some p, ch') \<Rightarrow> (pending_parse ops now domain p, ch'))"

lemma drop_challenges_lookup: "fmlookup (drop_challenges ks ch) k = (if k \<in> set ks then None else fmlookup ch k)"
  unfolding drop_challenges_def by (induction ks arbitrary: ch) auto

lemma authorize_keys:
  assumes "authorize domain azs ch ks = (ok, ch', ks')"
  shows "set ks \<subseteq> set ks' \<and> (\<forall>k. k \<notin> set ks' \<longrightarrow> fmlookup ch' k = fmlookup ch k) \<and> (\<forall>k\<in>set ks'. k \<in> set ks \<or> fst k = domain)"
  using assms
proof (induction domain azs ch ks rule: authorize.induct)
  case (3 domain az azs ch ks)
  then show ?case
    by (auto simp: Let_def split: auth_status.splits option.splits prod.splits if_splits) (fastforce dest: subsetD)+
qed auto

text \<open>
  C32: A worker leaves no challenge behind and delivers only certificates that can be served. However
  the issuance of a certificate ends, the challenge tokens it published are gone and no entry of
  another domain has changed; and what the worker delivers was issued under an approved order, is a
  certificate for the domain whose key matches, and is valid now.
\<close>

theorem worker_leaves_no_challenges:
  assumes "worker_task ops now domain env ch = (result, ch')"
  shows "(\<forall>k. fmlookup ch' k = fmlookup ch k \<or> fmlookup ch' k = None \<and> fst k = domain)
    \<and> (\<forall>p cert. result = Some (p, cert) \<longrightarrow> is_order env \<and> is_approved env \<and> is_chain env = Some (pem_chain p)
        \<and> certificate_parse ops domain p = Inr cert \<and> valid_at cert now)"
proof -
  obtain ok ch1 ks where a: "authorize domain (is_authorizations env) ch [] = (ok, ch1, ks)" by (metis prod_cases3)
  have "ch' = ch \<or> ch' = drop_challenges ks ch1"
    using assms a by (auto simp: worker_task_def issue_def split: prod.splits option.splits if_splits)
  then have "\<forall>k. fmlookup ch' k = fmlookup ch k \<or> fmlookup ch' k = None \<and> fst k = domain"
    using authorize_keys [OF a] by (force simp: drop_challenges_lookup split: if_splits)
  moreover have "\<forall>p cert. result = Some (p, cert) \<longrightarrow> is_order env \<and> is_approved env \<and> is_chain env = Some (pem_chain p)
      \<and> certificate_parse ops domain p = Inr cert \<and> valid_at cert now"
    using assms a
    by (auto simp: worker_task_def issue_def pending_parse_def split: prod.splits option.splits if_splits sum.splits)
  ultimately show ?thesis by blast
qed

section \<open>Reloading the configuration and paying out\<close>

text \<open>\<^verbatim>\<open>watch_config\<close>: the text of the file, or \<open>None\<close> when it cannot be read.\<close>

definition watch_config ::
  "externals \<Rightarrow> limiter_env \<Rightarrow> string option \<Rightarrow> string \<times> gateway \<Rightarrow> string \<times> gateway" where
  "watch_config x env contents = (\<lambda>(previous, g).
     case contents of
       None \<Rightarrow> (previous, g)
     | Some input \<Rightarrow>
         if input = previous then (previous, g)
         else (input, case config_parse x env input of Some (Inr c) \<Rightarrow> replace_config c g | _ \<Rightarrow> g))"

text \<open>\<^verbatim>\<open>manage_payouts\<close>: one pass over the policies that were configured when it began; \<open>current\<close> are the
  payouts of the configuration in force when a policy's turn comes.\<close>

fun payouts_pass ::
  "payout_codec \<Rightarrow> (payout_policy \<Rightarrow> payout_env) \<Rightarrow> (payout_policy \<Rightarrow> payout_policy list) \<Rightarrow> payout_policy list \<Rightarrow> payments
     \<Rightarrow> (payout_policy \<times> fund_call) list \<times> payments" where
  "payouts_pass j env current [] ps = ([], ps)"
| "payouts_pass j env current (p # policies) ps =
     (if p \<notin> set (current p) then payouts_pass j env current policies ps
      else (case automatic_payout j (env p) p (entry ps (po_mint p)) of
              (_, calls, w) \<Rightarrow>
                (case payouts_pass j env current policies (fmupd (po_mint p) w ps) of
                   (later, ps') \<Rightarrow> (map (Pair p) calls @ later, ps'))))"

text \<open>Watching the file is a run of the gateway, so what holds of every run holds while files are
  edited, damaged and repaired.\<close>

lemma watch_config_step:
  "watch_config (gx_externals x) env contents (previous, g) = (previous', g') \<Longrightarrow> g' = g \<or> gateway_step x g g'"
  by (auto simp: watch_config_def split: option.splits if_splits sum.splits intro: gateway_step.reload)

lemma watch_config_run:
  "(gateway_step x)\<^sup>*\<^sup>* g (snd (fold (\<lambda>(env, contents). watch_config (gx_externals x) env contents) files (previous, g)))"
proof (induction files arbitrary: previous g)
  case (Cons ef files)
  obtain env contents where ef: "ef = (env, contents)" by force
  obtain previous' g' where w: "watch_config (gx_externals x) env contents (previous, g) = (previous', g')" by force
  have "(gateway_step x)\<^sup>*\<^sup>* g g'" using watch_config_step [OF w] by auto
  then show ?case using Cons.IH [of g' previous'] w by (auto simp: ef)
qed simp

text \<open>
  A damaged configuration never takes the service down. However the file is edited while it is
  watched, the gateway keeps the sites of the last text that was accepted: an unreadable contents or a
  rejected text changes nothing, an accepted one replaces the configuration; and a gateway that was
  started with an accepted configuration answers every request without an internal error.
\<close>

lemma watch_config_safe:
  assumes "config_parse (gx_externals x) env input = Some (Inr c)" "state_new hash now c = Some g0"
  shows "(\<forall>wenv contents previous previous' g g'. watch_config (gx_externals x) wenv contents (previous, g) = (previous', g') \<longrightarrow>
        (case contents of
           None \<Rightarrow> g' = g
         | Some text \<Rightarrow> text = previous \<and> g' = g \<or> (\<exists>e. config_parse (gx_externals x) wenv text = Some (Inl e)) \<and> g' = g
             \<or> (\<exists>c'. config_parse (gx_externals x) wenv text = Some (Inr c') \<and> g' = replace_config c' g)))
    \<and> (\<forall>files px renv rq v ctx g'. request_filter x px renv rq
          (snd (fold (\<lambda>(wenv, contents). watch_config (gx_externals x) wenv contents) files (input, g0))) = (v, ctx, g')
        \<and> rq_client rq \<noteq> None \<longrightarrow> v \<noteq> Stopped Internal_error)"
proof (intro conjI allI impI)
  fix wenv contents previous previous' g g'
  assume w: "watch_config (gx_externals x) wenv contents (previous, g) = (previous', g')"
  show "case contents of
      None \<Rightarrow> g' = g
    | Some text \<Rightarrow> text = previous \<and> g' = g \<or> (\<exists>e. config_parse (gx_externals x) wenv text = Some (Inl e)) \<and> g' = g
        \<or> (\<exists>c'. config_parse (gx_externals x) wenv text = Some (Inr c') \<and> g' = replace_config c' g)"
  proof (cases contents)
    case (Some doc)
    obtain out where "config_parse (gx_externals x) wenv doc = Some out" using config_parse_returns by blast
    then show ?thesis using w Some by (cases out) (auto simp: watch_config_def split: if_splits)
  qed (use w in \<open>simp add: watch_config_def\<close>)
next
  fix files px renv rq v ctx g'
  let ?g = "snd (fold (\<lambda>(wenv, contents). watch_config (gx_externals x) wenv contents) files (input, g0))"
  assume f: "request_filter x px renv rq ?g = (v, ctx, g') \<and> rq_client rq \<noteq> None"
  have "gateway_live ?g" by (rule gateway_run.reach_inv [OF watch_config_run state_new_live [OF assms]])
  then show "v \<noteq> Stopped Internal_error" using request_filter_live [OF conjunct1 [OF f]] f by auto
qed

section \<open>Witnesses\<close>

definition demo_backoff :: retries where
  "demo_backoff = \<lparr>account_retry = retry_default, domain_retries = fmupd ''example.com'' \<lparr>failures = 1, next_at = 2180\<rparr> fmempty\<rparr>"

definition demo_cert_ext :: "(nat, nat) cert_ext" where
  "demo_cert_ext = \<lparr>x_ops = demo_x509,
     retries_to_json = (\<lambda>rs. if rs = retries_default then Some ''0'' else if rs = demo_backoff then Some ''1'' else None),
     retries_from_json = (\<lambda>s. if s = ''0'' then Some retries_default else if s = ''1'' then Some demo_backoff else None),
     pem_to_json = (\<lambda>_. Some ''p''), pem_from_json = (\<lambda>_. None), until_to_json = (\<lambda>_. Some ''0''), until_from_json = (\<lambda>_. Some 0),
     account_to_json = Some, account_from_json = Some\<rparr>"

definition demo_loop_env :: "(nat, nat) job_event \<Rightarrow> (place \<Rightarrow> fs_call \<Rightarrow> bool) \<Rightarrow> (nat, nat) loop_env" where
  "demo_loop_env event fails = \<lparr>le_event = event, le_domains = {|''example.com''|}, le_now = (\<lambda>_. 2000), le_fails = fails,
     le_random = (\<lambda>_. 0), le_defer = None, le_restores = True, le_created = None, le_task = to_nat\<rparr>"

definition demo_loop :: "(nat, nat) automation" where
  "demo_loop = \<lparr>au_certificates = fmempty, au_cooldown = \<lparr>until_at = 0, cooldown_dir = fmempty\<rparr>, au_retries = retries_default,
     au_account = False, au_credentials = None, au_loaded = {||}, au_jobs = {||}, au_active = fmempty, au_pending = fmempty,
     au_save_at = 0\<rparr>"

lemma demo_loop_start: "loop_start demo_cert_ext (\<lambda>_ _. False) fmempty fmempty = Inr demo_loop"
  by (simp add: loop_start_def cooldown_load_def storage_read_def demo_loop_def)

lemma demo_fresh: "fresh_tasks (demo_loop_env event fails) {||}"
  by (simp add: fresh_tasks_def demo_loop_env_def)

theorem workers_bounded_witness:
  "fcard (au_jobs (iteration demo_cert_ext (demo_loop_env Tick (\<lambda>_ _. True)) demo_loop)) \<le> 4"
proof -
  have "fresh_tasks (demo_loop_env Tick (\<lambda>_ _. True)) (au_jobs demo_loop)" using demo_fresh by (simp add: demo_loop_def)
  then have "(loop_step demo_cert_ext)\<^sup>*\<^sup>* demo_loop (iteration demo_cert_ext (demo_loop_env Tick (\<lambda>_ _. True)) demo_loop)"
    by (intro r_into_rtranclp loop_step.iterate)
  then show ?thesis using workers_bounded [OF demo_loop_start] by blast
qed

lemma demo_journals [simp]: "demo_backoff \<noteq> retries_default"
  by (simp add: demo_backoff_def retries_default_def)

lemma demo_cert_ext_simps [simp]:
  "retries_to_json demo_cert_ext retries_default = Some ''0''" "retries_to_json demo_cert_ext demo_backoff = Some ''1''"
  "until_to_json demo_cert_ext = (\<lambda>_. Some ''0'')"
  by (simp_all add: demo_cert_ext_def)

lemma demo_loop_env_simps [simp]:
  "le_event (demo_loop_env e f) = e" "le_domains (demo_loop_env e f) = {|''example.com''|}" "le_now (demo_loop_env e f) = (\<lambda>_. 2000)"
  "le_fails (demo_loop_env e f) = f" "le_random (demo_loop_env e f) = (\<lambda>_. 0)" "le_defer (demo_loop_env e f) = None"
  "le_task (demo_loop_env e f) = to_nat"
  by (simp_all add: demo_loop_env_def)

lemma demo_retries_codec: "retries_codec demo_cert_ext"
  by (simp add: retries_codec_def demo_cert_ext_def)

lemma demo_begin:
  "set_domain_retry ''example.com'' (retry_begin (domain_retry (au_retries a) ''example.com'') 2000 None 180 0) a
     = a\<lparr>au_retries := demo_backoff\<rparr>" if "au_retries a = retries_default"
  using that
  by (simp add: set_domain_retry_def retry_begin_def retry_failed_def domain_retry_def retries_default_def retry_default_def demo_backoff_def
      backoff_base_def backoff_cap_def saturating_add_def i64_saturating_add_def i64_sat_def i64_min_def i64_max_def)

lemma demo_schedule:
  "fmlookup (au_active (schedule demo_cert_ext (demo_loop_env Tick (\<lambda>_ _. False)) (demo_loop\<lparr>au_account := True\<rparr>))) ''example.com''
     = Some (to_nat ''example.com'')"
proof -
  let ?env = "demo_loop_env Tick (\<lambda>_ _. False)" and ?a = "demo_loop\<lparr>au_account := True\<rparr>"
  have n: "needed ?env ?a = [''example.com'']"
    by (simp add: needed_def needs_certificate_def demo_loop_env_def demo_loop_def retries_default_def sorted_list_of_fset.rep_eq)
  obtain b where b: "persist_schedule demo_cert_ext ?env ?a = (Inr (), b)"
    by (simp add: persist_schedule_def cooldown_persist_def write_retries_def storage_write_def demo_loop_env_def demo_cert_ext_def demo_loop_def)
  have b': "au_retries b = retries_default" "au_jobs b = {||}" "au_account b" "expiry_of b ''example.com'' = None"
    using persist_schedule_same [OF b] by (simp_all add: demo_loop_def workload_def expiry_of_def)
  have "cooldown_ready (au_cooldown ?a) (le_now ?env Cooling)" "fcard (au_jobs ?a) = 0" "au_credentials ?a = None"
    by (simp_all add: cooldown_ready_def demo_loop_env_def demo_loop_def fcard.rep_eq)
  then have "schedule demo_cert_ext ?env ?a = spawn_workers demo_cert_ext ?env [''example.com''] b"
    using n b b' by (simp add: schedule_def fcard.rep_eq)
  then show ?thesis
    using demo_begin [of b] b'
    by (simp add: demo_loop_env_def write_retries_def storage_write_def demo_cert_ext_def workers_spawn_def)
qed

theorem issuance_paced_witness:
  "au_account (demo_loop\<lparr>au_account := True\<rparr>) \<and> ''example.com'' |\<in>| le_domains (demo_loop_env Tick (\<lambda>_ _. False))
   \<and> until_at (au_cooldown (demo_loop\<lparr>au_account := True\<rparr>)) \<le> 2000"
  using issuance_paced [OF demo_retries_codec, of "demo_loop_env Tick (\<lambda>_ _. False)" "demo_loop\<lparr>au_account := True\<rparr>" "''example.com''"]
    demo_schedule by (simp add: demo_loop_def demo_loop_env_def)

definition demo_issued :: "(nat, nat) issued" where
  "demo_issued = (\<lparr>pem_chain = ''chain'', pem_private_key = ''key''\<rparr>, demo_cert)"


definition demo_issue_env :: issue_env where
  "demo_issue_env = \<lparr>is_order = True,
     is_authorizations = [Some \<lparr>az_status = Auth_pending, az_challenge = Some (''t'', ''k''), az_ready = True\<rparr>],
     is_approved = True, is_private_key = Some ''key'', is_chain = Some ''chain''\<rparr>"

theorem worker_leaves_no_challenges_witness:
  "fst (worker_task demo_x509 2000 ''example.com'' demo_issue_env fmempty)
     = Some (\<lparr>pem_chain = ''chain'', pem_private_key = ''key''\<rparr>, demo_cert)
   \<and> fmlookup (snd (worker_task demo_x509 2000 ''example.com'' demo_issue_env fmempty)) (''example.com'', ''t'') = None"
proof -
  obtain r ch where w: "worker_task demo_x509 2000 ''example.com'' demo_issue_env fmempty = (r, ch)" by force
  have "r = Some (\<lparr>pem_chain = ''chain'', pem_private_key = ''key''\<rparr>, demo_cert)"
    using w demo_cert_parse by (auto simp: worker_task_def issue_def demo_issue_env_def pending_parse_def valid_at_def demo_cert_def)
  then show ?thesis using worker_leaves_no_challenges [OF w] w by (metis fmempty_lookup fst_conv snd_conv)
qed

end
