(* ===== verification/Commands.thy ===== *)
theory Commands
  imports Private_Files Automation
begin

text \<open>
  The commands: \<^verbatim>\<open>main.rs\<close>. Where the data directory is, the operator's commands on a wallet, and the start of the
  server: the checks of its arguments, the configuration, the data directory and its lock, the shared state, and
  the saved certificates. Both commands hold the lock of the data directory for as long as they run.
\<close>

section \<open>The data directory\<close>

datatype command_error =
    Mint_argument policy_error | Home_unavailable | Data_directory io_error | Storage_unavailable file_error | No_runtime
  | Wallet_payout payout_error | Wallet_payment payment_error | Zero_export
  | Zero_port | Same_listeners | Unreadable_config | Unusable_path | Bad_config config_error | Bad_directory_url | Insecure_directory | Panicked

definition data_dir_under :: "io_env \<Rightarrow> path \<Rightarrow> host \<Rightarrow> io_error + path" where
  "data_dir_under env base h =
     bind_result (try_exists env h (base @ [''geata''])) (\<lambda>current.
     if current then Inr (base @ [''geata''])
     else bind_result (try_exists env h (base @ [''pingora-proxy''])) (\<lambda>legacy.
       Inr (if legacy then base @ [''pingora-proxy''] else base @ [''geata''])))"

text \<open>The variables \<^verbatim>\<open>XDG_DATA_HOME\<close> and \<^verbatim>\<open>HOME\<close>.\<close>

record homes =
  xdg_data_home :: "path option"
  home_dir :: "path option"

definition default_data_dir :: "io_env \<Rightarrow> homes \<Rightarrow> host \<Rightarrow> command_error + path" where
  "default_data_dir env v h =
     bind_result (case xdg_data_home v of
         Some p \<Rightarrow> Inr p
       | None \<Rightarrow> bind_result (ok_or Home_unavailable (home_dir v)) (\<lambda>p. Inr (p @ [''.local'', ''share'']))) (\<lambda>base.
     map_sum Data_directory id (data_dir_under env base h))"

definition data_dir :: "io_env \<Rightarrow> homes \<Rightarrow> path option \<Rightarrow> host \<Rightarrow> command_error + path" where
  "data_dir env v arg h = (case arg of Some p \<Rightarrow> Inr p | None \<Rightarrow> default_data_dir env v h)"

section \<open>Wallet commands\<close>

datatype wallet_action = Pay string "nat option" nat | Pending | Reclaim string | Balance | Export nat

record command_env =
  ce_io :: io_env
  ce_runtime :: bool
  ce_payout :: payout_env
  ce_pending :: pending_env
  ce_open :: open_env
  ce_recover :: "cdk_error + (nat \<times> nat)"
  ce_balance :: "nat option"
  ce_prepared :: bool
  ce_token :: "string option"

text \<open>The lines a command prints, with the calls that move funds of a payout.\<close>

fun run_action ::
  "externals \<Rightarrow> payout_codec \<Rightarrow> command_env \<Rightarrow> string \<Rightarrow> wallet_action \<Rightarrow> mint_wallet
     \<Rightarrow> (command_error + string list) \<times> fund_call list \<times> mint_wallet" where
  "run_action x j env mint (Pay request amount max_total) s =
     (case pay x j (ce_payout env) mint request amount max_total s of
        (Inl e, calls, s1) \<Rightarrow> (Inl (Wallet_payout e), calls, s1)
      | (Inr _, calls, s1) \<Rightarrow> (Inr [''Payout delivered''], calls, s1))"
| "run_action x j env mint Pending s =
     (case wallet_pending j (ce_pending env) None s of
        (Inl e, s1) \<Rightarrow> (Inl (Wallet_payout e), [], s1)
      | (Inr rows, s1) \<Rightarrow> (Inr (if rows = [] then [''No pending sends''] else rows), [], s1))"
| "run_action x j env mint (Reclaim operation) s =
     (case wallet_pending j (ce_pending env) (Some operation) s of
        (Inl e, s1) \<Rightarrow> (Inl (Wallet_payout e), [], s1)
      | (Inr rows, s1) \<Rightarrow> (Inr (if rows = [] then [''No pending sends''] else rows), [], s1))"
| "run_action x j env mint Balance s =
     (case wallet_balance (ce_open env) (ce_recover env) (ce_balance env) s of
        (Inl e, s1) \<Rightarrow> (Inl (Wallet_payment e), [], s1)
      | (Inr n, s1) \<Rightarrow> (Inr [show_nat n @ '' sat''], [], s1))"
| "run_action x j env mint (Export amount) s =
     (if amount = 0 then (Inl Zero_export, [], s)
      else (case wallet_export (ce_open env) (ce_recover env) (ce_prepared env) (ce_token env) s of
              (Inl e, s1) \<Rightarrow> (Inl (Wallet_payment e), [], s1)
            | (Inr token, s1) \<Rightarrow> (Inr [token], [], s1)))"

definition wallet_command ::
  "externals \<Rightarrow> payout_codec \<Rightarrow> (string \<Rightarrow> string) \<Rightarrow> command_env \<Rightarrow> homes \<Rightarrow> string \<Rightarrow> path option \<Rightarrow> wallet_action \<Rightarrow> host \<Rightarrow> payments
     \<Rightarrow> (command_error + string list) \<times> fund_call list \<times> host \<times> payments" where
  "wallet_command x j sha env v mint_arg dir_arg action h ps =
     (case parse_mint x mint_arg of
        Inl e \<Rightarrow> (Inl (Mint_argument e), [], h, ps)
      | Inr mint \<Rightarrow>
          (case data_dir (ce_io env) v dir_arg h of
             Inl e \<Rightarrow> (Inl e, [], h, ps)
           | Inr dir \<Rightarrow>
               (case storage_open sha (ce_io env) dir ''geata-cashu-wallet'' h of
                  (Inl e, h1) \<Rightarrow> (Inl (Storage_unavailable e), [], h1, ps)
                | (Inr st, h1) \<Rightarrow>
                    if \<not> ce_runtime env then (Inl No_runtime, [], unlock (st_lock st) h1, ps)
                    else (case run_action x j env mint action (entry ps mint) of
                            (r, calls, s1) \<Rightarrow> (r, calls, unlock (st_lock st) h1, fmupd mint s1 ps)))))"

section \<open>The start of the server\<close>

record run_args =
  http_listen :: "ip_addr \<times> nat"
  https_listen :: "ip_addr \<times> nat"
  staging :: bool
  acme_directory :: "string option"
  run_data_dir :: "path option"

text \<open>What the start reads: the text of the Geatafile, the clocks and hash keys of the limiters, the files of each
  directory of a CA, the failing reads by domain, and the CA's URLs of the ACME library.\<close>

record start_env =
  se_io :: io_env
  se_homes :: homes
  se_text :: "string option"
  se_limiters :: limiter_env
  se_hash :: "ip_addr \<Rightarrow> nat"
  se_clock :: "nat \<Rightarrow> nat"
  se_disk :: "path \<Rightarrow> (string, string) fmap"
  se_fails :: "string \<Rightarrow> fs_call \<Rightarrow> bool"
  se_staging_url :: string
  se_production_url :: string
  se_lightning_db :: lightning_db
  se_wallets :: payments
  se_absolute :: bool

record ('x, 'k) started =
  su_gateway :: gateway
  su_certificates :: "(string, ('x, 'k) certificate) fmap"
  su_storage :: storage
  su_https_port :: nat

definition directory_url :: "start_env \<Rightarrow> run_args \<Rightarrow> string" where
  "directory_url env args =
     (case acme_directory args of
        Some url \<Rightarrow> url
      | None \<Rightarrow> if staging args then se_staging_url env else se_production_url env)"

definition saved_certificates ::
  "('x, 'k) cert_ext \<Rightarrow> (string \<Rightarrow> fs_call \<Rightarrow> bool) \<Rightarrow> (string, string) fmap \<Rightarrow> string fset \<Rightarrow> (string, ('x, 'k) certificate) fmap" where
  "saved_certificates x fails dir domains =
     fold (\<lambda>domain certs. case storage_certificate (x_ops x) (fails domain) (pem_from_json x) dir domain of
                            Some cert \<Rightarrow> fmupd domain cert certs
                          | None \<Rightarrow> certs) (sorted_list_of_fset domains) fmempty"

definition lightning_new :: "(ip_addr \<Rightarrow> nat) \<Rightarrow> (nat \<Rightarrow> nat) \<Rightarrow> lightning_db \<Rightarrow> lightning_service option" where
  "lightning_new hash now db =
     map_option (\<lambda>limiter. \<lparr>ls_store = \<lparr>ln_db = db, ln_open = False\<rparr>, ls_issuance = limiter, ls_concurrency = issuance_default\<rparr>)
       (with_prefix \<lparr>per_second = 1, burst = 3\<rparr> 64 hash now)"

text \<open>A new process has no wallet open and no database; what is on disk stays.\<close>

definition new_state :: "start_env \<Rightarrow> config \<Rightarrow> command_error + gateway" where
  "new_state env c =
     (case (state_new (se_hash env) (se_clock env) c, lightning_new (se_hash env) (se_clock env) (se_lightning_db env)) of
        (Some g, Some l) \<Rightarrow> Inr (g\<lparr>gw_payments := Some (restart_payments (se_wallets env)), gw_lightning := Some l\<rparr>)
      | _ \<Rightarrow> Inl Panicked)"

definition read_config :: "externals \<Rightarrow> start_env \<Rightarrow> command_error + config" where
  "read_config x env =
     bind_result (ok_or Unreadable_config (se_text env)) (\<lambda>text.
     case config_parse x (se_limiters env) text of
       None \<Rightarrow> Inl Panicked
     | Some (Inl e) \<Rightarrow> Inl (Bad_config e)
     | Some (Inr c) \<Rightarrow> Inr c)"

definition validate_command :: "externals \<Rightarrow> start_env \<Rightarrow> string \<Rightarrow> command_error + string" where
  "validate_command x env file_name =
     bind_result (read_config x env) (\<lambda>c.
       Inr (file_name @ '' is valid ('' @ show_nat (fmlen (cfg_sites c)) @ '' sites)''))"

definition check_directory_url :: "externals \<Rightarrow> string \<Rightarrow> command_error + unit" where
  "check_directory_url x u =
     bind_result (ok_or Bad_directory_url (url_parse x u)) (\<lambda>url.
     ensure (url_scheme url = ''https'' \<and> url_host url \<noteq> None) Insecure_directory)"

definition run_checks :: "externals \<Rightarrow> start_env \<Rightarrow> run_args \<Rightarrow> host \<Rightarrow> command_error + config \<times> path" where
  "run_checks x env args h =
     bind_result (ensure (snd (http_listen args) \<noteq> 0 \<and> snd (https_listen args) \<noteq> 0) Zero_port) (\<lambda>_.
     bind_result (ensure (http_listen args \<noteq> https_listen args) Same_listeners) (\<lambda>_.
     bind_result (read_config x env) (\<lambda>c.
     bind_result (ensure (se_absolute env) Unusable_path) (\<lambda>_.
     bind_result (data_dir (se_io env) (se_homes env) (run_data_dir args) h) (\<lambda>dir.
     bind_result (check_directory_url x (directory_url env args)) (\<lambda>_.
       Inr (c, dir)))))))"

definition run_start ::
  "externals \<Rightarrow> ('x, 'k) cert_ext \<Rightarrow> (string \<Rightarrow> string) \<Rightarrow> start_env \<Rightarrow> run_args \<Rightarrow> host \<Rightarrow> (command_error + ('x, 'k) started) \<times> host" where
  "run_start x cx sha env args h =
     (case run_checks x env args h of
        Inl e \<Rightarrow> (Inl e, h)
      | Inr (c, dir) \<Rightarrow>
          (case storage_open sha (se_io env) dir (directory_url env args) h of
             (Inl e, h1) \<Rightarrow> (Inl (Storage_unavailable e), h1)
           | (Inr st, h1) \<Rightarrow>
               (case new_state env c of
                  Inl e \<Rightarrow> (Inl e, unlock (st_lock st) h1)
                | Inr g \<Rightarrow>
                    (Inr \<lparr>su_gateway = g,
                          su_certificates = saved_certificates cx (se_fails env) (se_disk env (st_directory st)) (https_domains c),
                          su_storage = st, su_https_port = snd (https_listen args)\<rparr>, h1))))"

section \<open>One command at a time\<close>

lemma storage_open_held:
  assumes "machine_ok s" "(root, st) \<in> set (m_live s)" "located (h_tree (m_host s)) dir = located (h_tree (m_host s)) root"
  shows "\<exists>e h'. storage_open sha env dir url (m_host s) = (Inl e, h')"
proof (rule ccontr)
  assume "\<not> ?thesis"
  then obtain st' h' where o: "storage_open sha env dir url (m_host s) = (Inr st', h')" by (metis obj_sumE surj_pair)
  have ok: "machine_ok \<lparr>m_host = h', m_live = (dir, st') # m_live s\<rparr>"
    by (rule machine_step_ok [OF machine_step.opened [OF o] assms(1)])
  obtain d where d: "located (h_tree (m_host s)) root = Inr d" using assms(1,2) by (auto simp: machine_ok_def owns_def)
  have "grows (m_host s) h'" using storage_open_effect [OF o] by simp
  then have "located (h_tree h') root = Inr d" "located (h_tree h') dir = Inr d"
    using locate_kept [OF grows_shape] d assms(3) by simp_all
  moreover have "(\<lambda>(root, st). located (h_tree h') root) (root, st) \<in> (\<lambda>(root, st). located (h_tree h') root) ` set (m_live s)"
    using assms(2) by (rule imageI)
  ultimately show False using machine_ok_distinct [OF ok] by simp
qed

lemma run_action_claims: "run_action x j env mint action s = (r, calls, s') \<Longrightarrow> claims_kept s s'"
  by (cases action)
    (auto simp: wallet_balance_def wallet_export_def claims_kept_def split: prod.splits sum.splits if_splits
      dest!: pay_claims wallet_pending_claims wallet_open_keeps mw_recover_keeps)

lemma run_action_guarded:
  assumes "run_action x j env mint action s = (r, calls, s')" "row j s = Some st" "pending st \<noteq> None"
  shows "calls = []"
proof (cases action)
  case (Pay request amount max_total)
  then obtain q where "pay x j (ce_payout env) mint request amount max_total s = (q, calls, s')"
    using assms(1) by (auto split: prod.splits sum.splits)
  then show ?thesis by (rule pay_cases) (use assms(2,3) in auto)
qed (use assms(1) in \<open>auto split: prod.splits sum.splits if_splits\<close>)

lemma wallet_command_cases:
  assumes "wallet_command x j sha env v mint_arg dir_arg action h ps = (r, calls, h', ps')"
  obtains (failed) e where "r = Inl e" "calls = []" "ps' = ps" "h_locks h' = h_locks h"
  | (ran) mint dir st h1 s1 where "parse_mint x mint_arg = Inr mint" "data_dir (ce_io env) v dir_arg h = Inr dir"
      "storage_open sha (ce_io env) dir ''geata-cashu-wallet'' h = (Inr st, h1)" "run_action x j env mint action (entry ps mint) = (r, calls, s1)"
      "h' = unlock (st_lock st) h1" "ps' = fmupd mint s1 ps" "h_locks h' = h_locks h"
proof -
  consider (early) e where "r = Inl e" "calls = []" "ps' = ps" "h' = h"
    | (tried) mint dir q h1 where "parse_mint x mint_arg = Inr mint" "data_dir (ce_io env) v dir_arg h = Inr dir"
        "storage_open sha (ce_io env) dir ''geata-cashu-wallet'' h = (q, h1)"
  proof (cases "parse_mint x mint_arg")
    case (Inl e)
    then show thesis using assms early by (auto simp: wallet_command_def)
  next
    case (Inr mint)
    show thesis
    proof (cases "data_dir (ce_io env) v dir_arg h")
      case Inl': (Inl e)
      then have "(r, calls, h', ps') = (Inl e, [], h, ps)" using assms Inr by (simp add: wallet_command_def)
      then show thesis using early by simp
    next
      case Inr': (Inr dir)
      then show thesis using tried [OF Inr Inr'] by (metis surj_pair)
    qed
  qed
  then show thesis
  proof cases
    case early
    then show thesis by (intro failed) auto
  next
    case (tried mint dir q h1)
    note eff = storage_open_effect [OF tried(3)]
    show thesis
    proof (cases q)
      case (Inl e)
      then show thesis using assms tried eff by (intro failed [of "Storage_unavailable e"]) (auto simp: wallet_command_def)
    next
      case (Inr st)
      then have l: "h_locks (unlock (st_lock st) h1) = h_locks h" using eff by (auto simp: unlock_def)
      show thesis
      proof (cases "ce_runtime env")
        case True
        obtain r1 calls1 s1 where a: "run_action x j env mint action (entry ps mint) = (r1, calls1, s1)" by (metis prod.exhaust)
        then show thesis using assms tried Inr l True by (intro ran [of mint dir st h1 s1]) (auto simp: wallet_command_def)
      next
        case False
        then show thesis using assms tried Inr l by (intro failed [of No_runtime]) (auto simp: wallet_command_def)
      qed
    qed
  qed
qed

text \<open>
  C13: The operator's commands keep the guarantees of the gateway. Whatever processes run, a wallet command on a
  data directory that a live process has, under whatever name, is refused before it touches a wallet; a command
  never prepares or confirms a payout of a wallet while an earlier one has no known outcome; it forgets no
  admitted payment, of any mint; and it leaves the locks as they were.
\<close>

theorem wallet_command_sound:
  assumes "(machine_step sha)\<^sup>*\<^sup>* s0 s" "m_live s0 = []" "h_locks (m_host s0) = {||}"
    and "wallet_command x j sha env v mint_arg dir_arg action (m_host s) ps = (r, calls, h', ps')"
  shows "(\<forall>dir root st. data_dir (ce_io env) v dir_arg (m_host s) = Inr dir \<and> (root, st) \<in> set (m_live s)
         \<and> located (h_tree (m_host s)) dir = located (h_tree (m_host s)) root \<longrightarrow> (\<exists>e. r = Inl e) \<and> calls = [] \<and> ps' = ps)
    \<and> (\<forall>mint st. parse_mint x mint_arg = Inr mint \<and> row j (entry ps mint) = Some st \<and> pending st \<noteq> None \<longrightarrow> calls = [])
    \<and> (\<forall>mint. claims_kept (entry ps mint) (entry ps' mint)) \<and> h_locks h' = h_locks (m_host s)"
proof -
  have "machine_ok s0" using assms(2,3) by (simp add: machine_ok_def)
  then have ok: "machine_ok s" using machine_run.reach_inv [OF assms(1)] by blast
  from assms(4) show ?thesis
  proof (cases rule: wallet_command_cases)
    case (failed e)
    then show ?thesis by (simp add: claims_kept_def)
  next
    case (ran mint dir st h1 s1)
    have "claims_kept (entry ps m) (entry ps' m)" for m
      using run_action_claims [OF ran(4)] by (simp add: ran(6) entry_def claims_kept_def)
    moreover have "\<not> (\<exists>root st. (root, st) \<in> set (m_live s) \<and> located (h_tree (m_host s)) dir = located (h_tree (m_host s)) root)"
    proof
      assume "\<exists>root st. (root, st) \<in> set (m_live s) \<and> located (h_tree (m_host s)) dir = located (h_tree (m_host s)) root"
      then obtain root st' where "(root, st') \<in> set (m_live s)" "located (h_tree (m_host s)) dir = located (h_tree (m_host s)) root" by blast
      from storage_open_held [OF ok this, of sha "ce_io env" "''geata-cashu-wallet''"] show False using ran(3) by simp
    qed
    ultimately show ?thesis using ran run_action_guarded [OF ran(4)] by auto
  qed
qed

section \<open>Restart\<close>

lemma fold_certificates:
  "fmlookup (fold (\<lambda>d m. case g d of Some c \<Rightarrow> fmupd d c m | None \<Rightarrow> m) ds m) d =
     (if d \<in> set ds \<and> g d \<noteq> None then g d else fmlookup m d)"
  by (induction ds arbitrary: m) (auto split: option.splits)

lemma saved_certificates_lookup:
  "fmlookup (saved_certificates x fails dir domains) d =
     (if d |\<in>| domains then storage_certificate (x_ops x) (fails d) (pem_from_json x) dir d else None)"
  unfolding saved_certificates_def fold_certificates by (simp add: sorted_list_of_fset.rep_eq)

definition pem_codec :: "('x, 'k) cert_ext \<Rightarrow> bool" where
  "pem_codec x \<longleftrightarrow> (\<forall>p bytes. pem_to_json x p = Some bytes \<longrightarrow> pem_from_json x bytes = Some p)"

lemma installed_reads_back:
  assumes "pem_codec x" "pending_parse (x_ops x) t domain pem = Some issued" "pending_install x fails domain issued a = (True, a')" "\<not> fails' Read_file"
  shows "storage_certificate (x_ops x) fails' (pem_from_json x) (au_dir a') domain = Some (snd issued)"
proof -
  have i: "certificate_parse (x_ops x) domain (fst issued) = Inr (snd issued)"
    using assms(2) by (auto simp: pending_parse_def split: sum.splits if_splits)
  obtain dir where w: "storage_write fails (pem_to_json x) (au_dir a) (domain @ ''.json'') (fst issued) = (Inr (), dir)" "au_dir a' = dir"
    using assms(3) by (auto simp: pending_install_def split: sum.splits prod.splits)
  obtain bytes where "pem_to_json x (fst issued) = Some bytes" "fmlookup dir (domain @ ''.json'') = Some bytes"
    using storage_write_done [OF w(1)] by auto
  then show ?thesis
    using assms(1,4) i w(2) by (simp add: storage_certificate_def storage_read_def ok_or_def pem_codec_def)
qed

lemma https_domain_site:
  assumes "config_ok x c" "domain |\<in>| https_domains c"
  obtains site where "fmlookup (cfg_sites c) domain = Some site" "site_https site"
  using assms by (auto simp: https_domains_def config_ok_def site_ok_def fmlookup_ran_iff)

lemma run_start_ok:
  assumes "run_start x cx sha env args h = (Inr su, h')"
  obtains c dir input where "se_text env = Some input" "config_parse x (se_limiters env) input = Some (Inr c)" "gw_config (su_gateway su) = c"
    "su_certificates su = saved_certificates cx (se_fails env) (se_disk env (st_directory (su_storage su))) (https_domains c)"
    "storage_open sha (se_io env) dir (directory_url env args) h = (Inr (su_storage su), h')" "gateway_live (su_gateway su)"
proof -
  obtain c dir st g where c: "run_checks x env args h = Inr (c, dir)" "storage_open sha (se_io env) dir (directory_url env args) h = (Inr st, h')"
    "new_state env c = Inr g" "su = \<lparr>su_gateway = g,
        su_certificates = saved_certificates cx (se_fails env) (se_disk env (st_directory st)) (https_domains c),
        su_storage = st, su_https_port = snd (https_listen args)\<rparr>"
    using assms by (auto simp: run_start_def split: sum.splits prod.splits)
  have "read_config x env = Inr c"
    using c(1) by (auto simp: run_checks_def bind_result_def split: sum.splits)
  then obtain input where i: "se_text env = Some input" "config_parse x (se_limiters env) input = Some (Inr c)"
    by (auto simp: read_config_def bind_result_def ok_or_def split: sum.splits option.splits)
  obtain g0 l where g: "state_new (se_hash env) (se_clock env) c = Some g0"
    "g = g0\<lparr>gw_payments := Some (restart_payments (se_wallets env)), gw_lightning := Some l\<rparr>"
    using c(3) by (auto simp: new_state_def split: option.splits)
  have "gw_config g = c" using g by (auto simp: state_new_def)
  moreover have "gateway_live g" using state_new_live [OF i(2) g(1)] by (simp add: g(2))
  ultimately show thesis using that [OF i] c by simp
qed

text \<open>What \<^verbatim>\<open>validate\<close> refuses, \<^verbatim>\<open>run\<close> refuses, before it opens its data directory.\<close>

lemma validate_agrees:
  assumes "validate_command x env file_name = Inl e"
  shows "\<exists>e. run_start x cx sha env args h = (Inl e, h)"
proof -
  have "read_config x env = Inl e" using assms by (auto simp: validate_command_def bind_result_def split: sum.splits)
  then have "\<exists>e. run_checks x env args h = Inl e" by (auto simp: run_checks_def bind_result_def ensure_def)
  then show ?thesis by (auto simp: run_start_def)
qed

text \<open>
  C14: A certificate survives a restart. When an issued certificate has been installed and the server starts with
  the files of that CA, for a configuration in which the domain is an HTTPS site, then before any connection is
  accepted the certificate answers the handshakes for that name, in any case, for as long as it is valid; and the
  state the server starts from is one in which no request ends in an internal error.
\<close>

theorem restart_serves_saved:
  assumes "pem_codec cx" "pending_parse (x_ops cx) t domain pem = Some issued" "pending_install cx fails domain issued a = (True, a')"
    and "run_start x cx sha env args h = (Inr su, h')" "se_disk env (st_directory (su_storage su)) = au_dir a'" "\<not> se_fails env domain Read_file"
    and "domain |\<in>| https_domains (gw_config (su_gateway su))" "to_ascii_lowercase name = domain" "valid_at (snd issued) now"
  shows "certificate_callback (\<lambda>d. map_option site_https (fmlookup (cfg_sites (gw_config (su_gateway su))) d)) (su_certificates su) now (Some name)
      = Some (snd issued) \<and> gateway_live (su_gateway su)"
proof -
  obtain c dir input where c: "config_parse x (se_limiters env) input = Some (Inr c)" "gw_config (su_gateway su) = c"
    "su_certificates su = saved_certificates cx (se_fails env) (au_dir a') (https_domains c)" "gateway_live (su_gateway su)"
    using run_start_ok [OF assms(4)] assms(5) by metis
  obtain site where "fmlookup (cfg_sites c) domain = Some site" "site_https site"
    using https_domain_site config_parse_ok [OF c(1)] assms(7) c(2) by metis
  moreover have "fmlookup (su_certificates su) domain = Some (snd issued)"
    using installed_reads_back [OF assms(1,2,3), of "se_fails env domain"] assms(6,7) c(2,3) by (simp add: saved_certificates_lookup)
  ultimately show ?thesis using assms(8,9) c(2,4) by (simp add: certificate_callback_def Let_def)
qed

section \<open>Witnesses\<close>

abbreviation demo_www :: string where
  "demo_www \<equiv> ''www.example.com''"

lemma demo_https_tokens:
  "tokenize Some ''www.example.com { respond 204 }'' = Inr [word_tok 1 demo_www,
     brace_tok 1 Open, word_tok 1 ''respond'', word_tok 1 ''204'', brace_tok 1 Close]"
  by (simp add: tokenize_eval)

lemma demo_https_blocks:
  "read_blocks x [word_tok L demo_www, brace_tok L Open, word_tok L ''respond'', word_tok L ''204'', brace_tok L Close] fmempty []
   = Inr (fmempty, [(demo_www, [word_tok L ''respond'', word_tok L ''204''], L)])"
  by (simp add: read_blocks.simps read_block_def tok_text_def is_text_def)

lemma demo_https_domain: "valid_domain demo_www True" "block_domain demo_www = demo_www"
  by (simp_all add: valid_domain_def parse_ip_addr_name to_digit_def hex_val_def valid_label_def
      is_ascii_alphanumeric_def is_ascii_digit_def is_ascii_lower_def block_domain_def strip_prefix_def suffix_def
      to_ascii_lowercase_def ascii_lower_Char is_ascii_upper_def)

lemma demo_https_parse:
  obtains c where "config_parse demo_ext demo_limiter_env ''www.example.com { respond 204 }'' = Some (Inr c)" "https_domains c = {|demo_www|}"
proof -
  let ?body = "[word_tok 1 ''respond'', word_tok 1 ''204'']"
  have j: "json_string demo_ext = Some" by (simp add: demo_ext_def)
  obtain p where p: "parse_directives demo_ext ?body 1 fmempty demo_www True = Inr p" "pd_lightning p = None"
    by (simp add: parse_directives_def demo_directives finish_lightning_def) (simp add: directives_init_def)
  obtain s where s: "build_site demo_limiter_env demo_www True p = Some s" "site_ok demo_ext demo_www s"
    using build_site_ok [OF p(1), of demo_limiter_env] p(2) demo_https_domain(1) by auto
  have "site_https s" "site_domain s = demo_www"
    using s by (auto simp: build_site_def site_ok_def Let_def split: option.splits)
  moreover have "fmupd demo_www s fmempty \<noteq> fmempty" by (metis fmempty_lookup fmupd_lookup option.distinct(1))
  moreover have "add_site demo_ext demo_limiter_env fmempty demo_www ?body 1 \<lparr>cfg_sites = fmempty, cfg_payouts = []\<rparr>
      = Some (Inr \<lparr>cfg_sites = fmupd demo_www s fmempty, cfg_payouts = []\<rparr>)"
    by (simp add: add_site_def demo_https_domain p [simplified] s Let_def)
  moreover have "fmran (fmupd demo_www s fmempty) = {|s|}"
    by (rule fset_eqI) (simp add: fmlookup_ran_iff, metis option.distinct(1) option.inject)
  moreover have "ffilter site_https {|s|} = {|s|}" using calculation(1) by (intro fset_eqI) auto
  ultimately show thesis
    using that [of "\<lparr>cfg_sites = fmupd demo_www s fmempty, cfg_payouts = []\<rparr>"]
    by (simp add: config_parse_def j demo_https_tokens demo_https_blocks https_domains_def)
qed

definition demo_start_ext :: "(nat, nat) cert_ext" where
  "demo_start_ext = demo_cert_ext\<lparr>x_ops := demo_x509\<lparr>subject_alt_names := (\<lambda>_. Some [Some demo_www])\<rparr>,
     pem_to_json := (\<lambda>p. if p = fst demo_issued then Some ''p'' else None),
     pem_from_json := (\<lambda>s. if s = ''p'' then Some (fst demo_issued) else None)\<rparr>"

lemma demo_pem_codec: "pem_codec demo_start_ext"
  by (simp add: pem_codec_def demo_start_ext_def)

lemma demo_pending: "pending_parse (x_ops demo_start_ext) 2000 demo_www (fst demo_issued) = Some demo_issued"
  by (simp add: pending_parse_def demo_start_ext_def certificate_parse_def demo_x509_def demo_cert_def demo_issued_def covers_domain_def
      timestamp_def i64_wrap_def valid_at_def eq_ignore_ascii_case_def to_ascii_lowercase_def ascii_lower_Char is_ascii_upper_def)

definition demo_installed :: "(nat, nat) automation" where
  "demo_installed = snd (pending_install demo_start_ext (\<lambda>_. False) demo_www demo_issued demo_loop)"

lemma demo_install: "pending_install demo_start_ext (\<lambda>_. False) demo_www demo_issued demo_loop = (True, demo_installed)"
  by (simp add: demo_installed_def pending_install_def storage_write_def demo_start_ext_def)

definition demo_start :: start_env where
  "demo_start = \<lparr>se_io = demo_io, se_homes = \<lparr>xdg_data_home = None, home_dir = None\<rparr>, se_text = Some ''www.example.com { respond 204 }'',
     se_limiters = demo_limiter_env, se_hash = (\<lambda>_. 0), se_clock = (\<lambda>_. 0), se_disk = (\<lambda>_. au_dir demo_installed),
     se_fails = (\<lambda>_ _. False), se_staging_url = ''https://m'', se_production_url = ''https://a'',
     se_lightning_db = ln_db demo_lightning_db, se_wallets = fmempty, se_absolute = True\<rparr>"

definition demo_args :: run_args where
  "demo_args = \<lparr>http_listen = (V4 0, 80), https_listen = (V4 0, 443), staging = False, acme_directory = None, run_data_dir = Some [''d'']\<rparr>"

lemma demo_data_open: "\<exists>st h'. storage_open (\<lambda>u. u) demo_io [''d''] ''https://a'' demo_host = (Inr st, h')"
  by (simp add: storage_open_def and_then_def create_dir_all.simps mkdir_def new_node_def demo_io_def demo_host_def add_node_def
      check_directory_def lstat_def ok_or_def open_lock_def resolve.simps try_lock_def ca_directory_def make_private_def ensure_def Let_def
      private_mode_def hex_def)

theorem restart_serves_saved_witness:
  "\<exists>su h'. run_start demo_ext demo_start_ext (\<lambda>u. u) demo_start demo_args demo_host = (Inr su, h')
     \<and> certificate_callback (\<lambda>d. map_option site_https (fmlookup (cfg_sites (gw_config (su_gateway su))) d)) (su_certificates su) 3000
          (Some ''WWW.example.com'') = Some demo_cert"
proof -
  obtain c where c: "config_parse demo_ext demo_limiter_env ''www.example.com { respond 204 }'' = Some (Inr c)" "https_domains c = {|demo_www|}"
    by (rule demo_https_parse)
  obtain st h1 where st: "storage_open (\<lambda>u. u) demo_io [''d''] ''https://a'' demo_host = (Inr st, h1)" using demo_data_open by blast
  obtain g l where g: "state_new (\<lambda>_. 0) (\<lambda>_. 0) c = Some g" "lightning_new (\<lambda>_. 0) (\<lambda>_. 0) (ln_db demo_lightning_db) = Some l"
    by (simp add: state_new_def lightning_new_def with_prefix_def)
  have "directory_url demo_start demo_args = ''https://a''" by (simp add: directory_url_def demo_start_def demo_args_def)
  moreover have "run_checks demo_ext demo_start demo_args demo_host = Inr (c, [''d''])"
    using calculation c(1) by (simp add: run_checks_def read_config_def ok_or_def check_directory_url_def data_dir_def demo_start_def demo_args_def
        demo_ext_def demo_url_def ensure_def)
  ultimately obtain su where su: "run_start demo_ext demo_start_ext (\<lambda>u. u) demo_start demo_args demo_host = (Inr su, h1)"
    "gw_config (su_gateway su) = c"
    using st g by (simp add: run_start_def new_state_def demo_start_def) (auto simp: state_new_def)
  have "certificate_callback (\<lambda>d. map_option site_https (fmlookup (cfg_sites (gw_config (su_gateway su))) d)) (su_certificates su) 3000
      (Some ''WWW.example.com'') = Some (snd demo_issued)"
    by (rule conjunct1 [OF restart_serves_saved [OF demo_pem_codec demo_pending demo_install su(1)]])
      (simp_all add: su(2) c(2) demo_start_def demo_issued_def demo_cert_def valid_at_def to_ascii_lowercase_def ascii_lower_Char is_ascii_upper_def)
  then show ?thesis using su(1) by (auto simp: demo_issued_def)
qed

definition demo_command_env :: command_env where
  "demo_command_env = \<lparr>ce_io = demo_io, ce_runtime = True, ce_payout = demo_payout_env,
     ce_pending = \<lparr>g_open = p_open demo_payout_env, g_recover = Inr (0, 0), g_operation_ok = (\<lambda>_. True), g_revoke = True, g_read = tx_ok,
       g_saga = (\<lambda>_. Some False), g_now = 1000, g_save = tx_ok, g_sends = Some []\<rparr>,
     ce_open = p_open demo_payout_env, ce_recover = Inr (0, 0), ce_balance = Some 30, ce_prepared = True, ce_token = Some ''t''\<rparr>"

theorem wallet_command_sound_witness:
  "\<exists>st h1 e h2. storage_open (\<lambda>u. u) demo_io [''d''] ''https://a'' demo_host = (Inr st, h1)
     \<and> wallet_command demo_ext demo_codec (\<lambda>u. u) demo_command_env \<lparr>xdg_data_home = None, home_dir = None\<rparr> ''https://m'' (Some [''d'']) Balance h1 fmempty
         = (Inl e, [], h2, fmempty)"
proof -
  let ?s0 = "\<lparr>m_host = demo_host, m_live = []\<rparr>"
  obtain st h1 where st: "storage_open (\<lambda>u. u) demo_io [''d''] ''https://a'' demo_host = (Inr st, h1)" using demo_data_open by blast
  have "machine_step (\<lambda>u. u) ?s0 \<lparr>m_host = h1, m_live = ([''d''], st) # m_live ?s0\<rparr>"
    by (rule machine_step.opened [of _ demo_io _ "''https://a''"]) (simp add: st)
  then have run: "(machine_step (\<lambda>u. u))\<^sup>*\<^sup>* ?s0 \<lparr>m_host = h1, m_live = [([''d''], st)]\<rparr>" by simp
  obtain r calls h2 ps where c: "wallet_command demo_ext demo_codec (\<lambda>u. u) demo_command_env \<lparr>xdg_data_home = None, home_dir = None\<rparr>
      ''https://m'' (Some [''d'']) Balance (m_host \<lparr>m_host = h1, m_live = [([''d''], st)]\<rparr>) fmempty = (r, calls, h2, ps)"
    by (metis prod.exhaust)
  have "\<exists>e. r = Inl e \<and> calls = [] \<and> ps = fmempty"
    using wallet_command_sound [OF run _ _ c] by (simp add: demo_host_def data_dir_def)
  then show ?thesis using st c by auto
qed

end
