(* ===== verification/Spec2Isabelle.thy ===== *)
theory Spec2Isabelle
  imports Deposits Connections Receiver Commands
begin

text \<open>
  \<^bold>\<open>A verification library of Geata.\<close>

  Geata (\<^verbatim>\<open>src/crates/geata\<close>) is a reverse proxy that obtains its certificates by itself and can ask for a
  payment before it serves a request: Cashu tokens, Lightning payments over x402, and Lightning payments over
  L402, where the invoice is the one of a Lightning node or of a Cashu mint. A text file, the Geatafile, says
  which sites there are, what they cost, how often a client may ask, and when collected funds are paid out.

  \<^bold>\<open>The parts and how they interact.\<close> \<^verbatim>\<open>main.rs\<close> takes the lock of the data directory, parses the Geatafile and
  sets up the shared state (\<^verbatim>\<open>state.rs\<close>). Connections are admitted by \<^verbatim>\<open>connections.rs\<close>, requests by
  \<^verbatim>\<open>proxy.rs\<close>, which asks the limiters (\<^verbatim>\<open>rate_limit.rs\<close>, \<^verbatim>\<open>Capacity\<close> of \<^verbatim>\<open>config.rs\<close>) and, for a site with a price,
  the payments: \<^verbatim>\<open>payments/mod.rs\<close> redeems Cashu tokens and records them in a journal (\<^verbatim>\<open>payments/ledger.rs\<close>),
  \<^verbatim>\<open>payments/lightning\<close> issues challenges and settles proofs against its database. In the background,
  \<^verbatim>\<open>automation.rs\<close> reloads the Geatafile, renews certificates (\<^verbatim>\<open>certificates.rs\<close>, \<^verbatim>\<open>acme_http.rs\<close>, \<^verbatim>\<open>retry.rs\<close>,
  \<^verbatim>\<open>storage.rs\<close>), pays out (\<^verbatim>\<open>payments/payout.rs\<close>), recovers deposits at mints (\<^verbatim>\<open>payments/minting.rs\<close>,
  \<^verbatim>\<open>payments/lightning/cashu.rs\<close>) and prunes records (\<^verbatim>\<open>payments/lightning/maintenance.rs\<close>).

  \<^bold>\<open>The theories,\<close> in the order in which they build on each other:

  \<^item> \<open>Geata_Prelude\<close>: Rust's integer arithmetic at its width, results as sums, runs of operations, and the
    locales \<open>step_invariant\<close> (an invariant of steps holds on every path) and \<open>single_use\<close> (a key that is granted was
    free before and is taken after, so it is granted once). \<open>Rust_Text\<close>: strings as their UTF-8 bytes, searching,
    splitting, numbers, hexadecimal, UTF-8.
  \<^item> \<open>Rate_Limit\<close> (\<^verbatim>\<open>rate_limit.rs\<close>): client keys, refill, shards, sweeps. The locale \<open>token_bucket\<close> bounds the
    admissions of a key over any period; it is interpreted on a shard (\<open>shard\<close>) and on the limiter (\<open>limiter\<close>). A refused
    client is told the exact delay, or a minute when its shard is full. \<open>Capacity\<close> (\<^verbatim>\<open>config.rs\<close>): permits as an interleaving of acquisitions and the two
    halves of a drop, interpretation \<open>pool\<close>.
  \<^item> \<open>Geatafile\<close>, \<open>Payment_Policies\<close>, \<open>Config\<close> (\<^verbatim>\<open>config.rs\<close>, policies of \<^verbatim>\<open>payments\<close>): the tokenizer and its round trip,
    the leaf parsers, the policies, and \<open>config_parse\<close>: it always returns, and what it accepts is well formed.
  \<^item> \<open>Ledger\<close> (\<^verbatim>\<open>payments/ledger.rs\<close>): the journal with transactions that may fail before, in and after their commit; it
    refines an abstract register of bound and used payments, and claims are single use (\<open>journal\<close>).
  \<^item> \<open>Cashu_Payments\<close> (\<^verbatim>\<open>payments/mod.rs\<close>): tokens and their identities, validation, redemption, recovery, admission.
    \<open>Payout\<close> (\<^verbatim>\<open>payments/payout.rs\<close>): schedule, caps, the guard that keeps an uncertain payout from being repeated
    (\<open>payout_run\<close>) and the delay between attempts; over all operations on all wallets a token is admitted once (\<open>wallet_run\<close>).
  \<^item> \<open>Lightning_Proofs\<close>, \<open>Settlements\<close>, \<open>Challenges\<close>, \<open>Receiver\<close> (\<^verbatim>\<open>payments/lightning\<close>): what a proof over x402 or L402
    establishes and what it is bound to; the database of settled payments, with what every operation keeps of it
    (locale \<open>table_invariant\<close>, interpretation \<open>records\<close>); challenges and their slots; the request to a node.
  \<^item> \<open>Deposits\<close> (\<^verbatim>\<open>payments/minting.rs\<close>, \<^verbatim>\<open>payments/lightning/cashu.rs\<close>): invoices of mints, recovery in rounds (locale
    \<open>round_robin\<close>, interpretation \<open>sweeps\<close>), retirement and removal: no funds are forgotten, no deposit is starved.
    Its last part runs all operations on the settlement database together, the recovery of the deposits and restarts
    included (\<open>store_step\<close>): a payment hash settles once (\<open>store_run\<close>), the records stay bounded (\<open>record_run\<close>, of the locale
    \<open>store_invariant\<close>), and a credential stays usable until it expires (\<open>root_run\<close>, \<open>row_run\<close>).
  \<^item> \<open>Gateway\<close>, \<open>Service\<close> (\<^verbatim>\<open>proxy.rs\<close>, \<^verbatim>\<open>state.rs\<close>): the request path from the host to the upstream, with its headers,
    body limits, limiters and payments; start and reload of the state (\<open>gateway_run\<close>, \<open>service_run\<close>). A paid site is reached only
    with evidence of an admission; no request ends in an internal error; requests change no setting, and a reload takes
    the new settings and keeps the state of the limits that are set as before.
  \<^item> \<open>Certificates\<close>, \<open>Retry\<close>, \<open>Automation\<close>: certificates and stored files, the cooldown of the CA, the backoff, and an
    iteration of the certificate loop with its workers (\<open>certificate_run\<close>), the watcher and the payout pass. A write of a stored
    file is modelled call by call on a disk that may lose its power (\<open>storage_write_steps\<close>, \<open>disk_run\<close>), and refines the one-step
    \<open>storage_write\<close> that the other definitions call.
  \<^item> \<open>Private_Files\<close> (\<^verbatim>\<open>payments/mod.rs\<close>, \<^verbatim>\<open>storage.rs\<close>): a file system with links, modes, synced entries and locks. A wallet
    never gets a second seed (locale \<open>write_once\<close>, interpretation \<open>wallet_seed\<close>); no two processes share a data directory
    (\<open>machine_run\<close>). \<open>Connections\<close> (\<^verbatim>\<open>connections.rs\<close>, \<^verbatim>\<open>logging.rs\<close>): connections refine the permits of \<open>Capacity\<close>; the log
    filter. \<open>Commands\<close> (\<^verbatim>\<open>main.rs\<close>): the operator's commands and the start of the server, composed from the others.

  \<^bold>\<open>How the code is written down.\<close> A struct is a record, an enum a datatype, a map a finite map, a result a sum; a
  handler is a function on the state that returns its result and the new state, with every early return. Unsigned
  integers are \<open>nat\<close> with the width written out where they wrap, saturate or are checked, \<^verbatim>\<open>i64\<close> is \<open>int\<close> likewise, addresses
  and mode bits are words. Calls that may fail (databases, files, the wallet library, the clock, randomness, the network)
  read their outcome from an environment that the theorems quantify over, so every theorem holds for every pattern of
  failures. Nothing is bounded by fuel: loops are recursive functions with a termination proof, and runs are lists of operations or
  paths of a step relation of any length. The one number that bounds a recursion is the kernel's limit of 40 symbolic links.

  \<^bold>\<open>What is relied on of code outside the repository\<close> is a named hypothesis where it is used, and each is instantiated in a
  witness: JSON codecs read back what they wrote (\<open>codec_ok\<close>, \<open>retries_codec\<close>, \<open>pem_codec\<close>, \<open>deposit_codec\<close>), macaroons behave as their format
  says, SHA-256 does not collide on the texts that are compared, an invoice has a payment hash of its own, mint URLs are canonical after parsing, and
  identifiers of new tasks are fresh. The wallet library, the ACME client, OpenSSL, BOLT11, the RPC client of a node and the operating
  system are parameters.

  \<^bold>\<open>Granularity.\<close> An operation holds the lock of its wallet or a transaction of its database, so it is one step; steps of
  different operations interleave. A sweep of the deposits and an iteration of the certificate loop are one step each towards
  the other operations. A cancelled operation stops at one of its awaits. The end of a request gives its permit back to the
  capacity its site has then (\<open>end_request\<close>), which is the one it came from unless a reload has changed the limit; runs
  with reloads (\<open>gateway_step\<close>, \<open>service_step\<close>) therefore let an end of a request release any permit or none.

  \<^bold>\<open>Not modelled.\<close> The construction of the pingora services, the command line (clap), the TLS client of \<^verbatim>\<open>acme_http.rs\<close>,
  the OpenSSL calls that install a chosen certificate, and the endless loops of the background service around the passes
  that are modelled: they only call libraries or repeat a modelled step after a sleep. The example client is not
  part of the gateway. Symbolic links among the ancestors of a path are followed as the kernel does, but permissions of
  the owner are not: a call that lacks them fails by its environment. A power loss keeps directories in \<open>Private_Files\<close>;
  \<open>wallet_directory_unsynced\<close> records that the code does not ensure it.
\<close>

end
